(* ===== verification/Prelude.thy ===== *)
theory Prelude imports Main "HOL-Library.AList" "HOL-Library.Word"
begin

text \<open>
  Shared vocabulary of the development.

  \<^item> \<open>std::unordered_set<std::string>\<close> is a list without repetition: the list is the order in which
    an iteration over the set visits its elements. C++ leaves that order unspecified; the model
    appends new elements, and states what operations guarantee about the \<^emph>\<open>set\<close> of elements.
  \<^item> \<open>std::unordered_map<std::string, T>\<close> is an association list with distinct keys (theory AList):
    \<open>map_of m k\<close> is \<open>m.find(k)\<close>, \<open>AList.update k v m\<close> is \<open>m[k] = v\<close> and \<open>AList.delete k m\<close> is
    \<open>m.erase(k)\<close>.
  \<^item> \<open>std::string\<close> is a list of 8-bit characters.
\<close>

named_theorems uset_simps "unordered_set operations, seen as sets"
named_theorems umap_simps "unordered_map operations, seen as partial maps"
named_theorems wf_intros "preservation rules of the well-formedness predicates"

type_synonym 'v umap = "(string \<times> 'v) list"
type_synonym uset = "string list"

section \<open>Unordered sets\<close>

definition uset_insert :: "'a \<Rightarrow> 'a list \<Rightarrow> 'a list" where
  "uset_insert x xs = (if x \<in> set xs then xs else xs @ [x])"

definition uset_erase :: "'a \<Rightarrow> 'a list \<Rightarrow> 'a list" where
  "uset_erase x xs = removeAll x xs"

definition uset_insert_range :: "'a list \<Rightarrow> 'a list \<Rightarrow> 'a list" where
  "uset_insert_range ys xs = fold uset_insert ys xs"

lemma set_uset_insert [simp, uset_simps]: "set (uset_insert x xs) = insert x (set xs)"
  by (auto simp: uset_insert_def)

lemma distinct_uset_insert [simp, uset_simps]: "distinct (uset_insert x xs) = distinct xs"
  by (auto simp: uset_insert_def)

lemma uset_insert_member [simp]: "x \<in> set xs \<Longrightarrow> uset_insert x xs = xs"
  by (simp add: uset_insert_def)

lemma uset_insert_not_empty [simp]: "uset_insert x xs \<noteq> []"
  by (auto simp: uset_insert_def)

lemma set_uset_erase [simp, uset_simps]: "set (uset_erase x xs) = set xs - {x}"
  by (simp add: uset_erase_def)

lemma distinct_uset_erase [simp]: "distinct xs \<Longrightarrow> distinct (uset_erase x xs)"
  by (simp add: uset_erase_def distinct_removeAll)

lemma uset_insert_range_Nil [simp]: "uset_insert_range [] xs = xs"
  by (simp add: uset_insert_range_def)

lemma uset_insert_range_Cons [simp]:
  "uset_insert_range (y # ys) xs = uset_insert_range ys (uset_insert y xs)"
  by (simp add: uset_insert_range_def)

lemma set_uset_insert_range [simp, uset_simps]:
  "set (uset_insert_range ys xs) = set xs \<union> set ys"
  by (induction ys arbitrary: xs) auto

lemma distinct_uset_insert_range [simp, uset_simps]:
  "distinct (uset_insert_range ys xs) = distinct xs"
  by (induction ys arbitrary: xs) auto

lemma uset_insert_range_subset: "set ys \<subseteq> set xs \<Longrightarrow> uset_insert_range ys xs = xs"
  by (induction ys arbitrary: xs) auto

lemma uset_insert_range_append:
  "distinct (xs @ ys) \<Longrightarrow> uset_insert_range ys xs = xs @ ys"
  by (induction ys arbitrary: xs) (auto simp: uset_insert_def)

lemma uset_insert_range_from_empty [simp]: "distinct ys \<Longrightarrow> uset_insert_range ys [] = ys"
  by (simp add: uset_insert_range_append)

text \<open>
  The code compares \<open>size()\<close> before and after an insertion to learn whether it added anything.
\<close>

lemma length_uset_insert_range_le: "length xs \<le> length (uset_insert_range ys xs)"
proof (induction ys arbitrary: xs)
  case (Cons y ys)
  have "length xs \<le> length (uset_insert y xs)" by (simp add: uset_insert_def)
  also have "\<dots> \<le> length (uset_insert_range (y # ys) xs)" using Cons.IH by simp
  finally show ?case .
qed simp

lemma length_uset_insert_range_eq:
  "length (uset_insert_range ys xs) = length xs \<longleftrightarrow> set ys \<subseteq> set xs"
proof (induction ys arbitrary: xs)
  case (Cons y ys)
  show ?case
  proof (cases "y \<in> set xs")
    case True
    then show ?thesis using Cons.IH by simp
  next
    case False
    then have "length xs < length (uset_insert y xs)" by (simp add: uset_insert_def)
    also have "\<dots> \<le> length (uset_insert_range (y # ys) xs)"
      using length_uset_insert_range_le by simp
    finally show ?thesis using False by simp
  qed
qed simp

section \<open>Unordered maps\<close>

declare map_of_eq_Some_iff [simp del] Some_eq_map_of_iff [simp del]

abbreviation umap_ok :: "('k \<times> 'v) list \<Rightarrow> bool" where
  "umap_ok m \<equiv> distinct (map fst m)"

lemma map_of_update [simp, umap_simps]: "map_of (AList.update k v m) = (map_of m)(k \<mapsto> v)"
  by (rule update_conv')

lemma map_of_delete [simp, umap_simps]: "map_of (AList.delete k m) = (map_of m)(k := None)"
  by (rule delete_conv')

lemma umap_ok_update [simp]: "umap_ok m \<Longrightarrow> umap_ok (AList.update k v m)"
  by (rule distinct_update)

lemma umap_ok_delete [simp]: "umap_ok m \<Longrightarrow> umap_ok (AList.delete k m)"
  by (rule distinct_delete)

lemma update_new_key: "map_of m k = None \<Longrightarrow> AList.update k v m = m @ [(k, v)]"
  by (induction m) (auto split: if_splits)

lemma map_of_SomeI: "umap_ok m \<Longrightarrow> (k, v) \<in> set m \<Longrightarrow> map_of m k = Some v"
  by (rule map_of_is_SomeI)

lemma umap_ok_mem_iff: "umap_ok m \<Longrightarrow> (k, v) \<in> set m \<longleftrightarrow> map_of m k = Some v"
  by (auto intro: map_of_SomeI dest: map_of_SomeD)

lemma map_of_filter_values:
  "umap_ok m \<Longrightarrow> map_of (filter (\<lambda>(k, v). P v) m) k =
     (case map_of m k of None \<Rightarrow> None | Some v \<Rightarrow> if P v then Some v else None)"
proof (induction m)
  case (Cons kv m)
  obtain k' v where kv: "kv = (k', v)" by (cases kv)
  have "map_of m k' = None" using Cons.prems kv by (simp add: map_of_eq_None_iff)
  with Cons kv show ?case by (auto split: option.splits)
qed simp

section \<open>Writing into a file at an offset\<close>

text \<open>
  Writing at an offset: bytes between the end of the file and the offset become zero, bytes after what
  is written stay.
\<close>

definition write_at :: "nat \<Rightarrow> string \<Rightarrow> string \<Rightarrow> string" where
  "write_at off data f =
     (if data = [] then f
      else take off (f @ replicate (off - length f) (CHR 0x00)) @ data @ drop (off + length data) f)"

lemma length_write_at: "length (write_at off d f) = (if d = [] then length f else max (length f) (off + length d))"
  by (auto simp: write_at_def)

lemma write_at_end: "write_at (length f) d f = f @ d"
  by (simp add: write_at_def)

section \<open>Machines that keep an invariant\<close>

text \<open>
  The contract every stateful component shares: a start state that is well-formed and a step that
  keeps well-formedness, so that every run does.
\<close>

locale invariant_machine =
  fixes start :: 's
    and step :: "'e \<Rightarrow> 's \<Rightarrow> 's"
    and inv :: "'s \<Rightarrow> bool"
  assumes start_inv: "inv start"
    and step_inv: "inv s \<Longrightarrow> inv (step e s)"
begin

lemma run_from: "inv s \<Longrightarrow> inv (fold step es s)"
  by (induction es arbitrary: s) (auto intro: step_inv)

lemma run_start: "inv (fold step es start)"
  by (rule run_from) (rule start_inv)

end

end
