(* ===== verification/Socket_IO.thy ===== *)
theory Socket_IO imports Prelude
begin

text \<open>
  Models \<^verbatim>\<open>src/common/socket_io.cpp\<close>: \<open>recv_all\<close>, \<open>send_all\<close> and the length-prefixed framing
  \<open>send_framed\<close> / \<open>recv_framed\<close> every protocol of the system uses.

  The kernel decides how a byte stream is cut up. An incoming stream is the list of pieces that
  become available: a \<open>read\<close> takes at most what it asks for from the first piece and leaves the
  rest of it; an empty piece, or no piece left, is a \<open>read\<close> that returns 0 or -1. An outgoing
  stream is the list of byte counts that successive \<open>send\<close> calls accept, 0 or no entry left being
  a \<open>send\<close> that fails.
\<close>

text \<open>How the operating system answers the calls that set a listening socket up.\<close>

record listen_os =
  ls_socket :: bool
  ls_setsockopt :: bool
  ls_inet_pton :: "string \<Rightarrow> bool"
  ls_bind :: "string \<Rightarrow> int \<Rightarrow> bool"
  ls_listen :: bool

definition kMaxFrameSize :: nat where "kMaxFrameSize = 16 * 1024 * 1024"

fun recv_all :: "nat \<Rightarrow> string list \<Rightarrow> (string \<times> string list) option" where
  "recv_all n [] = (if n = 0 then Some ([], []) else None)"
| "recv_all n (c # cs) =
     (if n = 0 then Some ([], c # cs)
      else if c = [] then None
      else if n < length c then Some (take n c, drop n c # cs)
      else (case recv_all (n - length c) cs of None \<Rightarrow> None
            | Some (d, rest) \<Rightarrow> Some (c @ d, rest)))"

text \<open>The result is the return value, the bytes that reached the wire, and the later acceptances.\<close>

function send_all :: "nat list \<Rightarrow> string \<Rightarrow> bool \<times> string \<times> nat list" where
  "send_all ks [] = (True, [], ks)"
| "send_all [] (b # bs) = (False, [], [])"
| "send_all (k # ks) (b # bs) =
     (if k = 0 then (False, [], ks)
      else (case send_all ks (drop k (b # bs)) of (ok, w, ks') \<Rightarrow> (ok, take k (b # bs) @ w, ks')))"
  by pat_completeness auto
termination
  by (relation "measure (\<lambda>(ks, buf). length ks)") auto

text \<open>
  \<open>htonl\<close> stores the 32-bit length big-endian; \<open>static_cast<uint32_t>\<close> keeps the size modulo 2^32.
\<close>

definition be32 :: "32 word \<Rightarrow> string" where
  "be32 w = [char_of (unat (drop_bit 24 w)), char_of (unat (drop_bit 16 w)),
             char_of (unat (drop_bit 8 w)), char_of (unat w)]"

definition ntohl :: "string \<Rightarrow> nat" where
  "ntohl hdr = foldl (\<lambda>a c. 256 * a + of_char c) 0 hdr"

definition send_framed :: "nat list \<Rightarrow> string \<Rightarrow> bool \<times> string \<times> nat list" where
  "send_framed ks payload =
     (let len = (of_nat (length payload) :: 32 word) in
      case send_all ks (be32 len) of (ok, w, ks') \<Rightarrow>
        if \<not> ok then (False, w, ks')
        else (case send_all ks' payload of (ok', w', ks'') \<Rightarrow> (ok', w @ w', ks'')))"

definition recv_framed :: "nat \<Rightarrow> string list \<Rightarrow> (string \<times> string list) option" where
  "recv_framed max_len s =
     (case recv_all 4 s of None \<Rightarrow> None
      | Some (len_net, s') \<Rightarrow>
          let len = ntohl len_net in
          if max_len < len then None
          else if len = 0 then Some ([], s')
          else recv_all len s')"

section \<open>Reading and writing exact amounts\<close>

definition stream_open :: "string list \<Rightarrow> bool" where
  "stream_open s \<longleftrightarrow> [] \<notin> set s"

text \<open>
  The contract of an exact reader over a stream with a byte content: it delivers exactly the bytes
  asked for, however they were cut up, or nothing when the stream ends before.
\<close>

locale exact_reader =
  fixes read_n :: "nat \<Rightarrow> 's \<Rightarrow> (string \<times> 's) option"
    and content :: "'s \<Rightarrow> string"
    and live :: "'s \<Rightarrow> bool"
  assumes read_enough: "live s \<Longrightarrow> n \<le> length (content s) \<Longrightarrow>
      \<exists>s'. read_n n s = Some (take n (content s), s') \<and> content s' = drop n (content s) \<and> live s'"
    and read_short: "live s \<Longrightarrow> length (content s) < n \<Longrightarrow> read_n n s = None"
begin

lemma read_prefix:
  assumes "live s" "content s = p @ r"
  obtains s' where "read_n (length p) s = Some (p, s')" "content s' = r" "live s'"
  using read_enough [of s "length p"] assms by auto

lemma read_two:
  assumes "live s" "content s = p @ q @ r"
  obtains s' s'' where "read_n (length p) s = Some (p, s')" "read_n (length q) s' = Some (q, s'')"
    "content s'' = r" "live s''"
  using read_prefix [OF assms(1), of p "q @ r"] assms(2) read_prefix by (metis (no_types))

lemma read_iff: "live s \<Longrightarrow> (\<exists>p s'. read_n n s = Some (p, s')) \<longleftrightarrow> n \<le> length (content s)"
  using read_enough [of s n] read_short [of s n] by (cases "n \<le> length (content s)") auto

end

lemma recv_all_enough:
  "stream_open s \<Longrightarrow> n \<le> length (concat s) \<Longrightarrow>
   \<exists>s'. recv_all n s = Some (take n (concat s), s') \<and> concat s' = drop n (concat s) \<and> stream_open s'"
proof (induction n s rule: recv_all.induct)
  case (2 n c cs)
  show ?case
  proof (cases "n = 0 \<or> n < length c")
    case True
    then show ?thesis using "2.prems" by (auto simp: stream_open_def)
  next
    case False
    then have "stream_open cs" "n - length c \<le> length (concat cs)" "c \<noteq> []" "n \<noteq> 0"
      using "2.prems" by (auto simp: stream_open_def)
    with "2.IH" False show ?thesis by auto
  qed
qed (auto simp: stream_open_def)

lemma recv_all_short: "stream_open s \<Longrightarrow> length (concat s) < n \<Longrightarrow> recv_all n s = None"
  by (induction n s rule: recv_all.induct) (auto simp: stream_open_def)

interpretation socket: exact_reader recv_all concat stream_open
  by unfold_locales (auto intro: recv_all_enough recv_all_short)

lemma send_all_ok: "send_all ks buf = (True, w, ks') \<Longrightarrow> w = buf"
  by (induction ks buf arbitrary: w ks' rule: send_all.induct) (auto split: if_splits prod.splits)

lemma send_all_prefix: "send_all ks buf = (ok, w, ks') \<Longrightarrow> \<exists>r. buf = w @ r"
proof (induction ks buf arbitrary: ok w ks' rule: send_all.induct)
  case (3 k ks b bs)
  show ?case
  proof (cases "k = 0")
    case False
    obtain ok' w' ks'' where r: "send_all ks (drop k (b # bs)) = (ok', w', ks'')"
      by (cases "send_all ks (drop k (b # bs))")
    then obtain t where "drop k (b # bs) = w' @ t" using "3.IH" False by blast
    then have "b # bs = take k (b # bs) @ w' @ t" by (metis append_take_drop_id)
    then show ?thesis using "3.prems" r False by auto
  qed (use "3.prems" in auto)
qed auto

lemma send_all_progress: "length buf \<le> length ks \<Longrightarrow> 0 \<notin> set ks \<Longrightarrow> fst (send_all ks buf)"
proof (induction ks buf rule: send_all.induct)
  case (3 k ks b bs)
  then have "length (drop k (b # bs)) \<le> length ks" by auto
  with 3 show ?case by (auto split: prod.splits)
qed auto

section \<open>Frames\<close>

lemma length_be32 [simp]: "length (be32 w) = 4"
  by (simp add: be32_def)

lemma ntohl_be32 [simp]: "ntohl (be32 w) = unat w"
proof -
  let ?n = "unat w"
  define a where "a = ?n div 256"
  define b where "b = a div 256"
  define c where "c = b div 256"
  have "?n < 2 ^ LENGTH(32)" by (rule unsigned_less)
  then have c: "c < 256" by (simp add: a_def b_def c_def flip: div_mult2_eq)
  have divs: "?n div 65536 = b" "?n div 16777216 = c"
    by (simp_all add: a_def b_def c_def flip: div_mult2_eq)
  have base: "n = 256 * p + r0 \<Longrightarrow> p = 256 * q + r1 \<Longrightarrow> q = 256 * k + r2 \<Longrightarrow>
      256 * (256 * (256 * k + r2) + r1) + r0 = n" for n p q k r0 r1 r2 :: nat
    by simp
  have sum: "256 * (256 * (256 * c + b mod 256) + a mod 256) + ?n mod 256 = ?n"
    by (rule base) (simp_all add: a_def b_def c_def)
  have "ntohl (be32 w) = 256 * (256 * (256 * (c mod 256) + b mod 256) + a mod 256) + ?n mod 256"
    using divs a_def [symmetric]
    by (simp add: ntohl_def be32_def unat_drop_bit_eq drop_bit_eq_div [where 'a = nat] del: drop_bit_eq_div)
  also have "\<dots> = ?n" using c sum by (simp only: mod_less)
  finally show ?thesis .
qed

lemma send_framed_bytes:
  "send_framed ks payload = (True, w, ks') \<Longrightarrow> w = be32 (of_nat (length payload)) @ payload"
  by (auto simp: send_framed_def Let_def split: prod.splits if_splits dest: send_all_ok)

lemma recv_framed_frame:
  assumes "stream_open s" "concat s = be32 (of_nat (length payload)) @ payload @ rest"
    and "length payload \<le> max_len" "max_len < 2 ^ 32"
  shows "\<exists>s'. recv_framed max_len s = Some (payload, s') \<and> concat s' = rest \<and> stream_open s'"
proof -
  have len: "unat (of_nat (length payload) :: 32 word) = length payload"
    using assms(3,4) by (simp add: unat_of_nat)
  obtain s1 s2 where r: "recv_all 4 s = Some (be32 (of_nat (length payload)), s1)"
      "recv_all (length payload) s1 = Some (payload, s2)" "concat s2 = rest" "stream_open s2"
    using socket.read_two [OF assms(1,2)] by auto
  show ?thesis
  proof (cases "payload = []")
    case True
    moreover have "concat s1 = rest \<and> stream_open s1"
      using True socket.read_prefix [OF assms(1), of "be32 (of_nat (length payload))" rest] assms(2) r(1)
      by auto
    ultimately show ?thesis using r(1) by (simp add: recv_framed_def)
  next
    case False
    then show ?thesis using r assms(3) len by (auto simp: recv_framed_def)
  qed
qed

lemma recv_framed_oversize:
  assumes "stream_open s" "concat s = be32 (of_nat (length payload)) @ rest"
    and "max_len < length payload" "length payload < 2 ^ 32"
  shows "recv_framed max_len s = None"
proof -
  have len: "unat (of_nat (length payload) :: 32 word) = length payload"
    using assms(4) by (simp add: unat_of_nat)
  obtain s1 where "recv_all 4 s = Some (be32 (of_nat (length payload)), s1)"
    using socket.read_prefix [OF assms(1,2)] by auto
  then show ?thesis using len assms(3) by (simp add: recv_framed_def)
qed

text \<open>
  A whole conversation: the frames of several messages on one stream, and the receiver that reads
  as many.
\<close>

definition frame :: "string \<Rightarrow> string" where
  "frame payload = be32 (of_nat (length payload)) @ payload"

fun recv_many :: "nat \<Rightarrow> nat \<Rightarrow> string list \<Rightarrow> string list option" where
  "recv_many 0 max_len s = Some []"
| "recv_many (Suc k) max_len s =
     (case recv_framed max_len s of None \<Rightarrow> None
      | Some (m, s') \<Rightarrow> map_option ((#) m) (recv_many k max_len s'))"

lemma recv_many_frames:
  "stream_open s \<Longrightarrow> concat s = concat (map frame ms) @ rest \<Longrightarrow>
   \<forall>m \<in> set ms. length m \<le> max_len \<Longrightarrow> max_len < 2 ^ 32 \<Longrightarrow>
   recv_many (length ms) max_len s = Some ms"
proof (induction ms arbitrary: s)
  case (Cons m ms)
  have "concat s = be32 (of_nat (length m)) @ m @ (concat (map frame ms) @ rest)"
    using Cons.prems(2) frame_def [of m] by simp
  then obtain s' where "recv_framed max_len s = Some (m, s')"
      "concat s' = concat (map frame ms) @ rest" "stream_open s'"
    using recv_framed_frame [OF Cons.prems(1), of m _ max_len] Cons.prems(3,4) by auto
  then show ?case using Cons.IH Cons.prems(3,4) by simp
qed simp

lemma recv_framed_truncated:
  assumes "stream_open s" "frame payload = concat s @ t" "t \<noteq> []"
    and "length payload \<le> max_len" "max_len < 2 ^ 32"
  shows "recv_framed max_len s = None"
proof (cases "length (concat s) < 4")
  case True
  then show ?thesis using assms(1) by (simp add: recv_framed_def recv_all_short)
next
  case False
  have len: "unat (of_nat (length payload) :: 32 word) = length payload"
    using assms(4,5) by (simp add: unat_of_nat)
  define hdr where "hdr = be32 (of_nat (length payload))"
  have lh: "length hdr = 4" by (simp add: hdr_def)
  have eq: "hdr @ payload = concat s @ t" using assms(2) by (simp add: frame_def hdr_def)
  then have "take 4 (concat s) = hdr" "drop 4 (concat s) @ t = payload"
    using False lh by (auto simp: append_eq_append_conv_if split: if_splits)
  then have c: "concat s = hdr @ drop 4 (concat s)" "length (drop 4 (concat s)) < length payload"
    using assms(3) by (metis append_take_drop_id, metis add.right_neutral length_0_conv length_append nat_add_left_cancel_less neq0_conv)
  obtain s1 where s1: "recv_all (length hdr) s = Some (hdr, s1)" "concat s1 = drop 4 (concat s)" "stream_open s1"
    using socket.read_prefix [OF assms(1) c(1)] by auto
  moreover have "recv_all (length payload) s1 = None"
    using s1 c(2) by (simp add: recv_all_short)
  ultimately show ?thesis
    using lh len assms(4) c(2) by (auto simp: recv_framed_def hdr_def)
qed

end
