(* ===== verification/Wire_Text.thy ===== *)
theory Wire_Text imports Prelude
begin

text \<open>
  Models \<^verbatim>\<open>src/common/message.cpp\<close>: whitespace tokenising (\<open>split_args\<close>) and strict integer parsing
  (\<open>parse_ll\<close>, \<open>parse_int\<close>), together with the pieces of the standard library they rest on
  (\<open>std::isspace\<close>, \<open>operator>>\<close> into a string, \<open>std::strtoll\<close>, \<open>std::to_string\<close>, \<open>std::getline\<close>).
  \<open>long long\<close> and \<open>int\<close> are integers with their bounds written out.
\<close>

section \<open>Standard library: characters, streams, lines\<close>

definition isspace :: "char \<Rightarrow> bool" where
  "isspace c \<longleftrightarrow> c = CHR '' '' \<or> c = CHR 0x09 \<or> c = CHR 0x0A \<or> c = CHR 0x0B \<or> c = CHR 0x0C \<or> c = CHR 0x0D"

definition newline :: char where "newline = CHR 0x0A"

text \<open>
  \<open>stream >> word\<close>: skip whitespace, then take the longest run of other characters. \<open>None\<close> is the
  failed extraction that ends a \<open>while (stream >> word)\<close> loop.
\<close>

definition read_word :: "string \<Rightarrow> (string \<times> string) option" where
  "read_word s = (let r = dropWhile isspace s in
     if r = [] then None
     else Some (takeWhile (\<lambda>c. \<not> isspace c) r, dropWhile (\<lambda>c. \<not> isspace c) r))"

text \<open>\<open>while (std::getline(in, line))\<close>: the lines it delivers, in order.\<close>

function getlines :: "string \<Rightarrow> string list" where
  "getlines s = (if s = [] then []
     else takeWhile (\<lambda>c. c \<noteq> newline) s # getlines (drop 1 (dropWhile (\<lambda>c. c \<noteq> newline) s)))"
  by pat_completeness auto
termination
proof (relation "measure length")
  fix s :: string
  assume "s \<noteq> []"
  then have "0 < length s" by simp
  with length_dropWhile_le [of "\<lambda>c. c \<noteq> newline" s]
  have "length (drop 1 (dropWhile (\<lambda>c. c \<noteq> newline) s)) < length s"
    by (simp only: length_drop)
  then show "(drop 1 (dropWhile (\<lambda>c. c \<noteq> newline) s), s) \<in> measure length"
    by (simp only: in_measure)
qed simp

declare getlines.simps [simp del]

section \<open>split_args\<close>

lemma read_word_shorter: "read_word s = Some (tok, rest) \<Longrightarrow> length rest < length s"
proof -
  assume a: "read_word s = Some (tok, rest)"
  let ?r = "dropWhile isspace s"
  from a have ne: "?r \<noteq> []" and rest: "rest = dropWhile (\<lambda>c. \<not> isspace c) ?r"
    by (auto simp: read_word_def Let_def split: if_splits)
  from ne have "\<not> isspace (hd ?r)" by (rule hd_dropWhile)
  with ne have "length rest < length ?r"
    unfolding rest by (cases ?r) (auto intro: le_imp_less_Suc length_dropWhile_le)
  also have "\<dots> \<le> length s" by (rule length_dropWhile_le)
  finally show ?thesis .
qed

function split_args :: "string \<Rightarrow> string list" where
  "split_args s = (case read_word s of None \<Rightarrow> [] | Some (tok, rest) \<Rightarrow> tok # split_args rest)"
  by pat_completeness auto
termination
  by (relation "measure length") (auto dest: read_word_shorter)

declare split_args.simps [simp del]

section \<open>parse_ll and parse_int\<close>

definition LLONG_MAX :: int where "LLONG_MAX = 9223372036854775807"
definition LLONG_MIN :: int where "LLONG_MIN = - 9223372036854775808"
definition INT_MAX :: int where "INT_MAX = 2147483647"
definition INT_MIN :: int where "INT_MIN = - 2147483648"

definition isdigit :: "char \<Rightarrow> bool" where
  "isdigit c \<longleftrightarrow> 48 \<le> (of_char c :: nat) \<and> (of_char c :: nat) \<le> 57"

definition digit_val :: "char \<Rightarrow> nat" where "digit_val c = of_char c - 48"

definition dec_value :: "string \<Rightarrow> nat" where
  "dec_value ds = foldl (\<lambda>a c. 10 * a + digit_val c) 0 ds"

text \<open>\<open>strtoll(s, &end, 10)\<close>: the value, the unparsed suffix at \<open>end\<close>, and whether errno is ERANGE.\<close>

definition strtoll :: "string \<Rightarrow> int \<times> string \<times> bool" where
  "strtoll s =
     (let s1 = dropWhile isspace s;
          neg = (s1 \<noteq> [] \<and> hd s1 = CHR ''-'');
          s2 = (if s1 \<noteq> [] \<and> (hd s1 = CHR ''-'' \<or> hd s1 = CHR ''+'') then tl s1 else s1);
          ds = takeWhile isdigit s2;
          v = (if neg then - int (dec_value ds) else int (dec_value ds))
      in if ds = [] then (0, s, False)
         else if LLONG_MAX < v then (LLONG_MAX, dropWhile isdigit s2, True)
         else if v < LLONG_MIN then (LLONG_MIN, dropWhile isdigit s2, True)
         else (v, dropWhile isdigit s2, False))"

definition parse_ll :: "string \<Rightarrow> int option" where
  "parse_ll s =
     (if s = [] then None
      else if isspace (hd s) then None
      else (case strtoll s of (v, rest, erange) \<Rightarrow>
        if erange \<or> rest \<noteq> [] then None else Some v))"

definition parse_int :: "string \<Rightarrow> int option" where
  "parse_int s =
     (case parse_ll s of None \<Rightarrow> None
      | Some v \<Rightarrow> if v < INT_MIN \<or> INT_MAX < v then None else Some v)"

section \<open>std::to_string\<close>

definition digit_char :: "nat \<Rightarrow> char" where "digit_char d = char_of (48 + d)"

fun show_nat :: "nat \<Rightarrow> string" where
  "show_nat n = (if n < 10 then [digit_char n] else show_nat (n div 10) @ [digit_char (n mod 10)])"

declare show_nat.simps [simp del]

definition to_string :: "int \<Rightarrow> string" where
  "to_string i = (if i < 0 then CHR ''-'' # show_nat (nat (- i)) else show_nat (nat i))"

section \<open>Words: what a token is\<close>

definition is_word :: "string \<Rightarrow> bool" where
  "is_word w \<longleftrightarrow> w \<noteq> [] \<and> (\<forall>c \<in> set w. \<not> isspace c)"

text \<open>A text after which a token ends: nothing, or a whitespace character.\<close>

definition ends_word :: "string \<Rightarrow> bool" where
  "ends_word s \<longleftrightarrow> s = [] \<or> isspace (hd s)"

lemma isspace_simps [simp]:
  "isspace (CHR '' '')" "isspace newline" "isspace (CHR 0x0A)"
  by (simp_all add: isspace_def newline_def)

lemma ends_word_simps [simp]: "ends_word []" "ends_word (c # s) = isspace c"
  by (simp_all add: ends_word_def)

lemma read_word_space [simp]: "isspace c \<Longrightarrow> read_word (c # s) = read_word s"
  by (simp add: read_word_def)

lemma read_word_Nil [simp]: "read_word [] = None"
  by (simp add: read_word_def)

lemma read_word_word:
  assumes "is_word w" "ends_word s"
  shows "read_word (w @ s) = Some (w, s)"
proof -
  obtain c w' where w: "w = c # w'" "\<not> isspace c"
    using assms(1) by (cases w) (auto simp: is_word_def)
  have "dropWhile isspace (w @ s) = w @ s" using w by simp
  moreover have "takeWhile (\<lambda>c. \<not> isspace c) (w @ s) = w"
    using assms by (cases s) (auto simp: is_word_def takeWhile_append)
  moreover have "dropWhile (\<lambda>c. \<not> isspace c) (w @ s) = s"
    using assms by (cases s) (auto simp: is_word_def dropWhile_append)
  ultimately show ?thesis using w by (simp add: read_word_def)
qed

lemma read_word_is_word:
  assumes "read_word s = Some (tok, rest)"
  shows "is_word tok \<and> ends_word rest"
proof -
  let ?r = "dropWhile isspace s"
  from assms have ne: "?r \<noteq> []" and tok: "tok = takeWhile (\<lambda>c. \<not> isspace c) ?r"
    and rest: "rest = dropWhile (\<lambda>c. \<not> isspace c) ?r"
    by (auto simp: read_word_def Let_def split: if_splits)
  from ne have "\<not> isspace (hd ?r)" by (rule hd_dropWhile)
  then have "tok \<noteq> []" using ne tok by (cases ?r) auto
  moreover have "\<forall>c\<in>set tok. \<not> isspace c" using tok by (auto dest: set_takeWhileD)
  moreover have "rest \<noteq> [] \<Longrightarrow> isspace (hd rest)"
    unfolding rest using hd_dropWhile by blast
  ultimately show ?thesis by (auto simp: is_word_def ends_word_def)
qed

lemma split_args_Nil [simp]: "split_args [] = []"
  by (simp add: split_args.simps)

lemma split_args_space [simp]: "isspace c \<Longrightarrow> split_args (c # s) = split_args s"
  by (simp add: split_args.simps [of "c # s"] split_args.simps [of s])

lemma split_args_word: "is_word w \<Longrightarrow> ends_word s \<Longrightarrow> split_args (w @ s) = w # split_args s"
  by (simp add: split_args.simps [of "w @ s"] read_word_word)

lemma split_args_single: "is_word w \<Longrightarrow> split_args w = [w]"
  using split_args_word [of w "[]"] by simp

lemma split_args_words: "w \<in> set (split_args s) \<Longrightarrow> is_word w"
proof (induction s rule: split_args.induct)
  case (1 s)
  show ?case
  proof (cases "read_word s")
    case None
    then show ?thesis using "1.prems" by (simp add: split_args.simps [of s])
  next
    case (Some p)
    obtain tok rest where p: "p = (tok, rest)" by (cases p)
    then have "w = tok \<or> w \<in> set (split_args rest)"
      using "1.prems" Some by (simp add: split_args.simps [of s])
    then show ?thesis using read_word_is_word [of s tok rest] Some p "1.IH" [OF Some p [symmetric]] by blast
  qed
qed

lemma split_args_nth: "i < length (split_args s) \<Longrightarrow> is_word (split_args s ! i)"
  by (rule split_args_words) (rule nth_mem)

text \<open>A space-separated list of words, each preceded by a space: the shape every sender builds.\<close>

definition spaced :: "string list \<Rightarrow> string" where
  "spaced ws = concat (map (\<lambda>w. CHR '' '' # w) ws)"

lemma spaced_simps [simp]: "spaced [] = []" "spaced (w # ws) = CHR '' '' # w @ spaced ws"
  by (simp_all add: spaced_def)

lemma spaced_append: "spaced (xs @ ys) = spaced xs @ spaced ys"
  by (simp add: spaced_def)

lemma ends_word_spaced [simp]: "ends_word s \<Longrightarrow> ends_word (spaced ws @ s)"
  by (cases ws) auto

lemma split_args_spaced:
  "\<forall>w \<in> set ws. is_word w \<Longrightarrow> ends_word s \<Longrightarrow> split_args (spaced ws @ s) = ws @ split_args s"
  by (induction ws) (auto simp: split_args_word)

lemma split_args_spaced_all: "\<forall>w \<in> set ws. is_word w \<Longrightarrow> split_args (spaced ws) = ws"
  using split_args_spaced [of ws "[]"] by simp

lemma split_args_command:
  "is_word w \<Longrightarrow> \<forall>v \<in> set ws. is_word v \<Longrightarrow> split_args (w @ spaced ws) = w # ws"
  using split_args_word [of w "spaced ws"] ends_word_spaced [of "[]" ws]
  by (simp add: split_args_spaced_all)

section \<open>Lines\<close>

lemma getlines_Nil [simp]: "getlines [] = []"
  by (simp add: getlines.simps)

lemma getlines_line:
  assumes "newline \<notin> set l"
  shows "getlines (l @ newline # s) = l # getlines s"
proof -
  have "takeWhile (\<lambda>c. c \<noteq> newline) (l @ newline # s) = l"
    using assms by (induction l) auto
  moreover have "dropWhile (\<lambda>c. c \<noteq> newline) (l @ newline # s) = newline # s"
    using assms by (induction l) auto
  ultimately show ?thesis by (simp add: getlines.simps [of "l @ newline # s"])
qed

definition unlines :: "string list \<Rightarrow> string" where
  "unlines ls = concat (map (\<lambda>l. l @ [newline]) ls)"

lemma unlines_simps [simp]: "unlines [] = []" "unlines (l # ls) = l @ newline # unlines ls"
  by (simp_all add: unlines_def)

lemma unlines_append: "unlines (xs @ ys) = unlines xs @ unlines ys"
  by (simp add: unlines_def)

lemma getlines_unlines: "\<forall>l \<in> set ls. newline \<notin> set l \<Longrightarrow> getlines (unlines ls) = ls"
  by (induction ls) (auto simp: getlines_line)

lemma is_word_no_newline: "is_word w \<Longrightarrow> newline \<notin> set w"
  by (auto simp: is_word_def)

lemma spaced_no_newline: "\<forall>w \<in> set ws. is_word w \<Longrightarrow> newline \<notin> set (spaced ws)"
proof (induction ws)
  case (Cons w ws)
  have "CHR '' '' \<noteq> newline" by (simp add: newline_def)
  then show ?case using Cons is_word_no_newline [of w] by simp
qed simp

section \<open>Decimal numbers\<close>

lemma isdigit_not_special:
  "isdigit c \<Longrightarrow> \<not> isspace c \<and> c \<noteq> CHR ''-'' \<and> c \<noteq> CHR ''+''"
  by (auto simp: isdigit_def isspace_def)

lemma of_char_digit_char [simp]: "d < 10 \<Longrightarrow> (of_char (digit_char d) :: nat) = 48 + d"
  by (simp add: digit_char_def)

lemma isdigit_digit_char [simp]: "d < 10 \<Longrightarrow> isdigit (digit_char d)"
  by (simp add: isdigit_def)

lemma digit_val_digit_char [simp]: "d < 10 \<Longrightarrow> digit_val (digit_char d) = d"
  by (simp add: digit_val_def)

lemma dec_value_snoc: "dec_value (ds @ [c]) = 10 * dec_value ds + digit_val c"
  by (simp add: dec_value_def)

lemma dec_value_single [simp]: "dec_value [c] = digit_val c"
  by (simp add: dec_value_def)

lemma show_nat_digits: "c \<in> set (show_nat n) \<Longrightarrow> isdigit c"
  by (induction n rule: show_nat.induct) (subst (asm) (2) show_nat.simps, auto split: if_splits)

lemma show_nat_not_Nil [simp]: "show_nat n \<noteq> []"
  by (subst show_nat.simps) simp

lemma dec_value_show_nat [simp]: "dec_value (show_nat n) = n"
proof (induction n rule: show_nat.induct)
  case (1 n)
  show ?case
  proof (cases "n < 10")
    case True
    then show ?thesis by (subst show_nat.simps) simp
  next
    case False
    with "1.IH" have "dec_value (show_nat (n div 10)) = n div 10" by simp
    with False show ?thesis by (subst show_nat.simps) (simp add: dec_value_snoc)
  qed
qed

lemma to_string_word: "is_word (to_string i)"
  by (auto simp: is_word_def to_string_def dest!: show_nat_digits isdigit_not_special)
     (simp add: isspace_def)

lemma all_digits_while [simp]:
  assumes "\<forall>c \<in> set ds. isdigit c"
  shows "takeWhile isdigit ds = ds" "dropWhile isdigit ds = []"
  using assms by (simp_all add: takeWhile_eq_all_conv)

text \<open>An independent reading of "a complete decimal integer": an optional sign, then digits only.\<close>

definition signed_decimal :: "string \<Rightarrow> int \<Rightarrow> bool" where
  "signed_decimal s v \<longleftrightarrow>
     (\<exists>ds. ds \<noteq> [] \<and> (\<forall>c \<in> set ds. isdigit c) \<and>
       (s = ds \<and> v = int (dec_value ds)
        \<or> s = CHR ''+'' # ds \<and> v = int (dec_value ds)
        \<or> s = CHR ''-'' # ds \<and> v = - int (dec_value ds)))"

lemma strtoll_unsigned:
  assumes "ds \<noteq> []" "\<forall>c \<in> set ds. isdigit c"
  shows "strtoll ds = (if LLONG_MAX < int (dec_value ds) then (LLONG_MAX, [], True)
                       else (int (dec_value ds), [], False))"
proof -
  obtain c cs where ds: "ds = c # cs" using assms(1) by (cases ds) auto
  then have "\<not> isspace c" "c \<noteq> CHR ''-''" "c \<noteq> CHR ''+''"
    using assms(2) isdigit_not_special by auto
  then have "dropWhile isspace ds = ds" "hd ds \<noteq> CHR ''-''" "hd ds \<noteq> CHR ''+''"
    by (simp_all add: ds)
  then show ?thesis
    using assms by (simp add: strtoll_def Let_def LLONG_MIN_def)
qed

lemma strtoll_signed:
  assumes "ds \<noteq> []" "\<forall>c \<in> set ds. isdigit c"
  shows "strtoll (CHR ''+'' # ds) = strtoll ds"
    and "strtoll (CHR ''-'' # ds) = (if - int (dec_value ds) < LLONG_MIN then (LLONG_MIN, [], True)
                                     else (- int (dec_value ds), [], False))"
proof -
  have "\<not> isspace (CHR ''+'')" "\<not> isspace (CHR ''-'')" by (simp_all add: isspace_def)
  then show "strtoll (CHR ''+'' # ds) = strtoll ds"
    and "strtoll (CHR ''-'' # ds) = (if - int (dec_value ds) < LLONG_MIN then (LLONG_MIN, [], True)
                                     else (- int (dec_value ds), [], False))"
    using assms by (simp_all add: strtoll_unsigned) (simp_all add: strtoll_def Let_def LLONG_MIN_def LLONG_MAX_def)
qed

lemma parse_ll_plain:
  "ds \<noteq> [] \<Longrightarrow> \<forall>c \<in> set ds. isdigit c \<Longrightarrow>
   parse_ll ds = (if int (dec_value ds) \<le> LLONG_MAX then Some (int (dec_value ds)) else None)"
  by (cases ds) (auto simp: parse_ll_def strtoll_unsigned isdigit_not_special)

lemma parse_ll_minus:
  "ds \<noteq> [] \<Longrightarrow> \<forall>c \<in> set ds. isdigit c \<Longrightarrow>
   parse_ll (CHR ''-'' # ds) = (if LLONG_MIN \<le> - int (dec_value ds) then Some (- int (dec_value ds)) else None)"
  by (auto simp: parse_ll_def strtoll_signed isspace_def)

lemma parse_ll_plus:
  "ds \<noteq> [] \<Longrightarrow> \<forall>c \<in> set ds. isdigit c \<Longrightarrow> parse_ll (CHR ''+'' # ds) = parse_ll ds"
  by (cases ds) (auto simp: parse_ll_def strtoll_signed isspace_def isdigit_def)

lemma parse_ll_bounds: "parse_ll s = Some v \<Longrightarrow> LLONG_MIN \<le> v \<and> v \<le> LLONG_MAX"
  by (auto simp: parse_ll_def strtoll_def Let_def split: if_splits prod.splits)

lemma parse_ll_signed_decimal:
  assumes "parse_ll s = Some v"
  shows "signed_decimal s v"
proof -
  obtain c cs where s: "s = c # cs" and c: "\<not> isspace c"
    and str: "strtoll s = (v, [], False)"
    using assms by (cases s) (auto simp: parse_ll_def split: if_splits prod.splits)
  define s2 where "s2 = (if c = CHR ''-'' \<or> c = CHR ''+'' then cs else s)"
  have dw: "dropWhile isspace s = s" using s c by simp
  from str have "takeWhile isdigit s2 \<noteq> []" "dropWhile isdigit s2 = []"
    and v: "v = (if c = CHR ''-'' then - int (dec_value (takeWhile isdigit s2))
                 else int (dec_value (takeWhile isdigit s2)))"
    unfolding strtoll_def dw by (auto simp: s s2_def Let_def split: if_splits)
  then have "s2 \<noteq> []" "\<forall>d\<in>set s2. isdigit d" "takeWhile isdigit s2 = s2"
    by (auto simp: dropWhile_eq_Nil_conv)
  with v show ?thesis
    unfolding signed_decimal_def by (intro exI [of _ s2]) (auto simp: s s2_def)
qed

lemma parse_ll_Some_iff:
  "parse_ll s = Some v \<longleftrightarrow> signed_decimal s v \<and> LLONG_MIN \<le> v \<and> v \<le> LLONG_MAX"
proof
  assume "parse_ll s = Some v"
  then show "signed_decimal s v \<and> LLONG_MIN \<le> v \<and> v \<le> LLONG_MAX"
    using parse_ll_bounds parse_ll_signed_decimal by blast
next
  assume "signed_decimal s v \<and> LLONG_MIN \<le> v \<and> v \<le> LLONG_MAX"
  then show "parse_ll s = Some v"
    by (auto simp: signed_decimal_def parse_ll_plain parse_ll_plus parse_ll_minus)
qed

lemma to_string_signed_decimal: "signed_decimal (to_string i) i"
proof -
  have "\<forall>c\<in>set (show_nat n). isdigit c" for n using show_nat_digits by blast
  then show ?thesis unfolding signed_decimal_def to_string_def
    by (intro exI [of _ "show_nat (nat \<bar>i\<bar>)"]) auto
qed

lemma parse_ll_to_string: "LLONG_MIN \<le> i \<Longrightarrow> i \<le> LLONG_MAX \<Longrightarrow> parse_ll (to_string i) = Some i"
  by (simp add: parse_ll_Some_iff to_string_signed_decimal)

lemma parse_int_to_string: "INT_MIN \<le> i \<Longrightarrow> i \<le> INT_MAX \<Longrightarrow> parse_int (to_string i) = Some i"
  by (simp add: parse_int_def parse_ll_to_string INT_MIN_def INT_MAX_def LLONG_MIN_def LLONG_MAX_def)

lemma parse_int_parse_ll:
  "parse_int s = Some v \<longleftrightarrow> parse_ll s = Some v \<and> INT_MIN \<le> v \<and> v \<le> INT_MAX"
  by (auto simp: parse_int_def split: option.splits if_splits)

lemma parse_int_Some_iff:
  "parse_int s = Some v \<longleftrightarrow> signed_decimal s v \<and> INT_MIN \<le> v \<and> v \<le> INT_MAX"
  unfolding parse_int_parse_ll parse_ll_Some_iff
  by (auto simp: INT_MIN_def INT_MAX_def LLONG_MIN_def LLONG_MAX_def)

section \<open>Field codecs\<close>

text \<open>
  What a message field promises: its printed form is one token, and the parser reads it back. A
  message or record built from such fields survives tokenising.
\<close>

locale field_codec =
  fixes enc :: "'a \<Rightarrow> string" and dec :: "string \<Rightarrow> 'a option" and ok :: "'a \<Rightarrow> bool"
  assumes enc_word: "ok x \<Longrightarrow> is_word (enc x)"
    and dec_enc: "ok x \<Longrightarrow> dec (enc x) = Some x"
begin

lemma split_field: "ok x \<Longrightarrow> ends_word s \<Longrightarrow> split_args (enc x @ s) = enc x # split_args s"
  by (rule split_args_word) (rule enc_word)

lemma enc_inj: "ok x \<Longrightarrow> ok y \<Longrightarrow> enc x = enc y \<Longrightarrow> x = y"
  using dec_enc by (metis option.inject)

lemma decode_fields:
  "\<forall>x \<in> set xs. ok x \<Longrightarrow> those (map dec (split_args (spaced (map enc xs)))) = Some xs"
proof -
  assume ok: "\<forall>x \<in> set xs. ok x"
  then have "split_args (spaced (map enc xs)) = map enc xs"
    by (intro split_args_spaced_all) (auto intro: enc_word)
  moreover from ok have "those (map dec (map enc xs)) = Some xs"
    by (induction xs) (auto simp: dec_enc)
  ultimately show ?thesis by simp
qed

end

interpretation ll_codec: field_codec to_string parse_ll "\<lambda>i. LLONG_MIN \<le> i \<and> i \<le> LLONG_MAX"
  by unfold_locales (auto simp: to_string_word parse_ll_to_string)

interpretation int_codec: field_codec to_string parse_int "\<lambda>i. INT_MIN \<le> i \<and> i \<le> INT_MAX"
  by unfold_locales (auto simp: to_string_word parse_int_to_string)

text \<open>Whatever a tokeniser delivers can be sent again: joining and splitting is the identity.\<close>

lemma split_args_idem: "split_args (spaced (split_args s)) = split_args s"
  by (rule split_args_spaced_all) (auto dest: split_args_words)

end
