(* ===== verification/Hash.thy ===== *)
theory Hash imports Wire_Text
begin

unbundle bit_operations_syntax

text \<open>
  Models \<^verbatim>\<open>src/common/hash.cpp\<close>: hex rendering, SHA-1 and SHA-256 of buffers, and the per-piece hashes
  of a file.

  OpenSSL is not part of the repository: the record \<open>openssl\<close> holds what its digest calls return
  (\<open>None\<close> when any of the EVP calls fails), and every definition that hashes takes it as an argument.
  A file system maps a path to a file; a file is readable, or can be opened but not read (a directory,
  an I/O error).
\<close>

record openssl =
  evp_sha1 :: "string \<Rightarrow> 8 word list option"
  evp_sha256 :: "string \<Rightarrow> 8 word list option"

datatype disk_file = Readable string | Unreadable nat

type_synonym filesystem = "string \<Rightarrow> disk_file option"

definition kPieceSize :: nat where "kPieceSize = 512 * 1024"

definition hex_digits :: string where "hex_digits = ''0123456789abcdef''"

definition to_hex :: "8 word list \<Rightarrow> string" where
  "to_hex digest = concat (map (\<lambda>b. [hex_digits ! unat (drop_bit 4 b), hex_digits ! unat (b AND 15)]) digest)"

definition digest_hex :: "(string \<Rightarrow> 8 word list option) \<Rightarrow> string \<Rightarrow> string" where
  "digest_hex md data = (case md data of None \<Rightarrow> '''' | Some digest \<Rightarrow> to_hex digest)"

definition sha1_hex :: "openssl \<Rightarrow> string \<Rightarrow> string" where
  "sha1_hex ssl data = digest_hex (evp_sha1 ssl) data"

definition sha256_hex :: "openssl \<Rightarrow> string \<Rightarrow> string" where
  "sha256_hex ssl data = digest_hex (evp_sha256 ssl) data"

text \<open>The successive \<open>read(fd, buf, kPieceSize)\<close> results of a regular file, up to end of file.\<close>

function file_reads :: "string \<Rightarrow> string list" where
  "file_reads content =
     (if content = [] then [] else take kPieceSize content # file_reads (drop kPieceSize content))"
  by pat_completeness auto
termination
  by (relation "measure length") (auto simp: kPieceSize_def)

declare file_reads.simps [simp del]

definition sha1_file_hex :: "openssl \<Rightarrow> filesystem \<Rightarrow> string \<Rightarrow> string" where
  "sha1_file_hex ssl fs path =
     (case fs path of None \<Rightarrow> ''''
      | Some (Unreadable n) \<Rightarrow> ''''
      | Some (Readable content) \<Rightarrow> digest_hex (evp_sha1 ssl) (concat (file_reads content)))"

definition file_size :: "disk_file \<Rightarrow> nat" where
  "file_size f = (case f of Readable content \<Rightarrow> length content | Unreadable n \<Rightarrow> n)"

definition piece_count :: "nat \<Rightarrow> nat" where
  "piece_count filesize = (filesize + kPieceSize - 1) div kPieceSize"

text \<open>The loop over \<open>i < num_pieces\<close>: read a piece, stop at end of file, push its hash.\<close>

fun piece_loop :: "openssl \<Rightarrow> nat \<Rightarrow> string \<Rightarrow> string list" where
  "piece_loop ssl 0 rest = []"
| "piece_loop ssl (Suc k) rest =
     (if rest = [] then []
      else sha1_hex ssl (take kPieceSize rest) # piece_loop ssl k (drop kPieceSize rest))"

definition sha1_file_pieces :: "openssl \<Rightarrow> filesystem \<Rightarrow> string \<Rightarrow> string list \<times> nat" where
  "sha1_file_pieces ssl fs path =
     (case fs path of None \<Rightarrow> ([], 0)
      | Some f \<Rightarrow>
          let num_pieces = piece_count (file_size f) in
          (case f of Unreadable n \<Rightarrow> ([], num_pieces)
           | Readable content \<Rightarrow> (piece_loop ssl num_pieces content, num_pieces)))"

section \<open>Hex text\<close>

lemma length_to_hex: "length (to_hex bs) = 2 * length bs"
  by (induction bs) (simp_all add: to_hex_def)

lemma to_hex_simps [simp]: "to_hex [] = []"
  "to_hex (b # bs) = hex_digits ! unat (drop_bit 4 b) # hex_digits ! unat (b AND 15) # to_hex bs"
  by (simp_all add: to_hex_def)

lemma to_hex_eq_Nil [simp]: "to_hex bs = [] \<longleftrightarrow> bs = []"
  by (cases bs) simp_all

lemma nibble_bounds: "unat (drop_bit 4 b) < 16" "unat (b AND 15) < 16" for b :: "8 word"
proof -
  have "unat b < 2 ^ LENGTH(8)" by (rule unsigned_less)
  then show "unat (drop_bit 4 b) < 16"
    by (simp add: unat_drop_bit_eq drop_bit_eq_div [where 'a = nat])
  show "unat (b AND 15) < 16"
    using word_and_le1 [of b 15] by (simp add: word_le_nat_alt)
qed

lemma hex_digits_nth_inj:
  assumes "i < 16" "j < 16" "hex_digits ! i = hex_digits ! j"
  shows "i = j"
proof -
  have "distinct hex_digits" "length hex_digits = 16" by (simp_all add: hex_digits_def)
  then show ?thesis using assms nth_eq_iff_index_eq [of hex_digits i j] by auto
qed

lemma byte_from_nibbles:
  fixes a b :: "8 word"
  assumes "drop_bit 4 a = drop_bit 4 b" "a AND 15 = b AND 15"
  shows "a = b"
proof -
  have "(15 :: 8 word) = mask 4" by (simp add: mask_eq_decr_exp)
  then have "take_bit 4 a = take_bit 4 b" using assms(2) by (simp add: take_bit_eq_mask)
  then have "push_bit 4 (drop_bit 4 a) + take_bit 4 a = push_bit 4 (drop_bit 4 b) + take_bit 4 b"
    by (simp only: assms(1))
  then show ?thesis by (simp only: bits_ident)
qed

lemma to_hex_inj: "to_hex xs = to_hex ys \<Longrightarrow> xs = ys"
proof (induction xs arbitrary: ys)
  case Nil
  then show ?case by (cases ys) auto
next
  case (Cons x xs)
  then obtain y zs where ys: "ys = y # zs" by (cases ys) auto
  with Cons.prems have "unat (drop_bit 4 x) = unat (drop_bit 4 y)" "unat (x AND 15) = unat (y AND 15)"
    by (auto intro: hex_digits_nth_inj nibble_bounds)
  then have "x = y" by (blast intro: byte_from_nibbles unsigned_word_eqI [where 'a = nat])
  then show ?case using Cons ys by simp
qed

lemma to_hex_chars: "c \<in> set (to_hex bs) \<Longrightarrow> c \<in> set hex_digits"
proof (induction bs)
  case (Cons b bs)
  have "length hex_digits = 16" by (simp add: hex_digits_def)
  then show ?case using Cons nibble_bounds [of b] by auto
qed simp

lemma hex_not_space: "c \<in> set hex_digits \<Longrightarrow> \<not> isspace c"
  by (auto simp: hex_digits_def isspace_def)

lemma to_hex_word: "bs \<noteq> [] \<Longrightarrow> is_word (to_hex bs)"
  by (auto simp: is_word_def dest: to_hex_chars hex_not_space)

lemma digest_hex_word: "digest_hex md data \<noteq> [] \<Longrightarrow> is_word (digest_hex md data)"
  by (auto simp: digest_hex_def split: option.splits intro: to_hex_word)

section \<open>Pieces\<close>

definition piece_at :: "string \<Rightarrow> nat \<Rightarrow> string" where
  "piece_at content i = take kPieceSize (drop (i * kPieceSize) content)"

lemma kPieceSize_pos [simp]: "0 < kPieceSize"
  by (simp add: kPieceSize_def)

lemma concat_file_reads [simp]: "concat (file_reads content) = content"
proof (induction content rule: file_reads.induct)
  case (1 content)
  then show ?case by (subst file_reads.simps) simp
qed

lemma piece_count_0 [simp]: "piece_count 0 = 0"
  by (simp add: piece_count_def)

lemma piece_count_step: "0 < n \<Longrightarrow> piece_count n = Suc (piece_count (n - kPieceSize))"
proof -
  assume n: "0 < n"
  show ?thesis
  proof (cases "n \<le> kPieceSize")
    case True
    then have "(n + kPieceSize - 1) div kPieceSize = 1"
      using n by (intro div_nat_eqI) auto
    then show ?thesis using True by (simp add: piece_count_def)
  next
    case False
    then have "n + kPieceSize - 1 = (n - kPieceSize + kPieceSize - 1) + kPieceSize" by simp
    then have "(n + kPieceSize - 1) div kPieceSize = Suc ((n - kPieceSize + kPieceSize - 1) div kPieceSize)"
      by (metis add_self_div_2 div_add_self2 kPieceSize_pos less_numeral_extra(3) Suc_eq_plus1)
    then show ?thesis by (simp add: piece_count_def)
  qed
qed

lemma piece_loop_pieces:
  "piece_loop ssl (piece_count (length content)) content =
     map (\<lambda>i. sha1_hex ssl (piece_at content i)) [0..<piece_count (length content)]"
proof (induction "piece_count (length content)" arbitrary: content)
  case 0
  then show ?case by simp
next
  case (Suc k)
  then have ne: "content \<noteq> []" by auto
  then have k: "piece_count (length (drop kPieceSize content)) = k"
    using Suc.hyps(2) piece_count_step [of "length content"] by simp
  have tl: "piece_at content (Suc i) = piece_at (drop kPieceSize content) i" for i
    by (simp add: piece_at_def add.commute)
  have "piece_loop ssl (Suc k) content =
      sha1_hex ssl (piece_at content 0) # piece_loop ssl k (drop kPieceSize content)"
    using ne by (simp add: piece_at_def)
  also have "\<dots> = sha1_hex ssl (piece_at content 0) #
      map (\<lambda>i. sha1_hex ssl (piece_at content (Suc i))) [0..<k]"
    using Suc.hyps(1) [of "drop kPieceSize content"] k tl by simp
  also have "\<dots> = map (\<lambda>i. sha1_hex ssl (piece_at content i)) [0..<Suc k]"
    by (simp only: upt_conv_Cons [of 0 "Suc k"] map_Suc_upt [symmetric] map_map comp_def list.map)
  finally show ?case using Suc.hyps(2) by simp
qed

lemma sha1_file_pieces_readable:
  "fs path = Some (Readable content) \<Longrightarrow>
   sha1_file_pieces ssl fs path =
     (map (\<lambda>i. sha1_hex ssl (piece_at content i)) [0..<piece_count (length content)],
      piece_count (length content))"
  by (simp add: sha1_file_pieces_def file_size_def piece_loop_pieces Let_def)

lemma concat_pieces: "concat (map (piece_at content) [0..<piece_count (length content)]) = content"
proof (induction "piece_count (length content)" arbitrary: content)
  case 0
  then have "length content = 0" using piece_count_step [of "length content"] by auto
  then show ?case by simp
next
  case (Suc k)
  then have ne: "content \<noteq> []" by auto
  then have k: "piece_count (length (drop kPieceSize content)) = k"
    using Suc.hyps(2) piece_count_step [of "length content"] by simp
  have tl: "piece_at content (Suc i) = piece_at (drop kPieceSize content) i" for i
    by (simp add: piece_at_def add.commute)
  have "concat (map (piece_at content) [0..<Suc k]) =
      piece_at content 0 @ concat (map (\<lambda>i. piece_at content (Suc i)) [0..<k])"
    by (simp only: upt_conv_Cons [of 0 "Suc k"] map_Suc_upt [symmetric] map_map comp_def list.map concat.simps)
  also have "\<dots> = content"
    using Suc.hyps(1) [of "drop kPieceSize content"] k by (simp add: tl piece_at_def [of content 0])
  finally show ?case using Suc.hyps(2) by simp
qed

lemma piece_count_iff: "p < piece_count n \<longleftrightarrow> p * kPieceSize < n"
proof -
  have k: "0 < kPieceSize" by simp
  have "p < (n + kPieceSize - 1) div kPieceSize \<longleftrightarrow> Suc p * kPieceSize \<le> n + kPieceSize - 1"
    using less_eq_div_iff_mult_less_eq [OF k, of "Suc p" "n + kPieceSize - 1"] by (simp add: Suc_le_eq)
  also have "\<dots> \<longleftrightarrow> p * kPieceSize < n" using k unfolding mult_Suc by arith
  finally show ?thesis by (simp add: piece_count_def)
qed

end
