(* ===== verification/Auth.thy ===== *)
theory Auth imports Hash
begin

text \<open>
  Models \<^verbatim>\<open>src/common/auth.cpp\<close>: random hex strings, salted password hashes and their constant-time
  verification. What one call of OpenSSL's \<open>RAND_bytes\<close> fills a buffer of \<open>n\<close> bytes with is a
  parameter \<open>rand n\<close> (\<open>None\<close> when it fails); its documented behaviour, a buffer filled completely, is
  the predicate \<open>rand_fills\<close>.
\<close>

type_synonym rng = "nat \<Rightarrow> 8 word list option"

definition kSaltBytes :: nat where "kSaltBytes = 16"
definition kTokenBytes :: nat where "kTokenBytes = 32"

definition rand_fills :: "rng \<Rightarrow> bool" where
  "rand_fills rand \<longleftrightarrow> (\<forall>n bs. rand n = Some bs \<longrightarrow> length bs = n)"

record password_hash =
  salt :: string
  pw_hash :: string

definition random_hex :: "rng \<Rightarrow> nat \<Rightarrow> string" where
  "random_hex rand bytes = (case rand bytes of None \<Rightarrow> '''' | Some buf \<Rightarrow> to_hex buf)"

definition hash_password :: "openssl \<Rightarrow> rng \<Rightarrow> string \<Rightarrow> password_hash" where
  "hash_password ssl rand passwd =
     (let s = random_hex rand kSaltBytes in
      if s = [] then \<lparr>salt = s, pw_hash = ''''\<rparr>
      else \<lparr>salt = s, pw_hash = sha256_hex ssl (s @ passwd)\<rparr>)"

text \<open>The comparison loop: \<open>diff |= computed[i] ^ stored[i]\<close> over all positions, on bytes.\<close>

definition byte_of :: "char \<Rightarrow> 8 word" where "byte_of c = of_nat (of_char c :: nat)"

fun diff_loop :: "string \<Rightarrow> string \<Rightarrow> 8 word \<Rightarrow> 8 word" where
  "diff_loop (a # as) (b # bs) diff = diff_loop as bs (diff OR (byte_of a XOR byte_of b))"
| "diff_loop _ _ diff = diff"

definition verify_password :: "openssl \<Rightarrow> string \<Rightarrow> password_hash \<Rightarrow> bool" where
  "verify_password ssl passwd stored =
     (if salt stored = [] \<or> pw_hash stored = [] then False
      else let computed = sha256_hex ssl (salt stored @ passwd) in
        if length computed \<noteq> length (pw_hash stored) then False
        else diff_loop computed (pw_hash stored) 0 = 0)"

section \<open>The constant-time comparison decides equality\<close>

lemma byte_of_inj: "byte_of a = byte_of b \<Longrightarrow> a = b"
proof -
  assume "byte_of a = byte_of b"
  then have "unat (byte_of a) = unat (byte_of b)" by simp
  moreover have "unat (byte_of c) = (of_char c :: nat)" for c
  proof -
    have "(of_char c :: nat) mod 256 = of_char c"
      using of_char_of [of "of_char c :: nat"] by simp
    then show ?thesis by (simp add: byte_of_def unat_of_nat del: of_nat_of_char)
  qed
  ultimately have "(of_char a :: nat) = of_char b" by simp
  then show "a = b" by simp
qed

lemma xor_eq_0: "x XOR y = 0 \<longleftrightarrow> x = y" for x y :: "8 word"
proof
  assume "x XOR y = 0"
  then have "(x XOR y) XOR y = 0 XOR y" by (simp only:)
  then show "x = y" by (simp only: xor.assoc xor_self_eq xor.right_neutral xor.left_neutral)
qed simp

lemma or_eq_0: "x OR y = 0 \<longleftrightarrow> x = 0 \<and> y = 0" for x y :: "8 word"
  by (rule or_eq_0_iff)

lemma diff_loop_0:
  "length as = length bs \<Longrightarrow> diff_loop as bs d = 0 \<longleftrightarrow> d = 0 \<and> as = bs"
proof (induction as bs arbitrary: d rule: list_induct2)
  case (Cons a as b bs)
  have "diff_loop (a # as) (b # bs) d = 0 \<longleftrightarrow> d OR (byte_of a XOR byte_of b) = 0 \<and> as = bs"
    using Cons.IH by simp
  also have "\<dots> \<longleftrightarrow> d = 0 \<and> byte_of a = byte_of b \<and> as = bs"
    by (simp add: or_eq_0 xor_eq_0)
  also have "\<dots> \<longleftrightarrow> d = 0 \<and> a # as = b # bs"
    using byte_of_inj by auto
  finally show ?case .
qed simp

lemma verify_password_iff:
  "verify_password ssl passwd stored \<longleftrightarrow>
     salt stored \<noteq> [] \<and> pw_hash stored \<noteq> [] \<and> sha256_hex ssl (salt stored @ passwd) = pw_hash stored"
  by (auto simp: verify_password_def Let_def diff_loop_0)

lemma random_hex_word: "random_hex rand n \<noteq> [] \<Longrightarrow> is_word (random_hex rand n)"
  by (auto simp: random_hex_def split: option.splits intro: to_hex_word)

lemma random_hex_length:
  "rand_fills rand \<Longrightarrow> random_hex rand n \<noteq> [] \<Longrightarrow> length (random_hex rand n) = 2 * n"
  by (auto simp: random_hex_def rand_fills_def length_to_hex split: option.splits)

lemma hash_password_salt: "salt (hash_password ssl rand pw) = random_hex rand kSaltBytes"
  by (simp add: hash_password_def Let_def)

lemma hash_password_hash:
  "random_hex rand kSaltBytes \<noteq> [] \<Longrightarrow>
   pw_hash (hash_password ssl rand pw) = sha256_hex ssl (random_hex rand kSaltBytes @ pw)"
  by (simp add: hash_password_def Let_def)

lemma hash_password_words:
  assumes "salt (hash_password ssl rand pw) \<noteq> []" "pw_hash (hash_password ssl rand pw) \<noteq> []"
  shows "is_word (salt (hash_password ssl rand pw)) \<and> is_word (pw_hash (hash_password ssl rand pw))"
  using assms random_hex_word digest_hex_word
  by (auto simp: hash_password_def Let_def sha256_hex_def split: if_splits)

text \<open>
  A freshly hashed password verifies, and another one verifies only on a collision of the digest
  under the same salt.
\<close>

lemma verify_hashed_password:
  assumes "salt (hash_password ssl rand pw) \<noteq> []" "pw_hash (hash_password ssl rand pw) \<noteq> []"
  shows "verify_password ssl pw' (hash_password ssl rand pw) \<longleftrightarrow>
    sha256_hex ssl (random_hex rand kSaltBytes @ pw') = sha256_hex ssl (random_hex rand kSaltBytes @ pw)"
  using assms by (simp add: verify_password_iff hash_password_salt hash_password_hash)

end
