(* ===== verification/Session_Manager.thy ===== *)
theory Session_Manager imports Auth
begin

text \<open>
  Models \<^verbatim>\<open>src/tracker/session_manager.cpp\<close>: session tokens and who they authenticate. The manager's
  mutex is held for the whole of each operation, so each is one atomic step on the map. Time is the
  steady clock in seconds, passed in as \<open>now\<close>.
\<close>

definition kSessionTtl :: int where "kSessionTtl = 24 * 60 * 60"

record session_info =
  si_username :: string
  si_ip :: string
  si_port :: string
  expires_at :: int

type_synonym sessions = "session_info umap"

definition session_create ::
  "rng \<Rightarrow> int \<Rightarrow> string \<Rightarrow> string \<Rightarrow> string \<Rightarrow> sessions \<Rightarrow> sessions \<times> string" where
  "session_create rand now user ip port sess =
     (let token = random_hex rand kTokenBytes in
      if token = [] then (sess, '''')
      else (AList.update token
              \<lparr>si_username = user, si_ip = ip, si_port = port, expires_at = now + kSessionTtl\<rparr> sess,
            token))"

definition session_lookup :: "int \<Rightarrow> string \<Rightarrow> sessions \<Rightarrow> sessions \<times> session_info option" where
  "session_lookup now token sess =
     (if token = [] then (sess, None)
      else (case map_of sess token of
          None \<Rightarrow> (sess, None)
        | Some info \<Rightarrow>
            if expires_at info \<le> now then (AList.delete token sess, None)
            else (sess, Some info)))"

definition session_username_for :: "int \<Rightarrow> string \<Rightarrow> sessions \<Rightarrow> sessions \<times> string option" where
  "session_username_for now token sess =
     (case session_lookup now token sess of (sess', r) \<Rightarrow> (sess', map_option si_username r))"

definition session_destroy :: "string \<Rightarrow> sessions \<Rightarrow> sessions \<times> string" where
  "session_destroy token sess =
     (case map_of sess token of
        None \<Rightarrow> (sess, '''')
      | Some info \<Rightarrow> (AList.delete token sess, si_username info))"

definition session_destroy_all_for :: "string \<Rightarrow> sessions \<Rightarrow> sessions" where
  "session_destroy_all_for user sess = filter (\<lambda>(t, info). si_username info \<noteq> user) sess"

section \<open>The contract: who a token authenticates\<close>

definition authenticates :: "sessions \<Rightarrow> int \<Rightarrow> string \<Rightarrow> string option" where
  "authenticates sess now token =
     (if token = [] then None
      else (case map_of sess token of
          None \<Rightarrow> None
        | Some info \<Rightarrow> if expires_at info \<le> now then None else Some (si_username info)))"

text \<open>
  What a session store promises its clients: a lookup answers according to \<open>auth\<close> and never widens
  it, an issued token authenticates its user for the lifetime and nobody else changes, and a revoked
  token authenticates nobody.
\<close>

locale token_store =
  fixes issue :: "'r \<Rightarrow> int \<Rightarrow> string \<Rightarrow> string \<Rightarrow> string \<Rightarrow> 's \<Rightarrow> 's \<times> string"
    and resolve :: "int \<Rightarrow> string \<Rightarrow> 's \<Rightarrow> 's \<times> string option"
    and revoke :: "string \<Rightarrow> 's \<Rightarrow> 's"
    and auth :: "'s \<Rightarrow> int \<Rightarrow> string \<Rightarrow> string option"
    and ttl :: int
  assumes issue_fails: "snd (issue r now user ip port s) = [] \<Longrightarrow> fst (issue r now user ip port s) = s"
    and auth_issue: "snd (issue r now user ip port s) \<noteq> [] \<Longrightarrow>
      auth (fst (issue r now user ip port s)) later t =
      (if t = snd (issue r now user ip port s) then (if later < now + ttl then Some user else None)
       else auth s later t)"
    and resolve_auth: "snd (resolve now token s) = auth s now token"
    and auth_resolve: "now \<le> later \<Longrightarrow> auth (fst (resolve now token s)) later t = auth s later t"
    and auth_revoke: "auth (revoke token s) later t = (if t = token then None else auth s later t)"
    and auth_expires: "now \<le> later \<Longrightarrow> auth s now t = None \<Longrightarrow> auth s later t = None"
begin

text \<open>Lookups between two times do not change who is authenticated later.\<close>

lemma resolve_many:
  "\<forall>(time, tok) \<in> set qs. time \<le> later \<Longrightarrow>
   auth (fold (\<lambda>(time, tok) s. fst (resolve time tok s)) qs s) later t = auth s later t"
  by (induction qs arbitrary: s) (auto simp: auth_resolve)

text \<open>After a revocation the token fails at every time, however many lookups and further
  revocations follow.\<close>

lemma revoked_stays_dead:
  "auth s later t = None \<Longrightarrow> auth (fold revoke toks s) later t = None"
  by (induction toks arbitrary: s) (auto simp: auth_revoke)

lemma resolve_revoked: "snd (resolve now token (revoke token s)) = None"
  by (simp add: resolve_auth auth_revoke)

lemma resolve_issued:
  assumes "issue r now user ip port s = (s', token)" "token \<noteq> []"
  shows "snd (resolve later token s') = (if later < now + ttl then Some user else None)"
  using auth_issue [of r now user ip port s later token] assms by (simp add: resolve_auth)

lemma resolve_other:
  assumes "issue r now user ip port s = (s', token)" "t \<noteq> token"
  shows "snd (resolve later t s') = snd (resolve later t s)"
  using auth_issue [of r now user ip port s later t] issue_fails [of r now user ip port s] assms
  by (cases "token = []") (auto simp: resolve_auth)

end

lemma session_create_token:
  "snd (session_create rand now user ip port sess) = random_hex rand kTokenBytes"
  by (simp add: session_create_def Let_def)

lemma map_of_session_create:
  "random_hex rand kTokenBytes \<noteq> [] \<Longrightarrow>
   map_of (fst (session_create rand now user ip port sess)) =
     (map_of sess)(random_hex rand kTokenBytes \<mapsto>
        \<lparr>si_username = user, si_ip = ip, si_port = port, expires_at = now + kSessionTtl\<rparr>)"
  by (simp add: session_create_def Let_def)

lemma map_of_session_destroy [simp]:
  "map_of (fst (session_destroy token sess)) = (map_of sess)(token := None)"
  by (auto simp: session_destroy_def split: option.splits)

lemma session_lookup_auth: "map_option si_username (snd (session_lookup now token sess)) = authenticates sess now token"
  by (auto simp: session_lookup_def authenticates_def split: option.splits)

lemma auth_session_lookup:
  "now \<le> later \<Longrightarrow> authenticates (fst (session_lookup now token sess)) later t = authenticates sess later t"
  by (auto simp: session_lookup_def authenticates_def split: option.splits)

lemma session_username_for_lookup:
  "fst (session_username_for now token sess) = fst (session_lookup now token sess)"
  "snd (session_username_for now token sess) = map_option si_username (snd (session_lookup now token sess))"
  by (auto simp: session_username_for_def split: prod.splits)

interpretation sm: token_store session_create session_username_for
    "\<lambda>token s. fst (session_destroy token s)" authenticates kSessionTtl
proof unfold_locales
  fix rand now user ip port and s :: sessions and later t
  show "snd (session_create rand now user ip port s) = [] \<Longrightarrow> fst (session_create rand now user ip port s) = s"
    by (simp add: session_create_def Let_def split: if_splits)
  show "snd (session_create rand now user ip port s) \<noteq> [] \<Longrightarrow>
      authenticates (fst (session_create rand now user ip port s)) later t =
        (if t = snd (session_create rand now user ip port s)
         then (if later < now + kSessionTtl then Some user else None) else authenticates s later t)"
    by (auto simp: session_create_token map_of_session_create authenticates_def)
next
  fix now later token t and s :: sessions
  show "snd (session_username_for now token s) = authenticates s now token"
    by (simp add: session_username_for_lookup session_lookup_auth)
  show "now \<le> later \<Longrightarrow>
      authenticates (fst (session_username_for now token s)) later t = authenticates s later t"
    by (simp add: session_username_for_lookup auth_session_lookup)
  show "authenticates (fst (session_destroy token s)) later t =
      (if t = token then None else authenticates s later t)"
    by (simp add: authenticates_def)
  show "now \<le> later \<Longrightarrow> authenticates s now t = None \<Longrightarrow> authenticates s later t = None"
    by (auto simp: authenticates_def split: option.splits if_splits)
qed

lemma session_destroy_all_for_auth:
  assumes "umap_ok sess" "\<forall>u. authenticates sess now t = Some u \<longrightarrow> u \<noteq> user"
  shows "authenticates (session_destroy_all_for user sess) now t = authenticates sess now t"
proof -
  have "map_of (session_destroy_all_for user sess) t =
      (case map_of sess t of None \<Rightarrow> None | Some i \<Rightarrow> if si_username i \<noteq> user then Some i else None)"
    using map_of_filter_values [OF assms(1), of "\<lambda>i. si_username i \<noteq> user"]
    by (simp add: session_destroy_all_for_def)
  then show ?thesis using assms(2) by (auto simp: authenticates_def split: option.splits if_splits)
qed

end
