(* ===== verification/Config.thy ===== *)
theory Config imports Hash
begin

text \<open>
  Models \<^verbatim>\<open>src/common/config.cpp\<close>: the tracker info file, one \<open><ip> <port>\<close> line per tracker.
\<close>

record endpoint =
  ep_ip :: string
  ep_port :: string

fun config_lines :: "string list \<Rightarrow> endpoint list" where
  "config_lines [] = []"
| "config_lines (line # lines) =
     (let t = split_args line in
      if length t < 2 then config_lines lines
      else (case parse_int (t ! 1) of
          None \<Rightarrow> config_lines lines
        | Some port \<Rightarrow>
            if port \<le> 0 \<or> 65535 < port then config_lines lines
            else \<lparr>ep_ip = t ! 0, ep_port = t ! 1\<rparr> # config_lines lines))"

definition load_endpoints :: "filesystem \<Rightarrow> string \<Rightarrow> endpoint list" where
  "load_endpoints fs path =
     (case fs path of None \<Rightarrow> []
      | Some (Unreadable n) \<Rightarrow> []
      | Some (Readable content) \<Rightarrow> config_lines (getlines content))"

definition valid_port :: "string \<Rightarrow> bool" where
  "valid_port p \<longleftrightarrow> (case parse_int p of None \<Rightarrow> False | Some port \<Rightarrow> 0 < port \<and> port \<le> 65535)"

lemma config_lines_valid:
  "e \<in> set (config_lines ls) \<Longrightarrow> is_word (ep_ip e) \<and> is_word (ep_port e) \<and> valid_port (ep_port e)"
proof (induction ls)
  case (Cons l ls)
  let ?t = "split_args l"
  have "2 \<le> length ?t \<Longrightarrow> is_word (?t ! 0) \<and> is_word (?t ! 1)"
    using split_args_nth [of 0 l] split_args_nth [of 1 l] by linarith
  with Cons show ?case
    by (auto simp: Let_def valid_port_def split: if_splits option.splits)
qed simp

lemma load_endpoints_valid:
  "e \<in> set (load_endpoints fs path) \<Longrightarrow> is_word (ep_ip e) \<and> is_word (ep_port e) \<and> valid_port (ep_port e)"
  by (auto simp: load_endpoints_def dest: config_lines_valid split: option.splits disk_file.splits)

text \<open>A well-formed file is read back line by line, in order.\<close>

lemma load_endpoints_lines:
  assumes "\<forall>e \<in> set es. is_word (ep_ip e) \<and> is_word (ep_port e) \<and> valid_port (ep_port e)"
    and "fs path = Some (Readable (unlines (map (\<lambda>e. ep_ip e @ spaced [ep_port e]) es)))"
  shows "load_endpoints fs path = es"
proof -
  let ?line = "\<lambda>e. ep_ip e @ spaced [ep_port e]"
  have "\<forall>l \<in> set (map ?line es). newline \<notin> set l"
    using assms(1) is_word_no_newline by (auto simp: newline_def)
  then have "getlines (unlines (map ?line es)) = map ?line es" by (rule getlines_unlines)
  moreover have "config_lines (map ?line es) = es" using assms(1)
  proof (induction es)
    case (Cons e es)
    have "split_args (?line e) = [ep_ip e, ep_port e]"
      using split_args_command [of "ep_ip e" "[ep_port e]"] Cons.prems by simp
    with Cons show ?case
      by (auto simp: Let_def valid_port_def split: option.splits)
  qed simp
  ultimately show ?thesis using assms(2) by (simp add: load_endpoints_def)
qed

end
