(* ===== verification/Common_Guarantees.thy ===== *)
theory Common_Guarantees imports Socket_IO Session_Manager Config
begin

text \<open>
  What the shared library promises: exact integer parsing, frames that survive any fragmentation, piece
  hashes, password records, session lifetimes and the tracker list.
\<close>

section \<open>Text and frames\<close>

text \<open>
  C24: \<open>parse_ll\<close> accepts exactly the complete signed decimal numbers that fit a \<open>long long\<close>, with
  their value: no whitespace, no trailing characters, no overflow.
\<close>

theorem parse_ll_exact:
  "parse_ll s = Some v \<longleftrightarrow> signed_decimal s v \<and> LLONG_MIN \<le> v \<and> v \<le> LLONG_MAX"
  by (rule parse_ll_Some_iff)

text \<open>
  Whatever the number of messages and however the network cuts the byte stream into pieces, the
  receiver gets exactly the messages that were framed, in order.
\<close>

lemma frames_survive_fragmentation:
  assumes "stream_open s" "concat s = concat (map frame ms) @ rest" "\<forall>m \<in> set ms. length m \<le> kMaxFrameSize"
  shows "recv_many (length ms) kMaxFrameSize s = Some ms"
  using assms by (intro recv_many_frames) (simp_all add: kMaxFrameSize_def)

text \<open>
  C22: A frame cut off before its end, or one that announces more than the maximum size, is refused,
  however its bytes arrive.
\<close>

theorem bad_frames_refused:
  assumes "stream_open s" "length payload < 2 ^ 32"
    and "frame payload = concat s @ missing \<and> missing \<noteq> [] \<and> length payload \<le> kMaxFrameSize \<or>
      concat s = frame payload @ rest \<and> kMaxFrameSize < length payload"
  shows "recv_framed kMaxFrameSize s = None"
  using assms(3)
proof
  assume "frame payload = concat s @ missing \<and> missing \<noteq> [] \<and> length payload \<le> kMaxFrameSize"
  then show ?thesis
    using recv_framed_truncated [OF assms(1), of payload missing kMaxFrameSize] by (simp add: kMaxFrameSize_def)
next
  assume "concat s = frame payload @ rest \<and> kMaxFrameSize < length payload"
  then show ?thesis
    using recv_framed_oversize [OF assms(1) _ _ assms(2), of "payload @ rest" kMaxFrameSize] by (simp add: frame_def)
qed

theorem bad_frames_refused_witness:
  "recv_framed kMaxFrameSize [take 5 (frame ''ab'')] = None"
  by (rule bad_frames_refused [of _ "''ab''" "''b''" "''''"])
    (simp_all add: stream_open_def frame_def be32_def kMaxFrameSize_def)

section \<open>Hashes and passwords\<close>

text \<open>
  For a readable file of any size, the piece hashes are the SHA-1 of consecutive pieces of
  \<open>kPieceSize\<close> bytes, as many as are needed, and the pieces put together are the file.
\<close>

lemma piece_hashes_cover_file:
  assumes "fs path = Some (Readable content)" "sha1_file_pieces ssl fs path = (hashes, n)"
  shows "length hashes = n \<and> n = (length content + kPieceSize - 1) div kPieceSize \<and>
    (\<forall>i < n. hashes ! i = sha1_hex ssl (piece_at content i)) \<and>
    concat (map (piece_at content) [0..<n]) = content"
  using sha1_file_pieces_readable [of fs path content ssl] assms concat_pieces [of content]
  by (auto simp: piece_count_def)

text \<open>
  An account created with a password can log in with it, and a different password is accepted only
  if its digest under the same salt is the same.
\<close>

lemma password_record_verifies:
  assumes "hash_password ssl rand pw = ph" "salt ph \<noteq> []" "pw_hash ph \<noteq> []"
  shows "verify_password ssl pw ph \<and>
    (verify_password ssl pw' ph \<longrightarrow> sha256_hex ssl (salt ph @ pw') = sha256_hex ssl (salt ph @ pw))"
  using verify_hashed_password [of ssl rand pw pw] verify_hashed_password [of ssl rand pw pw'] assms
  by (auto simp: hash_password_salt)

section \<open>Sessions\<close>

text \<open>
  C23: A token that was issued authenticates its user, at every later lookup until the 24 hours are over
  and never after, whatever other lookups happened in between; once it is revoked it never does.
\<close>

theorem token_lifetime:
  assumes "session_create rand now user ip port sess = (sess', token)" "token \<noteq> []"
    and "\<forall>(time, t) \<in> set lookups. time \<le> later"
  shows "snd (session_username_for later token
      (fold (\<lambda>(time, t) s. fst (session_username_for time t s)) lookups sess')) =
      (if later < now + kSessionTtl then Some user else None) \<and>
    snd (session_username_for later token (fst (session_destroy token sess'))) = None"
  using sm.resolve_many [OF assms(3), of sess' token] sm.resolve_issued [OF assms(1,2), of later]
    sm.resolve_revoked [of later token sess']
  by (simp add: sm.resolve_auth)

theorem token_lifetime_witness:
  "snd (session_username_for 5 (replicate 64 CHR ''0'')
     (fst (session_create (\<lambda>n. Some (replicate n 0)) 0 ''alice'' ''ip'' ''7'' []))) = Some ''alice''"
proof -
  let ?c = "session_create (\<lambda>n. Some (replicate n 0)) 0 ''alice'' ''ip'' ''7'' []"
  have t: "snd ?c = replicate 64 CHR ''0''"
    by (simp add: session_create_token random_hex_def kTokenBytes_def to_hex_def hex_digits_def numeral_eq_Suc)
  have "?c = (fst ?c, snd ?c)" by simp
  from token_lifetime [OF this, of "[]" 5] show ?thesis by (simp add: t kSessionTtl_def)
qed

end
