(* ===== verification/Tracker_State.thy ===== *)
theory Tracker_State imports Auth
begin

text \<open>
  Models \<^verbatim>\<open>src/tracker/tracker_state.h\<close> and \<^verbatim>\<open>src/tracker/tracker_state.cpp\<close>: the tracker's users, groups and
  files, and one definition per public method. Every method takes the state lock for its whole body
  (shared for the queries, exclusive for the others), so each is one atomic step: a query is a
  function of the state, any other method returns the new state with its result. \<open>unsigned long long
  version_\<close> is a 64-bit word and wraps.
\<close>

section \<open>Data\<close>

record peer =
  hostip :: string
  hostport :: string
  peername :: string
  password :: password_hash
  connected :: bool

record group =
  group_gid :: string
  groupmaster :: string
  participants :: uset
  applicants :: uset

record file_meta =
  fm_size :: int
  fullhash :: string
  num_pieces :: int
  piece_hashes :: "string list"
  fm_peers :: uset

record tracker_state =
  st_version :: "64 word"
  st_peers :: "peer umap"
  st_groups :: "group umap"
  st_group_files :: "uset umap"
  st_files :: "file_meta umap"

record result =
  res_ok :: bool
  res_msg :: string

definition rejected :: "string \<Rightarrow> result" where "rejected m = \<lparr>res_ok = False, res_msg = m\<rparr>"
definition accepted :: "string \<Rightarrow> result" where "accepted m = \<lparr>res_ok = True, res_msg = m\<rparr>"

lemma result_simps [simp]:
  "res_ok (rejected m) = False" "res_msg (rejected m) = m"
  "res_ok (accepted m) = True" "res_msg (accepted m) = m"
  by (simp_all add: rejected_def accepted_def)

definition empty_state :: tracker_state where
  "empty_state = \<lparr>st_version = 0, st_peers = [], st_groups = [], st_group_files = [], st_files = []\<rparr>"

definition no_credentials :: password_hash where
  "no_credentials = \<lparr>salt = '''', pw_hash = ''''\<rparr>"

definition new_peer :: peer where
  "new_peer = \<lparr>hostip = '''', hostport = '''', peername = '''', password = no_credentials, connected = False\<rparr>"

definition new_group :: group where
  "new_group = \<lparr>group_gid = '''', groupmaster = '''', participants = [], applicants = []\<rparr>"

definition new_file_meta :: file_meta where
  "new_file_meta = \<lparr>fm_size = 0, fullhash = '''', num_pieces = 0, piece_hashes = [], fm_peers = []\<rparr>"

section \<open>Peers and groups\<close>

definition peer_login :: "string \<Rightarrow> string \<Rightarrow> peer \<Rightarrow> peer" where
  "peer_login ip port p = p\<lparr>hostip := ip, hostport := port, connected := True\<rparr>"

definition peer_logout :: "peer \<Rightarrow> peer" where
  "peer_logout p = p\<lparr>connected := False, hostip := '''', hostport := ''''\<rparr>"

definition isapplicant :: "group \<Rightarrow> string \<Rightarrow> bool" where
  "isapplicant g s \<longleftrightarrow> s \<in> set (applicants g)"

definition partofgroup :: "group \<Rightarrow> string \<Rightarrow> bool" where
  "partofgroup g s \<longleftrightarrow> s \<in> set (participants g)"

definition acceptreq :: "string \<Rightarrow> group \<Rightarrow> group" where
  "acceptreq s g = g\<lparr>applicants := uset_erase s (applicants g),
                     participants := uset_insert s (participants g)\<rparr>"

text \<open>\<open>*participants.begin()\<close> is the head of the list: the element the iteration visits first.\<close>

definition deluser :: "string \<Rightarrow> group \<Rightarrow> group" where
  "deluser s g =
     (let g' = g\<lparr>participants := uset_erase s (participants g)\<rparr> in
      if s \<noteq> groupmaster g then g'
      else if participants g' \<noteq> [] then g'\<lparr>groupmaster := hd (participants g')\<rparr>
      else g'\<lparr>groupmaster := ''''\<rparr>)"

section \<open>Files\<close>

definition file_key :: "string \<Rightarrow> string \<Rightarrow> string" where
  "file_key gid fname = gid @ ''/'' @ fname"

definition valid_filename :: "string \<Rightarrow> bool" where
  "valid_filename fname =
     (if fname = '''' \<or> fname = ''.'' \<or> fname = ''..'' then False
      else CHR ''/'' \<notin> set fname \<and> CHR 0x5C \<notin> set fname)"

text \<open>\<open>std::vector<std::string>::resize(n)\<close>: cut, or pad with empty strings.\<close>

definition resize :: "nat \<Rightarrow> string list \<Rightarrow> string list" where
  "resize n xs = take n xs @ replicate (n - length xs) ''''"

section \<open>Lookups\<close>

definition user_exists_locked :: "tracker_state \<Rightarrow> string \<Rightarrow> bool" where
  "user_exists_locked st name \<longleftrightarrow> map_of (st_peers st) name \<noteq> None"

definition group_exists_locked :: "tracker_state \<Rightarrow> string \<Rightarrow> bool" where
  "group_exists_locked st gid \<longleftrightarrow> map_of (st_groups st) gid \<noteq> None"

definition group_has_file_locked :: "tracker_state \<Rightarrow> string \<Rightarrow> string \<Rightarrow> bool" where
  "group_has_file_locked st gid fname \<longleftrightarrow>
     (case map_of (st_group_files st) gid of None \<Rightarrow> False | Some fs \<Rightarrow> fname \<in> set fs)"

definition bump :: "tracker_state \<Rightarrow> tracker_state" where
  "bump st = st\<lparr>st_version := st_version st + 1\<rparr>"

definition put_peer :: "string \<Rightarrow> peer \<Rightarrow> tracker_state \<Rightarrow> tracker_state" where
  "put_peer name p st = st\<lparr>st_peers := AList.update name p (st_peers st)\<rparr>"

definition put_group :: "string \<Rightarrow> group \<Rightarrow> tracker_state \<Rightarrow> tracker_state" where
  "put_group gid g st = st\<lparr>st_groups := AList.update gid g (st_groups st)\<rparr>"

definition put_file :: "string \<Rightarrow> file_meta \<Rightarrow> tracker_state \<Rightarrow> tracker_state" where
  "put_file key fm st = st\<lparr>st_files := AList.update key fm (st_files st)\<rparr>"

definition put_group_files :: "string \<Rightarrow> uset \<Rightarrow> tracker_state \<Rightarrow> tracker_state" where
  "put_group_files gid fs st = st\<lparr>st_group_files := AList.update gid fs (st_group_files st)\<rparr>"

text \<open>\<open>map[key]\<close>, which default-constructs a missing entry.\<close>

definition index_or :: "'v \<Rightarrow> 'v umap \<Rightarrow> string \<Rightarrow> 'v" where
  "index_or d m k = (case map_of m k of None \<Rightarrow> d | Some v \<Rightarrow> v)"

section \<open>Accounts\<close>

definition create_user ::
  "openssl \<Rightarrow> rng \<Rightarrow> string \<Rightarrow> string \<Rightarrow> tracker_state \<Rightarrow> tracker_state \<times> result" where
  "create_user ssl rand username passcode st =
     (if user_exists_locked st username
      then (st, rejected ''-----Cannot create user: ID already in use.-----'')
      else
        let ph = hash_password ssl rand passcode in
        if salt ph = [] \<or> pw_hash ph = []
        then (st, rejected ''-----Cannot create user: server entropy unavailable-----'')
        else (bump (put_peer username (new_peer\<lparr>peername := username, password := ph\<rparr>) st),
              accepted (''***** ID number '' @ username @ '' registered successfully! ******'')))"

definition login ::
  "openssl \<Rightarrow> string \<Rightarrow> string \<Rightarrow> string \<Rightarrow> string \<Rightarrow> tracker_state \<Rightarrow> tracker_state \<times> result" where
  "login ssl username passcode ip port st =
     (case map_of (st_peers st) username of
        None \<Rightarrow> (st, rejected (''------ User ID '' @ username @ '' is not registered ------''))
      | Some p \<Rightarrow>
          if \<not> verify_password ssl passcode (password p)
          then (st, rejected (''------ Authentication failed: incorrect passcode for ID '' @
                              username @ '' ------''))
          else (bump (put_peer username (peer_login ip port p) st),
                accepted (''Successful Login for User ID '' @ username @ ''! ******'' @ [newline])))"

definition logout :: "string \<Rightarrow> tracker_state \<Rightarrow> tracker_state \<times> result" where
  "logout username st =
     (case map_of (st_peers st) username of
        None \<Rightarrow> (st, rejected (''------- No such User ID: '' @ username @ '' ------''))
      | Some p \<Rightarrow>
          (bump (put_peer username (peer_logout p) st),
           accepted (''***** User ID '' @ username @ '' logged out successfully ******'')))"

definition handle_disconnect :: "string \<Rightarrow> tracker_state \<Rightarrow> tracker_state" where
  "handle_disconnect username st =
     (if username = [] then st
      else (case map_of (st_peers st) username of
          None \<Rightarrow> st
        | Some p \<Rightarrow> bump (put_peer username (peer_logout p) st)))"

section \<open>Groups\<close>

definition create_group :: "string \<Rightarrow> string \<Rightarrow> tracker_state \<Rightarrow> tracker_state \<times> result" where
  "create_group gid owner st =
     (if \<not> user_exists_locked st owner
      then (st, rejected (''------- No such User ID: '' @ owner @ '' ------''))
      else if group_exists_locked st gid
      then (st, rejected ''------- This Group ID is already taken ------'')
      else (bump (put_group gid
              (new_group\<lparr>group_gid := gid, groupmaster := owner,
                         participants := uset_insert owner []\<rparr>) st),
            accepted (''******* Group creation successful. Assigned ID: '' @ gid @ '' *******'')))"

definition join_group :: "string \<Rightarrow> string \<Rightarrow> tracker_state \<Rightarrow> tracker_state \<times> result" where
  "join_group gid username st =
     (if \<not> user_exists_locked st username
      then (st, rejected (''------- No such User ID: '' @ username @ '' ------''))
      else (case map_of (st_groups st) gid of
          None \<Rightarrow> (st, rejected (''------- No such group ID: '' @ gid @ '' ------''))
        | Some g \<Rightarrow>
            if partofgroup g username
            then (st, rejected (''------- You have already joined this group: '' @ gid @ '' -------''))
            else (bump (put_group gid (g\<lparr>applicants := uset_insert username (applicants g)\<rparr>) st),
                  accepted (''******* Request to join group '' @ gid @ '' has been sent ******''))))"

definition leave_group :: "string \<Rightarrow> string \<Rightarrow> tracker_state \<Rightarrow> tracker_state \<times> result" where
  "leave_group gid username st =
     (if \<not> user_exists_locked st username
      then (st, rejected (''------- No such User ID: '' @ username @ '' ------''))
      else (case map_of (st_groups st) gid of
          None \<Rightarrow> (st, rejected (''------- No such group ID: '' @ gid @ '' ------''))
        | Some g \<Rightarrow>
            if \<not> partofgroup g username
            then (st, rejected (''------ Access denied. You are not part of Group ID '' @ gid @ '' -------''))
            else (bump (put_group gid (deluser username g) st),
                  accepted (''****** Left group successfully. ID: '' @ gid @ '' ******''))))"

definition list_requests :: "string \<Rightarrow> string \<Rightarrow> tracker_state \<Rightarrow> result" where
  "list_requests gid owner st =
     (if \<not> user_exists_locked st owner
      then rejected (''------- No such User ID: '' @ owner @ '' ------'')
      else (case map_of (st_groups st) gid of
          None \<Rightarrow> rejected (''------- No such group ID: '' @ gid @ '' ------'')
        | Some g \<Rightarrow>
            if groupmaster g \<noteq> owner
            then rejected (''------ Access denied. You are not the group owner of ID '' @ gid @ '' -------'')
            else
              let msg = concat (map (\<lambda>user. user @ [newline]) (applicants g)) in
              accepted (if msg = [] then ''------- Group ID '' @ gid @ '' has no pending join requests -------''
                        else msg)))"

definition accept_request ::
  "string \<Rightarrow> string \<Rightarrow> string \<Rightarrow> tracker_state \<Rightarrow> tracker_state \<times> result" where
  "accept_request gid applicant owner st =
     (if \<not> user_exists_locked st applicant
      then (st, rejected (''------- No such User ID: '' @ applicant @ '' ------''))
      else (case map_of (st_groups st) gid of
          None \<Rightarrow> (st, rejected (''------- No such group ID: '' @ gid @ '' ------''))
        | Some g \<Rightarrow>
            if groupmaster g \<noteq> owner
            then (st, rejected (''------ Access denied. You are not the group owner of ID '' @ gid @ '' -------''))
            else if \<not> isapplicant g applicant
            then (st, rejected (''------- This user (ID: '' @ applicant @ '') has no pending requests -------''))
            else (bump (put_group gid (acceptreq applicant g) st),
                  accepted (''******* Approval granted for User ID: '' @ applicant @ '' *******''))))"

definition reject_request ::
  "string \<Rightarrow> string \<Rightarrow> string \<Rightarrow> tracker_state \<Rightarrow> tracker_state \<times> result" where
  "reject_request gid applicant owner st =
     (if \<not> user_exists_locked st applicant
      then (st, rejected (''------- No such User ID: '' @ applicant @ '' ------''))
      else (case map_of (st_groups st) gid of
          None \<Rightarrow> (st, rejected (''------- No such group ID: '' @ gid @ '' ------''))
        | Some g \<Rightarrow>
            if groupmaster g \<noteq> owner
            then (st, rejected (''------ Access denied. You are not the group owner of ID '' @ gid @ '' -------''))
            else if \<not> isapplicant g applicant
            then (st, rejected (''------- This user (ID: '' @ applicant @ '') has no pending requests -------''))
            else (bump (put_group gid (g\<lparr>applicants := uset_erase applicant (applicants g)\<rparr>) st),
                  accepted (''******* Request rejected for User ID: '' @ applicant @ '' *******''))))"

definition list_groups :: "tracker_state \<Rightarrow> result" where
  "list_groups st =
     accepted (''############### Available groups on the network ###############'' @
       concat (map (\<lambda>(gid, g). newline # gid) (st_groups st)))"

section \<open>Shared files\<close>

text \<open>
  \<open>resize\<close> is called with a piece count the dispatcher has checked to be non-negative.
\<close>

definition upload_file ::
  "string \<Rightarrow> string \<Rightarrow> string \<Rightarrow> int \<Rightarrow> string \<Rightarrow> int \<Rightarrow> string list \<Rightarrow>
   tracker_state \<Rightarrow> tracker_state \<times> result" where
  "upload_file gid fname uname fsize full_hash pieces hashes st =
     (case map_of (st_groups st) gid of
        None \<Rightarrow> (st, rejected (''------- No such group ID: '' @ gid @ '' ------''))
      | Some g \<Rightarrow>
          if \<not> user_exists_locked st uname \<or> \<not> partofgroup g uname
          then (st, rejected (''------ You are not part of Group ID '' @ gid @ '' -------''))
          else if \<not> valid_filename fname
          then (st, rejected (''------- Invalid filename: '' @ fname @ '' -------''))
          else
            let fm = index_or new_file_meta (st_files st) (file_key gid fname);
                fm' = fm\<lparr>fm_size := fsize, fullhash := full_hash, num_pieces := pieces,
                         piece_hashes := resize (nat pieces) hashes,
                         fm_peers := uset_insert uname (fm_peers fm)\<rparr>;
                fs = index_or [] (st_group_files st) gid
            in (bump (put_group_files gid (uset_insert fname fs) (put_file (file_key gid fname) fm' st)),
                accepted (''******* File '' @ fname @ '' uploaded to group '' @ gid @ '' successfully *******'')))"

definition file_line :: "tracker_state \<Rightarrow> string \<Rightarrow> string \<Rightarrow> string" where
  "file_line st gid fname =
     (case map_of (st_files st) (file_key gid fname) of
        None \<Rightarrow> ''''
      | Some fm \<Rightarrow> fname @ '' SIZE:'' @ to_string (fm_size fm) @ '' PIECES:'' @
                   to_string (num_pieces fm) @ [newline])"

definition list_files :: "string \<Rightarrow> string \<Rightarrow> tracker_state \<Rightarrow> result" where
  "list_files gid uname st =
     (case map_of (st_groups st) gid of
        None \<Rightarrow> rejected (''------- No such group ID: '' @ gid @ '' ------'')
      | Some g \<Rightarrow>
          if \<not> user_exists_locked st uname \<or> \<not> partofgroup g uname
          then rejected (''------ Access denied. You are not part of Group ID '' @ gid @ '' -------'')
          else (case map_of (st_group_files st) gid of
              None \<Rightarrow> accepted (''------- No files uploaded in group '' @ gid @ '' -------'')
            | Some fs \<Rightarrow>
                if fs = [] then accepted (''------- No files uploaded in group '' @ gid @ '' -------'')
                else accepted (''######## Files in Group '' @ gid @ '' ########'' @ [newline] @
                       concat (map (file_line st gid) fs))))"

definition peer_line :: "tracker_state \<Rightarrow> string \<Rightarrow> string" where
  "peer_line st name =
     (case map_of (st_peers st) name of
        None \<Rightarrow> ''''
      | Some p \<Rightarrow>
          if connected p then name @ '' '' @ hostip p @ '' '' @ hostport p @ [newline] else '''')"

definition download_reply :: "tracker_state \<Rightarrow> string \<Rightarrow> file_meta \<Rightarrow> string" where
  "download_reply st fname fm =
     ''FILE '' @ fname @ '' SIZE '' @ to_string (fm_size fm) @ '' HASH '' @ fullhash fm @
     '' PIECES '' @ to_string (num_pieces fm) @ '' PIECE_HASHES'' @ spaced (piece_hashes fm) @
     [newline] @ ''PEERS'' @ [newline] @ concat (map (peer_line st) (fm_peers fm)) @ [newline]"

definition download_file :: "string \<Rightarrow> string \<Rightarrow> string \<Rightarrow> tracker_state \<Rightarrow> result" where
  "download_file gid fname uname st =
     (case map_of (st_groups st) gid of
        None \<Rightarrow> rejected (''------- No such group ID: '' @ gid @ '' ------'')
      | Some g \<Rightarrow>
          if \<not> user_exists_locked st uname \<or> \<not> partofgroup g uname
          then rejected (''------ Access denied. You are not part of Group ID '' @ gid @ '' -------'')
          else if \<not> group_has_file_locked st gid fname
          then rejected (''------- No such file in group '' @ gid @ '' -------'')
          else (case map_of (st_files st) (file_key gid fname) of
              None \<Rightarrow> rejected (''------- No such file in group '' @ gid @ '' -------'')
            | Some fm \<Rightarrow> accepted (download_reply st fname fm)))"

definition file_downloaded ::
  "string \<Rightarrow> string \<Rightarrow> string \<Rightarrow> tracker_state \<Rightarrow> tracker_state \<times> result" where
  "file_downloaded gid fname peer st =
     (case map_of (st_groups st) gid of
        None \<Rightarrow> (st, rejected ''ERROR: Group not found or peer not member'')
      | Some g \<Rightarrow>
          if \<not> partofgroup g peer
          then (st, rejected ''ERROR: Group not found or peer not member'')
          else if \<not> group_has_file_locked st gid fname
          then (st, rejected ''ERROR: File not found in group'')
          else if \<not> user_exists_locked st peer
          then (st, rejected ''ERROR: Peer not found'')
          else
            let st' = (case map_of (st_files st) (file_key gid fname) of
                         None \<Rightarrow> st
                       | Some fm \<Rightarrow> put_file (file_key gid fname)
                                     (fm\<lparr>fm_peers := uset_insert peer (fm_peers fm)\<rparr>) st)
            in (bump st', accepted (''SUCCESS: Peer '' @ peer @ '' registered as seeder for '' @ fname)))"

definition stop_share ::
  "string \<Rightarrow> string \<Rightarrow> string \<Rightarrow> tracker_state \<Rightarrow> tracker_state \<times> result" where
  "stop_share gid fname peer st =
     (case map_of (st_groups st) gid of
        None \<Rightarrow> (st, rejected ''ERROR: Group not found'')
      | Some g \<Rightarrow>
          if \<not> user_exists_locked st peer \<or> \<not> partofgroup g peer
          then (st, rejected ''ERROR: Peer not found or not member of group'')
          else if \<not> group_has_file_locked st gid fname
          then (st, rejected ''ERROR: File not found in group'')
          else (case map_of (st_files st) (file_key gid fname) of
              None \<Rightarrow> (st, rejected ''ERROR: File metadata not found'')
            | Some fm \<Rightarrow>
                (bump (put_file (file_key gid fname)
                   (fm\<lparr>fm_peers := uset_erase peer (fm_peers fm)\<rparr>) st),
                 accepted (''SUCCESS: Peer '' @ peer @ '' stopped sharing '' @ fname @
                           '' in group '' @ gid))))"

end
