(* ===== verification/Tracker_Policy.thy ===== *)
theory Tracker_Policy imports Tracker_State
begin

text \<open>
  The abstract specification of \<open>TrackerState\<close> and the proof that its methods implement it. The
  abstract state is a set of facts: who is registered, which groups exist, who owns, belongs to or has
  applied to a group, which files are listed in a group and who seeds them. \<open>policy_step\<close> says which
  operation is allowed in which abstract state and what it may change. Two more policies are about what the facts
  leave out: \<open>account_policy\<close> about password digests and who is online where, \<open>metadata_policy\<close> about the sizes and
  hashes of files. \<open>run_op\<close> is the concrete method.
\<close>

section \<open>Facts\<close>

datatype fact =
    User string
  | Grp string
  | Owned string
  | Owner string string
  | Member string string
  | Applicant string string
  | File string
  | Seeder string string
  | Listed string string

fun holds :: "tracker_state \<Rightarrow> fact \<Rightarrow> bool" where
  "holds st (User u) = user_exists_locked st u"
| "holds st (Grp g) = group_exists_locked st g"
| "holds st (Owned g) =
     (case map_of (st_groups st) g of None \<Rightarrow> False | Some gr \<Rightarrow> groupmaster gr \<noteq> [])"
| "holds st (Owner g u) =
     (case map_of (st_groups st) g of None \<Rightarrow> False | Some gr \<Rightarrow> groupmaster gr = u \<and> u \<noteq> [])"
| "holds st (Member g u) =
     (case map_of (st_groups st) g of None \<Rightarrow> False | Some gr \<Rightarrow> partofgroup gr u)"
| "holds st (Applicant g u) =
     (case map_of (st_groups st) g of None \<Rightarrow> False | Some gr \<Rightarrow> isapplicant gr u)"
| "holds st (File k) = (map_of (st_files st) k \<noteq> None)"
| "holds st (Seeder k u) =
     (case map_of (st_files st) k of None \<Rightarrow> False | Some fm \<Rightarrow> u \<in> set (fm_peers fm))"
| "holds st (Listed g f) = group_has_file_locked st g f"

definition facts :: "tracker_state \<Rightarrow> fact set" where
  "facts st = {f. holds st f}"

lemma in_facts [simp]: "f \<in> facts st \<longleftrightarrow> holds st f"
  by (simp add: facts_def)

lemma facts_eqI: "(\<And>f. holds st f \<longleftrightarrow> f \<in> F) \<Longrightarrow> facts st = F"
  by (auto simp: facts_def)

lemma seeders_index_or:
  "v \<in> set (fm_peers (index_or new_file_meta (st_files st) k)) \<longleftrightarrow> holds st (Seeder k v)"
  by (simp add: index_or_def new_file_meta_def split: option.splits)

lemma listing_index_or: "x \<in> set (index_or [] (st_group_files st) g) \<longleftrightarrow> holds st (Listed g x)"
  by (simp add: index_or_def group_has_file_locked_def split: option.splits)

section \<open>Well-formed states\<close>

definition wf_peers :: "tracker_state \<Rightarrow> bool" where
  "wf_peers st \<longleftrightarrow> umap_ok (st_peers st) \<and>
     (\<forall>n p. map_of (st_peers st) n = Some p \<longrightarrow>
        n \<noteq> [] \<and> peername p = n \<and> salt (password p) \<noteq> [] \<and> pw_hash (password p) \<noteq> [])"

definition wf_group :: "(string \<Rightarrow> bool) \<Rightarrow> string \<Rightarrow> group \<Rightarrow> bool" where
  "wf_group registered gid g \<longleftrightarrow>
     group_gid g = gid \<and> distinct (participants g) \<and> distinct (applicants g) \<and>
     (\<forall>u \<in> set (participants g) \<union> set (applicants g). registered u) \<and>
     (if participants g = [] then groupmaster g = [] else groupmaster g \<in> set (participants g))"

definition wf_groups :: "tracker_state \<Rightarrow> bool" where
  "wf_groups st \<longleftrightarrow> umap_ok (st_groups st) \<and>
     (\<forall>gid g. map_of (st_groups st) gid = Some g \<longrightarrow> wf_group (user_exists_locked st) gid g)"

definition wf_file :: "(string \<Rightarrow> bool) \<Rightarrow> file_meta \<Rightarrow> bool" where
  "wf_file registered fm \<longleftrightarrow>
     0 \<le> fm_size fm \<and> num_pieces fm = int (length (piece_hashes fm)) \<and> distinct (fm_peers fm) \<and>
     (\<forall>u \<in> set (fm_peers fm). registered u)"

definition wf_files :: "tracker_state \<Rightarrow> bool" where
  "wf_files st \<longleftrightarrow> umap_ok (st_files st) \<and>
     (\<forall>k fm. map_of (st_files st) k = Some fm \<longrightarrow> wf_file (user_exists_locked st) fm)"

definition wf_listing :: "tracker_state \<Rightarrow> bool" where
  "wf_listing st \<longleftrightarrow> umap_ok (st_group_files st) \<and>
     (\<forall>gid fs. map_of (st_group_files st) gid = Some fs \<longrightarrow>
        distinct fs \<and> group_exists_locked st gid \<and>
        (\<forall>f \<in> set fs. valid_filename f \<and> map_of (st_files st) (file_key gid f) \<noteq> None))"

definition wf_state :: "tracker_state \<Rightarrow> bool" where
  "wf_state st \<longleftrightarrow> wf_peers st \<and> wf_groups st \<and> wf_files st \<and> wf_listing st"

lemmas wf_defs = wf_state_def wf_peers_def wf_groups_def wf_group_def wf_files_def wf_file_def
  wf_listing_def

lemmas put_defs = bump_def put_peer_def put_group_def put_file_def put_group_files_def

lemmas lookup_defs = user_exists_locked_def group_exists_locked_def group_has_file_locked_def

lemma put_frame [simp]:
  "st_groups (put_peer n p st) = st_groups st" "st_files (put_peer n p st) = st_files st"
  "st_group_files (put_peer n p st) = st_group_files st"
  "st_peers (put_group g gr st) = st_peers st" "st_files (put_group g gr st) = st_files st"
  "st_group_files (put_group g gr st) = st_group_files st"
  "st_peers (put_file k fm st) = st_peers st" "st_groups (put_file k fm st) = st_groups st"
  "st_group_files (put_file k fm st) = st_group_files st"
  "st_peers (put_group_files g fs st) = st_peers st" "st_groups (put_group_files g fs st) = st_groups st"
  "st_files (put_group_files g fs st) = st_files st"
  "st_peers (bump st) = st_peers st" "st_groups (bump st) = st_groups st"
  "st_files (bump st) = st_files st" "st_group_files (bump st) = st_group_files st"
  by (simp_all add: put_defs)

lemma put_lookup [simp]:
  "st_peers (put_peer n p st) = AList.update n p (st_peers st)"
  "st_groups (put_group g gr st) = AList.update g gr (st_groups st)"
  "st_files (put_file k fm st) = AList.update k fm (st_files st)"
  "st_group_files (put_group_files g fs st) = AList.update g fs (st_group_files st)"
  by (simp_all add: put_defs)

lemma wf_empty_state: "wf_state empty_state"
  by (simp add: wf_defs empty_state_def)

lemma exists_put [simp]:
  "user_exists_locked (put_peer n p st) u \<longleftrightarrow> u = n \<or> user_exists_locked st u"
  "user_exists_locked (put_group g gr st) = user_exists_locked st"
  "user_exists_locked (put_file k fm st) = user_exists_locked st"
  "user_exists_locked (put_group_files g fs st) = user_exists_locked st"
  "user_exists_locked (bump st) = user_exists_locked st"
  "group_exists_locked (put_peer n p st) = group_exists_locked st"
  "group_exists_locked (put_group g gr st) h \<longleftrightarrow> h = g \<or> group_exists_locked st h"
  "group_exists_locked (put_file k fm st) = group_exists_locked st"
  "group_exists_locked (put_group_files g fs st) = group_exists_locked st"
  "group_exists_locked (bump st) = group_exists_locked st"
  by (auto simp: fun_eq_iff user_exists_locked_def group_exists_locked_def)

lemma wf_group_mono: "wf_group U gid g \<Longrightarrow> (\<And>u. U u \<Longrightarrow> V u) \<Longrightarrow> wf_group V gid g"
  by (auto simp: wf_group_def)

lemma wf_file_mono: "wf_file U fm \<Longrightarrow> (\<And>u. U u \<Longrightarrow> V u) \<Longrightarrow> wf_file V fm"
  by (auto simp: wf_file_def)

lemma wf_parts_frame [simp]:
  "wf_peers (put_group g gr st) = wf_peers st" "wf_peers (put_file k fm st) = wf_peers st"
  "wf_peers (put_group_files g fs st) = wf_peers st" "wf_peers (bump st) = wf_peers st"
  "wf_groups (put_file k fm st) = wf_groups st" "wf_groups (put_group_files g fs st) = wf_groups st"
  "wf_groups (bump st) = wf_groups st"
  "wf_files (put_group g gr st) = wf_files st" "wf_files (put_group_files g fs st) = wf_files st"
  "wf_files (bump st) = wf_files st"
  "wf_listing (put_peer n p st) = wf_listing st" "wf_listing (bump st) = wf_listing st"
  by (simp_all add: wf_peers_def wf_groups_def wf_files_def wf_listing_def)

lemma wf_bump [simp]: "wf_state (bump st) = wf_state st"
  by (simp add: wf_state_def)

text \<open>Each kind of write keeps the state well-formed when what is written is.\<close>

lemma wf_put_peer [wf_intros]:
  assumes "wf_state st" "n \<noteq> []" "peername p = n"
    and "salt (password p) \<noteq> []" "pw_hash (password p) \<noteq> []"
  shows "wf_state (put_peer n p st)"
proof -
  have "wf_peers (put_peer n p st)" using assms by (simp add: wf_state_def wf_peers_def)
  moreover have "wf_groups (put_peer n p st)"
    using assms(1) by (auto simp: wf_state_def wf_groups_def intro: wf_group_mono [of "user_exists_locked st"])
  moreover have "wf_files (put_peer n p st)"
    using assms(1) by (auto simp: wf_state_def wf_files_def intro: wf_file_mono [of "user_exists_locked st"])
  ultimately show ?thesis using assms(1) by (simp add: wf_state_def)
qed

lemma wf_put_group [wf_intros]:
  assumes "wf_state st" "wf_group (user_exists_locked st) gid g"
  shows "wf_state (put_group gid g st)"
  using assms by (auto simp: wf_state_def wf_groups_def wf_listing_def)

lemma wf_put_file [wf_intros]:
  assumes "wf_state st" "wf_file (user_exists_locked st) fm"
  shows "wf_state (put_file k fm st)"
  using assms by (auto simp: wf_state_def wf_files_def wf_listing_def)

lemma wf_put_group_files [wf_intros]:
  assumes "wf_state st" "distinct fs" "group_exists_locked st gid"
    and "\<forall>f \<in> set fs. valid_filename f \<and> map_of (st_files st) (file_key gid f) \<noteq> None"
  shows "wf_state (put_group_files gid fs st)"
  using assms by (simp add: wf_state_def wf_listing_def)

lemma wf_group_of: "wf_state st \<Longrightarrow> map_of (st_groups st) gid = Some g \<Longrightarrow> wf_group (user_exists_locked st) gid g"
  by (simp add: wf_state_def wf_groups_def)

lemma wf_file_of: "wf_state st \<Longrightarrow> map_of (st_files st) k = Some fm \<Longrightarrow> wf_file (user_exists_locked st) fm"
  by (simp add: wf_state_def wf_files_def)

lemma wf_group_deluser:
  assumes "wf_group U gid g"
  shows "wf_group U gid (deluser u g)"
proof -
  let ?ps = "uset_erase u (participants g)"
  have "u \<noteq> groupmaster g \<Longrightarrow> participants g \<noteq> [] \<Longrightarrow> groupmaster g \<in> set ?ps"
    using assms by (simp add: wf_group_def)
  moreover have "?ps \<noteq> [] \<Longrightarrow> hd ?ps \<in> set (participants g) \<and> hd ?ps \<noteq> u"
    using hd_in_set [of ?ps] by simp
  moreover have "participants g = [] \<Longrightarrow> ?ps = []" by (simp add: uset_erase_def)
  ultimately show ?thesis
    using assms by (cases "?ps = []") (auto simp: wf_group_def deluser_def Let_def split: if_splits)
qed

lemma wf_group_acceptreq:
  assumes "wf_group U gid g" "isapplicant g u" "groupmaster g \<noteq> []"
  shows "wf_group U gid (acceptreq u g)"
  using assms by (auto simp: wf_group_def acceptreq_def isapplicant_def split: if_splits)

lemma wf_group_applicants:
  "wf_group U gid g \<Longrightarrow> distinct as \<Longrightarrow> \<forall>u \<in> set as. U u \<Longrightarrow> wf_group U gid (g\<lparr>applicants := as\<rparr>)"
  by (auto simp: wf_group_def)

lemma wf_group_members:
  "wf_group U gid g \<Longrightarrow> distinct (participants g) \<and> distinct (applicants g) \<and>
   (\<forall>u \<in> set (participants g). U u) \<and> (\<forall>u \<in> set (applicants g). U u)"
  by (auto simp: wf_group_def)

lemma wf_file_seeders:
  "wf_file U fm \<Longrightarrow> distinct ps \<Longrightarrow> \<forall>u \<in> set ps. U u \<Longrightarrow> wf_file U (fm\<lparr>fm_peers := ps\<rparr>)"
  by (simp add: wf_file_def)

lemma wf_file_peers: "wf_file U fm \<Longrightarrow> distinct (fm_peers fm) \<and> (\<forall>u \<in> set (fm_peers fm). U u)"
  by (simp add: wf_file_def)

section \<open>Operations\<close>

text \<open>One constructor per public method that changes the state.\<close>

datatype tracker_op =
    CreateUser string string
  | Login string string string string
  | Logout string
  | Disconnect string
  | CreateGroup string string
  | JoinGroup string string
  | LeaveGroup string string
  | AcceptRequest string string string
  | RejectRequest string string string
  | UploadFile string string string int string int "string list"
  | FileDownloaded string string string
  | StopShare string string string

fun run_op :: "openssl \<Rightarrow> rng \<Rightarrow> tracker_op \<Rightarrow> tracker_state \<Rightarrow> tracker_state \<times> result" where
  "run_op ssl rand (CreateUser u pw) st = create_user ssl rand u pw st"
| "run_op ssl rand (Login u pw ip port) st = login ssl u pw ip port st"
| "run_op ssl rand (Logout u) st = logout u st"
| "run_op ssl rand (Disconnect u) st = (handle_disconnect u st, accepted '''')"
| "run_op ssl rand (CreateGroup g u) st = create_group g u st"
| "run_op ssl rand (JoinGroup g u) st = join_group g u st"
| "run_op ssl rand (LeaveGroup g u) st = leave_group g u st"
| "run_op ssl rand (AcceptRequest g a u) st = accept_request g a u st"
| "run_op ssl rand (RejectRequest g a u) st = reject_request g a u st"
| "run_op ssl rand (UploadFile g f u n h k hs) st = upload_file g f u n h k hs st"
| "run_op ssl rand (FileDownloaded g f u) st = file_downloaded g f u st"
| "run_op ssl rand (StopShare g f u) st = stop_share g f u st"

text \<open>
  What the dispatcher has checked before it calls a method: names are not empty, and an upload has a
  non-negative size and as many hashes as it declares.
\<close>

fun op_checked :: "tracker_op \<Rightarrow> bool" where
  "op_checked (CreateUser u pw) = (u \<noteq> [])"
| "op_checked (CreateGroup g u) = (u \<noteq> [])"
| "op_checked (AcceptRequest g a u) = (u \<noteq> [])"
| "op_checked (RejectRequest g a u) = (u \<noteq> [])"
| "op_checked (UploadFile g f u n h k hs) = (0 \<le> n \<and> k = int (length hs))"
| "op_checked op = True"

lemmas op_defs = create_user_def login_def logout_def handle_disconnect_def create_group_def
  join_group_def leave_group_def accept_request_def reject_request_def upload_file_def
  file_downloaded_def stop_share_def

lemma resize_same [simp]: "resize (length hs) hs = hs"
  by (simp add: resize_def)

text \<open>A rejected command changes nothing.\<close>

lemma rejected_unchanged: "\<not> res_ok (snd (run_op ssl rand op st)) \<Longrightarrow> fst (run_op ssl rand op st) = st"
  by (cases op) (auto simp: op_defs Let_def split: option.splits if_splits)

text \<open>A command that succeeds advances the version by one.\<close>

lemma accepted_bumps:
  assumes "\<forall>u. op \<noteq> Disconnect u" "res_ok (snd (run_op ssl rand op st))"
  shows "st_version (fst (run_op ssl rand op st)) = st_version st + 1"
  using assms by (cases op) (auto simp: op_defs put_defs Let_def split: option.splits if_splits)

lemma wf_upload:
  assumes wf: "wf_state st" and ok: "0 \<le> n" "k = int (length hs)"
  shows "wf_state (fst (upload_file g f u n h k hs st))"
proof (cases "res_ok (snd (upload_file g f u n h k hs st))")
  case False
  then show ?thesis using wf rejected_unchanged [of undefined undefined "UploadFile g f u n h k hs" st] by simp
next
  case True
  then obtain gr where g: "map_of (st_groups st) g = Some gr" and u: "user_exists_locked st u"
    and f: "valid_filename f"
    by (auto simp: upload_file_def split: option.splits if_splits)
  define fm where "fm = index_or new_file_meta (st_files st) (file_key g f)"
  define fm' where "fm' = fm\<lparr>fm_size := n, fullhash := h, num_pieces := k, piece_hashes := resize (nat k) hs,
      fm_peers := uset_insert u (fm_peers fm)\<rparr>"
  define fs where "fs = index_or [] (st_group_files st) g"
  have "distinct (fm_peers fm) \<and> (\<forall>v\<in>set (fm_peers fm). user_exists_locked st v)"
    using wf_file_of [OF wf] by (auto simp: fm_def index_or_def new_file_meta_def wf_file_def split: option.splits)
  then have "wf_file (user_exists_locked st) fm'" using ok u by (simp add: wf_file_def fm'_def)
  with wf have wf': "wf_state (put_file (file_key g f) fm' st)" by (rule wf_put_file)
  have "distinct fs \<and> (\<forall>x\<in>set fs. valid_filename x \<and> map_of (st_files st) (file_key g x) \<noteq> None)"
    using wf by (auto simp: fs_def index_or_def wf_state_def wf_listing_def split: option.splits)
  then have "wf_state (put_group_files g (uset_insert f fs) (put_file (file_key g f) fm' st))"
    using wf' f g by (intro wf_put_group_files) (auto simp: lookup_defs)
  moreover have "fst (upload_file g f u n h k hs st) =
      bump (put_group_files g (uset_insert f fs) (put_file (file_key g f) fm' st))"
    using True g by (simp add: upload_file_def Let_def fm_def fm'_def fs_def split: if_splits)
  ultimately show ?thesis by simp
qed

lemma wf_run_op:
  assumes wf: "wf_state st" and ok: "op_checked op"
  shows "wf_state (fst (run_op ssl rand op st))"
proof -
  note g = wf_group_of [OF wf] and gm = wf_group_members [OF wf_group_of [OF wf]]
    and f = wf_file_of [OF wf] and fp = wf_file_peers [OF wf_file_of [OF wf]]
  have p: "map_of (st_peers st) n = Some q \<Longrightarrow>
      n \<noteq> [] \<and> peername q = n \<and> salt (password q) \<noteq> [] \<and> pw_hash (password q) \<noteq> []" for n q
    using wf by (simp add: wf_state_def wf_peers_def)
  show ?thesis
  proof (cases op)
    case (UploadFile h x u n fh k hs)
    then show ?thesis using wf_upload [OF wf] ok by simp
  next
    case (CreateUser u pw)
    then show ?thesis using wf ok
      by (auto simp: create_user_def Let_def new_peer_def intro!: wf_put_peer)
  next
    case (CreateGroup h u)
    then show ?thesis using wf
      by (auto simp: create_group_def new_group_def wf_group_def intro!: wf_put_group)
  next
    case (JoinGroup h u)
    then show ?thesis using wf gm
      by (auto simp: join_group_def split: option.splits intro!: wf_put_group wf_group_applicants dest: g)
  next
    case (LeaveGroup h u)
    then show ?thesis using wf
      by (auto simp: leave_group_def split: option.splits intro!: wf_put_group wf_group_deluser dest: g)
  next
    case (AcceptRequest h a u)
    then show ?thesis using wf ok
      by (auto simp: accept_request_def split: option.splits intro!: wf_put_group wf_group_acceptreq dest: g)
  next
    case (RejectRequest h a u)
    then show ?thesis using wf gm
      by (auto simp: reject_request_def split: option.splits intro!: wf_put_group wf_group_applicants dest: g)
  next
    case (FileDownloaded h x u)
    then show ?thesis using wf fp
      by (auto simp: file_downloaded_def Let_def split: option.splits intro!: wf_put_file wf_file_seeders dest: f)
  next
    case (StopShare h x u)
    then show ?thesis using wf fp
      by (auto simp: stop_share_def split: option.splits intro!: wf_put_file wf_file_seeders dest: f)
  qed (use wf in \<open>auto simp: login_def logout_def handle_disconnect_def peer_login_def peer_logout_def
      split: option.splits intro!: wf_put_peer dest: p\<close>)
qed

section \<open>The policy\<close>

inductive policy_step :: "tracker_op \<Rightarrow> fact set \<Rightarrow> fact set \<Rightarrow> bool" where
  register: "User u \<notin> F \<Longrightarrow> policy_step (CreateUser u pw) F (insert (User u) F)"
| log_in: "User u \<in> F \<Longrightarrow> policy_step (Login u pw ip port) F F"
| log_out: "User u \<in> F \<Longrightarrow> policy_step (Logout u) F F"
| drop_line: "policy_step (Disconnect u) F F"
| found: "User u \<in> F \<Longrightarrow> Grp g \<notin> F \<Longrightarrow>
    policy_step (CreateGroup g u) F (F \<union> {Grp g, Owned g, Owner g u, Member g u})"
| ask: "User u \<in> F \<Longrightarrow> Grp g \<in> F \<Longrightarrow> Member g u \<notin> F \<Longrightarrow>
    policy_step (JoinGroup g u) F (insert (Applicant g u) F)"
| leave: "User u \<in> F \<Longrightarrow> Member g u \<in> F \<Longrightarrow> Owner g u \<notin> F \<Longrightarrow>
    policy_step (LeaveGroup g u) F (F - {Member g u})"
| hand_over: "User u \<in> F \<Longrightarrow> Member g u \<in> F \<Longrightarrow> Owner g u \<in> F \<Longrightarrow> Member g v \<in> F \<Longrightarrow> v \<noteq> u \<Longrightarrow>
    policy_step (LeaveGroup g u) F (insert (Owner g v) (F - {Member g u, Owner g u}))"
| abandon: "User u \<in> F \<Longrightarrow> Member g u \<in> F \<Longrightarrow> Owner g u \<in> F \<Longrightarrow> \<forall>v. v \<noteq> u \<longrightarrow> Member g v \<notin> F \<Longrightarrow>
    policy_step (LeaveGroup g u) F (F - {Member g u, Owner g u, Owned g})"
| approve: "User a \<in> F \<Longrightarrow> Owner g u \<in> F \<Longrightarrow> Applicant g a \<in> F \<Longrightarrow>
    policy_step (AcceptRequest g a u) F (insert (Member g a) (F - {Applicant g a}))"
| decline: "User a \<in> F \<Longrightarrow> Owner g u \<in> F \<Longrightarrow> Applicant g a \<in> F \<Longrightarrow>
    policy_step (RejectRequest g a u) F (F - {Applicant g a})"
| publish: "User u \<in> F \<Longrightarrow> Member g u \<in> F \<Longrightarrow> valid_filename f \<Longrightarrow>
    policy_step (UploadFile g f u n h k hs) F
      (F \<union> {File (file_key g f), Seeder (file_key g f) u, Listed g f})"
| seed: "User u \<in> F \<Longrightarrow> Member g u \<in> F \<Longrightarrow> Listed g f \<in> F \<Longrightarrow>
    policy_step (FileDownloaded g f u) F (insert (Seeder (file_key g f) u) F)"
| unseed: "User u \<in> F \<Longrightarrow> Member g u \<in> F \<Longrightarrow> Listed g f \<in> F \<Longrightarrow>
    policy_step (StopShare g f u) F (F - {Seeder (file_key g f) u})"

inductive_cases policy_CreateUserE: "policy_step (CreateUser u pw) F F'"
inductive_cases policy_LoginE: "policy_step (Login u pw ip port) F F'"
inductive_cases policy_CreateGroupE: "policy_step (CreateGroup g u) F F'"
inductive_cases policy_JoinGroupE: "policy_step (JoinGroup g u) F F'"
inductive_cases policy_LeaveGroupE: "policy_step (LeaveGroup g u) F F'"
inductive_cases policy_AcceptE: "policy_step (AcceptRequest g a u) F F'"
inductive_cases policy_RejectE: "policy_step (RejectRequest g a u) F F'"
inductive_cases policy_UploadE: "policy_step (UploadFile g f u n h k hs) F F'"
inductive_cases policy_SeedE: "policy_step (FileDownloaded g f u) F F'"
inductive_cases policy_UnseedE: "policy_step (StopShare g f u) F F'"
inductive_cases policy_LogoutE: "policy_step (Logout u) F F'"
inductive_cases policy_DisconnectE: "policy_step (Disconnect u) F F'"

lemmas policy_cases = policy_CreateGroupE policy_JoinGroupE policy_LeaveGroupE policy_AcceptE
  policy_RejectE policy_UploadE policy_SeedE policy_UnseedE policy_LogoutE policy_DisconnectE

section \<open>The policy on accounts and on file metadata\<close>

text \<open>
  What the facts leave out of a state: the salt and hash of each account with the address its user is
  online at, if he is; and size, hashes and piece count of each file.
\<close>

type_synonym account = "string \<times> string \<times> (string \<times> string) option"
type_synonym file_data = "int \<times> string \<times> int \<times> string list"

definition accounts :: "tracker_state \<Rightarrow> string \<Rightarrow> account option" where
  "accounts st n = map_option (\<lambda>p. (salt (password p), pw_hash (password p),
     if connected p then Some (hostip p, hostport p) else None)) (map_of (st_peers st) n)"

definition metadata :: "tracker_state \<Rightarrow> string \<Rightarrow> file_data option" where
  "metadata st k = map_option (\<lambda>f. (fm_size f, fullhash f, num_pieces f, piece_hashes f)) (map_of (st_files st) k)"

text \<open>
  Registering stores a fresh salt and the digest of the salt with the password, for a user who is offline;
  \<open>None\<close> is a registration without entropy or digest. A login needs the password: its digest with the
  stored salt must be the stored one; it brings the user online at the address given, a logout or the end
  of a connection takes him offline. No other operation touches an account.
\<close>

fun account_policy ::
  "openssl \<Rightarrow> rng \<Rightarrow> tracker_op \<Rightarrow> (string \<Rightarrow> account option) \<Rightarrow> (string \<Rightarrow> account option) option" where
  "account_policy ssl rand (CreateUser u pw) A =
     (case rand 16 of None \<Rightarrow> None
      | Some bytes \<Rightarrow> let s = to_hex bytes; h = sha256_hex ssl (s @ pw) in
          if s = [] \<or> h = [] then None else Some (A(u \<mapsto> (s, h, None))))"
| "account_policy ssl rand (Login u pw ip port) A =
     (case A u of None \<Rightarrow> None
      | Some (s, h, at) \<Rightarrow> if s \<noteq> [] \<and> h \<noteq> [] \<and> sha256_hex ssl (s @ pw) = h
          then Some (A(u \<mapsto> (s, h, Some (ip, port)))) else None)"
| "account_policy ssl rand (Logout u) A = map_option (\<lambda>(s, h, at). A(u \<mapsto> (s, h, None))) (A u)"
| "account_policy ssl rand (Disconnect u) A =
     (case A u of None \<Rightarrow> Some A | Some (s, h, at) \<Rightarrow> Some (A(u \<mapsto> (s, h, None))))"
| "account_policy ssl rand op A = Some A"

text \<open>An upload replaces the metadata of its file; nothing else touches any.\<close>

fun metadata_policy :: "tracker_op \<Rightarrow> (string \<Rightarrow> file_data option) \<Rightarrow> string \<Rightarrow> file_data option" where
  "metadata_policy (UploadFile g f u n h k hs) D = D(file_key g f \<mapsto> (n, h, k, hs))"
| "metadata_policy op D = D"

lemma views_bump [simp]: "accounts (bump st) = accounts st" "metadata (bump st) = metadata st"
  by (simp_all add: accounts_def metadata_def fun_eq_iff put_defs)

lemma views_put [simp]:
  "accounts (put_peer n p st) = (accounts st)(n \<mapsto> (salt (password p), pw_hash (password p),
     if connected p then Some (hostip p, hostport p) else None))"
  "accounts (put_group g gr st) = accounts st" "accounts (put_file k fm st) = accounts st"
  "accounts (put_group_files g fs st) = accounts st"
  "metadata (put_peer n p st) = metadata st" "metadata (put_group g gr st) = metadata st"
  "metadata (put_file k fm st) = (metadata st)(k \<mapsto> (fm_size fm, fullhash fm, num_pieces fm, piece_hashes fm))"
  "metadata (put_group_files g fs st) = metadata st"
  by (auto simp: accounts_def metadata_def fun_eq_iff put_defs)

lemma metadata_same:
  "map_of (st_files st) k = Some fm \<Longrightarrow>
   (metadata st)(k \<mapsto> (fm_size fm, fullhash fm, num_pieces fm, piece_hashes fm)) = metadata st"
  by (auto simp: metadata_def fun_eq_iff)

section \<open>What each kind of write does to the facts\<close>

lemma facts_bump [simp]: "facts (bump st) = facts st"
proof (rule facts_eqI)
  fix f show "holds (bump st) f \<longleftrightarrow> f \<in> facts st" by (cases f) (simp_all add: lookup_defs)
qed

lemma facts_put_peer: "user_exists_locked st n \<Longrightarrow> facts (put_peer n p st) = facts st"
proof (rule facts_eqI)
  fix f
  show "user_exists_locked st n \<Longrightarrow> holds (put_peer n p st) f \<longleftrightarrow> f \<in> facts st"
    by (cases f) (auto simp: group_has_file_locked_def)
qed

lemma facts_put_new_peer: "facts (put_peer n p st) = insert (User n) (facts st)"
proof (rule facts_eqI)
  fix f show "holds (put_peer n p st) f \<longleftrightarrow> f \<in> insert (User n) (facts st)"
    by (cases f) (auto simp: group_has_file_locked_def)
qed

lemma holds_put_group:
  "holds (put_group g gr st) f \<longleftrightarrow>
    (case f of
       Grp h \<Rightarrow> h = g \<or> holds st f
     | Owned h \<Rightarrow> if h = g then groupmaster gr \<noteq> [] else holds st f
     | Owner h u \<Rightarrow> if h = g then groupmaster gr = u \<and> u \<noteq> [] else holds st f
     | Member h u \<Rightarrow> if h = g then partofgroup gr u else holds st f
     | Applicant h u \<Rightarrow> if h = g then isapplicant gr u else holds st f
     | _ \<Rightarrow> holds st f)"
  by (cases f) (auto simp: group_has_file_locked_def)

lemma holds_put_file:
  "holds (put_file k fm st) f \<longleftrightarrow>
    (case f of
       File k' \<Rightarrow> k' = k \<or> holds st f
     | Seeder k' u \<Rightarrow> if k' = k then u \<in> set (fm_peers fm) else holds st f
     | _ \<Rightarrow> holds st f)"
  by (cases f) (auto simp: group_has_file_locked_def)

lemma holds_put_group_files:
  "holds (put_group_files g fs st) f \<longleftrightarrow>
    (case f of Listed h x \<Rightarrow> if h = g then x \<in> set fs else holds st f | _ \<Rightarrow> holds st f)"
  by (cases f) (auto simp: group_has_file_locked_def)

text \<open>A state transformation described by what it does to each fact about one group.\<close>

lemma facts_put_groupI:
  assumes g: "map_of (st_groups st) g = Some gr"
    and "\<And>u. partofgroup gr' u \<longleftrightarrow> Member g u \<in> F" "\<And>u. isapplicant gr' u \<longleftrightarrow> Applicant g u \<in> F"
    and "\<And>u. groupmaster gr' = u \<and> u \<noteq> [] \<longleftrightarrow> Owner g u \<in> F" "groupmaster gr' \<noteq> [] \<longleftrightarrow> Owned g \<in> F"
    and "Grp g \<in> F"
    and same: "\<And>f. f \<notin> {Grp g, Owned g} \<union> range (Owner g) \<union> range (Member g) \<union> range (Applicant g) \<Longrightarrow>
      holds st f \<longleftrightarrow> f \<in> F"
  shows "facts (put_group g gr' st) = F"
proof (rule facts_eqI)
  fix f
  show "holds (put_group g gr' st) f \<longleftrightarrow> f \<in> F"
    using assms(2-6) same [of f] unfolding holds_put_group by (cases f) auto
qed

lemma owner_member:
  "wf_state st \<Longrightarrow> map_of (st_groups st) g = Some gr \<Longrightarrow> groupmaster gr \<noteq> [] \<Longrightarrow>
   groupmaster gr \<in> set (participants gr)"
  by (drule (1) wf_group_of) (auto simp: wf_group_def split: if_splits)

end
