(* ===== verification/Tracker_Refinement.thy ===== *)
theory Tracker_Refinement imports Tracker_Policy
begin

text \<open>
  Every method of \<open>TrackerState\<close> that a command or the end of a connection runs follows the policies of theory
  Tracker_Policy: what it does to the concrete maps is what they prescribe for facts, accounts and metadata, and
  it refuses only what one of them forbids.
\<close>

section \<open>Each method implements its policy\<close>

text \<open>
  A method that succeeds makes a step the policy on facts allows; a method that rejects changes nothing, and
  it rejects only what that policy forbids. (\<open>create_user\<close> and \<open>login\<close>, which the policy on accounts may
  forbid too, are treated below.)
\<close>

definition implements :: "tracker_op \<Rightarrow> tracker_state \<Rightarrow> tracker_state \<times> result \<Rightarrow> bool" where
  "implements op st r \<longleftrightarrow>
     (if res_ok (snd r) then policy_step op (facts st) (facts (fst r))
      else fst r = st \<and> (\<forall>F. \<not> policy_step op (facts st) F))"

lemma implements_logout: "implements (Logout u) st (logout u st)"
  by (auto simp: implements_def logout_def facts_put_peer lookup_defs intro: policy_step.log_out
      elim: policy_cases split: option.splits)

lemma implements_disconnect: "implements (Disconnect u) st (handle_disconnect u st, accepted '''')"
  by (auto simp: implements_def handle_disconnect_def facts_put_peer lookup_defs
      intro: policy_step.drop_line split: option.splits)

lemma facts_create_group:
  assumes "\<not> group_exists_locked st g" "u \<noteq> []"
    "groupmaster gr = u" "participants gr = [u]" "applicants gr = []"
  shows "facts (put_group g gr st) = facts st \<union> {Grp g, Owned g, Owner g u, Member g u}"
proof (rule facts_eqI)
  fix f
  show "holds (put_group g gr st) f \<longleftrightarrow> f \<in> facts st \<union> {Grp g, Owned g, Owner g u, Member g u}"
    using assms unfolding holds_put_group
    by (cases f) (auto simp: group_exists_locked_def partofgroup_def isapplicant_def)
qed

lemma implements_create_group:
  assumes "u \<noteq> []"
  shows "implements (CreateGroup g u) st (create_group g u st)"
proof (cases "user_exists_locked st u \<and> \<not> group_exists_locked st g")
  case True
  then show ?thesis
    using facts_create_group [of st g u "new_group\<lparr>group_gid := g, groupmaster := u, participants := uset_insert u []\<rparr>"]
      assms policy_step.found [of u "facts st" g]
    by (simp add: implements_def create_group_def new_group_def uset_insert_def)
next
  case False
  then show ?thesis
    by (auto simp: implements_def create_group_def elim: policy_cases)
qed

text \<open>The group methods share their three-stage guard: the user, the group, the right in the group.\<close>

lemma implements_join_group: "implements (JoinGroup g u) st (join_group g u st)"
proof (cases "map_of (st_groups st) g")
  case None
  then show ?thesis by (auto simp: implements_def join_group_def lookup_defs elim: policy_cases)
next
  case (Some gr)
  show ?thesis
  proof (cases "user_exists_locked st u \<and> \<not> partofgroup gr u")
    case True
    have "facts (put_group g (gr\<lparr>applicants := uset_insert u (applicants gr)\<rparr>) st) = insert (Applicant g u) (facts st)"
      by (rule facts_put_groupI [OF Some])
         (auto simp: Some partofgroup_def isapplicant_def group_exists_locked_def)
    then show ?thesis
      using True Some policy_step.ask [of u "facts st" g]
      by (simp add: implements_def join_group_def group_exists_locked_def)
  next
    case False
    then show ?thesis using Some by (auto simp: implements_def join_group_def elim: policy_cases)
  qed
qed

lemma implements_accept_request:
  assumes "u \<noteq> []"
  shows "implements (AcceptRequest g a u) st (accept_request g a u st)"
proof (cases "map_of (st_groups st) g")
  case None
  then show ?thesis by (auto simp: implements_def accept_request_def lookup_defs elim: policy_cases)
next
  case (Some gr)
  show ?thesis
  proof (cases "user_exists_locked st a \<and> groupmaster gr = u \<and> isapplicant gr a")
    case True
    have "facts (put_group g (acceptreq a gr) st) = insert (Member g a) (facts st - {Applicant g a})"
      by (rule facts_put_groupI [OF Some])
         (auto simp: Some acceptreq_def partofgroup_def isapplicant_def group_exists_locked_def)
    then show ?thesis
      using True Some assms policy_step.approve [of a "facts st" g u]
      by (simp add: implements_def accept_request_def)
  next
    case False
    then show ?thesis using Some by (auto simp: implements_def accept_request_def elim: policy_cases)
  qed
qed

lemma implements_reject_request:
  assumes "u \<noteq> []"
  shows "implements (RejectRequest g a u) st (reject_request g a u st)"
proof (cases "map_of (st_groups st) g")
  case None
  then show ?thesis by (auto simp: implements_def reject_request_def lookup_defs elim: policy_cases)
next
  case (Some gr)
  show ?thesis
  proof (cases "user_exists_locked st a \<and> groupmaster gr = u \<and> isapplicant gr a")
    case True
    have "facts (put_group g (gr\<lparr>applicants := uset_erase a (applicants gr)\<rparr>) st) = facts st - {Applicant g a}"
      by (rule facts_put_groupI [OF Some])
         (auto simp: Some partofgroup_def isapplicant_def group_exists_locked_def)
    then show ?thesis
      using True Some assms policy_step.decline [of a "facts st" g u]
      by (simp add: implements_def reject_request_def)
  next
    case False
    then show ?thesis using Some by (auto simp: implements_def reject_request_def elim: policy_cases)
  qed
qed

text \<open>Leaving: an ordinary member, an owner with successors, the last member.\<close>

lemma implements_leave_group:
  assumes wf: "wf_state st"
  shows "implements (LeaveGroup g u) st (leave_group g u st)"
proof (cases "map_of (st_groups st) g")
  case None
  then show ?thesis by (auto simp: implements_def leave_group_def lookup_defs elim: policy_cases)
next
  case (Some gr)
  show ?thesis
  proof (cases "user_exists_locked st u \<and> partofgroup gr u")
    case False
    then show ?thesis using Some by (auto simp: implements_def leave_group_def elim: policy_cases)
  next
    case True
    let ?ps = "uset_erase u (participants gr)"
    have run: "leave_group g u st = (bump (put_group g (deluser u gr) st),
        accepted (''****** Left group successfully. ID: '' @ g @ '' ******''))"
      using True Some by (simp add: leave_group_def)
    have master: "groupmaster gr \<in> set (participants gr)"
      using wf_group_of [OF wf Some] True by (auto simp: wf_group_def partofgroup_def split: if_splits)
    have named: "\<forall>v \<in> set (participants gr). v \<noteq> []"
    proof
      fix v assume "v \<in> set (participants gr)"
      then have "user_exists_locked st v" using wf_group_members [OF wf_group_of [OF wf Some]] by blast
      then show "v \<noteq> []" using wf by (auto simp: wf_state_def wf_peers_def user_exists_locked_def)
    qed
    have F: "Member g u \<in> facts st" "User u \<in> facts st" using True Some by auto
    consider (member) "u \<noteq> groupmaster gr" | (owner) "u = groupmaster gr" "?ps \<noteq> []"
      | (last) "u = groupmaster gr" "?ps = []" by blast
    then show ?thesis
    proof cases
      case member
      then have "facts (put_group g (deluser u gr) st) = facts st - {Member g u}"
        by (intro facts_put_groupI [OF Some])
           (auto simp: Some deluser_def partofgroup_def isapplicant_def group_exists_locked_def)
      moreover have "Owner g u \<notin> facts st" using Some member by simp
      ultimately show ?thesis using F policy_step.leave [of u "facts st" g]
        by (simp add: implements_def run)
    next
      case owner
      have hd: "hd ?ps \<in> set (participants gr)" "hd ?ps \<noteq> u" using hd_in_set [OF owner(2)] by auto
      have ne: "groupmaster gr \<noteq> []" "hd ?ps \<noteq> []" using named master hd by auto
      have "facts (put_group g (deluser u gr) st) = insert (Owner g (hd ?ps)) (facts st - {Member g u, Owner g u})"
        using owner hd ne by (intro facts_put_groupI [OF Some])
          (auto simp: Some deluser_def Let_def partofgroup_def isapplicant_def group_exists_locked_def)
      moreover have "Owner g u \<in> facts st" "Member g (hd ?ps) \<in> facts st"
        using Some owner ne hd by (auto simp: partofgroup_def)
      ultimately show ?thesis using F hd policy_step.hand_over [of u "facts st" g "hd ?ps"]
        by (simp add: implements_def run)
    next
      case last
      have only: "set (participants gr) \<subseteq> {u}"
        using arg_cong [OF last(2), of set] by auto
      have ne: "groupmaster gr \<noteq> []" using named master by auto
      have "facts (put_group g (deluser u gr) st) = facts st - {Member g u, Owner g u, Owned g}"
        using last only by (intro facts_put_groupI [OF Some])
          (auto simp: Some deluser_def Let_def partofgroup_def isapplicant_def group_exists_locked_def)
      moreover have "Owner g u \<in> facts st" "\<forall>v. v \<noteq> u \<longrightarrow> Member g v \<notin> facts st"
        using Some last ne only by (auto simp: partofgroup_def)
      ultimately show ?thesis using F policy_step.abandon [of u "facts st" g]
        by (simp add: implements_def run)
    qed
  qed
qed

text \<open>Files.\<close>

lemma facts_put_seeders:
  assumes "map_of (st_files st) k = Some fm"
  shows "facts (put_file k (fm\<lparr>fm_peers := uset_insert u (fm_peers fm)\<rparr>) st) = insert (Seeder k u) (facts st)"
    and "facts (put_file k (fm\<lparr>fm_peers := uset_erase u (fm_peers fm)\<rparr>) st) = facts st - {Seeder k u}"
proof -
  show "facts (put_file k (fm\<lparr>fm_peers := uset_insert u (fm_peers fm)\<rparr>) st) = insert (Seeder k u) (facts st)"
  proof (rule facts_eqI)
    fix f show "holds (put_file k (fm\<lparr>fm_peers := uset_insert u (fm_peers fm)\<rparr>) st) f \<longleftrightarrow> f \<in> insert (Seeder k u) (facts st)"
      using assms unfolding holds_put_file by (cases f) auto
  qed
  show "facts (put_file k (fm\<lparr>fm_peers := uset_erase u (fm_peers fm)\<rparr>) st) = facts st - {Seeder k u}"
  proof (rule facts_eqI)
    fix f show "holds (put_file k (fm\<lparr>fm_peers := uset_erase u (fm_peers fm)\<rparr>) st) f \<longleftrightarrow> f \<in> facts st - {Seeder k u}"
      using assms unfolding holds_put_file by (cases f) auto
  qed
qed

lemma listed_file:
  assumes "wf_state st" "group_has_file_locked st g f"
  shows "\<exists>fm. map_of (st_files st) (file_key g f) = Some fm"
proof -
  obtain fs where "map_of (st_group_files st) g = Some fs" "f \<in> set fs"
    using assms(2) by (simp add: group_has_file_locked_def split: option.splits)
  moreover have "wf_listing st" using assms(1) by (simp add: wf_state_def)
  ultimately have "map_of (st_files st) (file_key g f) \<noteq> None" unfolding wf_listing_def by blast
  then show ?thesis by blast
qed

lemma implements_file_downloaded:
  assumes wf: "wf_state st"
  shows "implements (FileDownloaded g f u) st (file_downloaded g f u st)"
proof (cases "map_of (st_groups st) g")
  case None
  then show ?thesis by (auto simp: implements_def file_downloaded_def elim: policy_cases)
next
  case (Some gr)
  show ?thesis
  proof (cases "partofgroup gr u \<and> group_has_file_locked st g f \<and> user_exists_locked st u")
    case True
    then obtain fm where fm: "map_of (st_files st) (file_key g f) = Some fm" using listed_file [OF wf] by blast
    then show ?thesis
      using True Some facts_put_seeders(1) [OF fm, of u] policy_step.seed [of u "facts st" g f]
      by (simp add: implements_def file_downloaded_def Let_def)
  next
    case False
    then show ?thesis using Some by (auto simp: implements_def file_downloaded_def elim: policy_cases)
  qed
qed

lemma implements_stop_share:
  assumes wf: "wf_state st"
  shows "implements (StopShare g f u) st (stop_share g f u st)"
proof (cases "map_of (st_groups st) g")
  case None
  then show ?thesis by (auto simp: implements_def stop_share_def elim: policy_cases)
next
  case (Some gr)
  show ?thesis
  proof (cases "partofgroup gr u \<and> group_has_file_locked st g f \<and> user_exists_locked st u")
    case True
    then obtain fm where fm: "map_of (st_files st) (file_key g f) = Some fm" using listed_file [OF wf] by blast
    then show ?thesis
      using True Some facts_put_seeders(2) [OF fm, of u] policy_step.unseed [of u "facts st" g f]
      by (simp add: implements_def stop_share_def)
  next
    case False
    then show ?thesis using Some by (auto simp: implements_def stop_share_def elim: policy_cases)
  qed
qed

lemma facts_publish:
  assumes "set (fm_peers fm') = insert u (set (fm_peers (index_or new_file_meta (st_files st) k)))"
  shows "facts (put_group_files g (uset_insert f (index_or [] (st_group_files st) g)) (put_file k fm' st)) =
    facts st \<union> {File k, Seeder k u, Listed g f}"
proof (rule facts_eqI)
  fix x
  show "holds (put_group_files g (uset_insert f (index_or [] (st_group_files st) g)) (put_file k fm' st)) x \<longleftrightarrow>
      x \<in> facts st \<union> {File k, Seeder k u, Listed g f}"
    unfolding holds_put_group_files holds_put_file
    by (cases x) (auto simp: assms seeders_index_or listing_index_or simp del: holds.simps)
qed

lemma implements_upload_file: "implements (UploadFile g f u n h k hs) st (upload_file g f u n h k hs st)"
proof (cases "map_of (st_groups st) g")
  case None
  then show ?thesis by (auto simp: implements_def upload_file_def elim: policy_cases)
next
  case (Some gr)
  show ?thesis
  proof (cases "partofgroup gr u \<and> user_exists_locked st u \<and> valid_filename f")
    case True
    then show ?thesis
      using Some policy_step.publish [of u "facts st" g f] facts_publish [of _ u st "file_key g f" g f]
      by (simp add: implements_def upload_file_def Let_def)
  next
    case False
    then show ?thesis using Some by (auto simp: implements_def upload_file_def elim: policy_cases)
  qed
qed

lemma run_op_implements:
  assumes "wf_state st" "op_checked op" "\<forall>u pw. op \<noteq> CreateUser u pw" "\<forall>u pw ip port. op \<noteq> Login u pw ip port"
  shows "implements op st (run_op ssl rand op st)"
  using assms
  by (cases op) (simp_all add: implements_logout
      implements_disconnect implements_create_group implements_join_group implements_leave_group
      implements_accept_request implements_reject_request implements_upload_file
      implements_file_downloaded implements_stop_share)

section \<open>The whole policy\<close>

definition follows_policy ::
  "openssl \<Rightarrow> rng \<Rightarrow> tracker_op \<Rightarrow> tracker_state \<Rightarrow> tracker_state \<times> result \<Rightarrow> bool" where
  "follows_policy ssl rand op st r \<longleftrightarrow>
     (if res_ok (snd r)
      then policy_step op (facts st) (facts (fst r)) \<and>
        account_policy ssl rand op (accounts st) = Some (accounts (fst r)) \<and>
        metadata (fst r) = metadata_policy op (metadata st)
      else fst r = st \<and>
        ((\<forall>F. \<not> policy_step op (facts st) F) \<or> account_policy ssl rand op (accounts st) = None))"

text \<open>Registration: refused for a name in use, and without entropy or digest.\<close>

lemma create_user_follows: "follows_policy ssl rand (CreateUser u pw) st (create_user ssl rand u pw st)"
proof (cases "user_exists_locked st u")
  case True
  then show ?thesis by (auto simp: follows_policy_def create_user_def elim: policy_CreateUserE)
next
  case False
  then show ?thesis
    by (auto simp: follows_policy_def create_user_def hash_password_def random_hex_def kSaltBytes_def Let_def
        facts_put_new_peer new_peer_def intro: policy_step.register split: option.splits)
qed

text \<open>Login: refused for an unknown name, and for a password that is not the account's.\<close>

lemma login_follows: "follows_policy ssl rand (Login u pw ip port) st (login ssl u pw ip port st)"
proof (cases "map_of (st_peers st) u")
  case None
  then show ?thesis by (auto simp: follows_policy_def login_def lookup_defs elim: policy_LoginE)
next
  case (Some p)
  then show ?thesis
    by (auto simp: follows_policy_def login_def accounts_def verify_password_iff facts_put_peer lookup_defs peer_login_def
        fun_eq_iff intro: policy_step.log_in)
qed

lemma wf_peer_named: "wf_state st \<Longrightarrow> map_of (st_peers st) [] = None"
  by (cases "map_of (st_peers st) []") (auto simp: wf_state_def wf_peers_def)

lemma run_op_views:
  assumes "wf_state st" "op_checked op" "\<forall>u pw. op \<noteq> CreateUser u pw" "\<forall>u pw ip port. op \<noteq> Login u pw ip port"
    and "res_ok (snd (run_op ssl rand op st))"
  shows "account_policy ssl rand op (accounts st) = Some (accounts (fst (run_op ssl rand op st))) \<and>
    metadata (fst (run_op ssl rand op st)) = metadata_policy op (metadata st)"
  using assms wf_peer_named [OF assms(1)]
  by (cases op) (auto simp: op_defs Let_def accounts_def peer_logout_def metadata_same fun_eq_iff split: option.splits if_splits)

lemma run_op_follows:
  assumes "wf_state st" "op_checked op"
  shows "follows_policy ssl rand op st (run_op ssl rand op st)"
proof -
  consider (create) u pw where "op = CreateUser u pw" | (login) u pw ip port where "op = Login u pw ip port"
    | (other) "\<forall>u pw. op \<noteq> CreateUser u pw" "\<forall>u pw ip port. op \<noteq> Login u pw ip port" by blast
  then show ?thesis
  proof cases
    case other
    then show ?thesis
      using run_op_implements [OF assms other, of ssl rand] run_op_views [OF assms other, of ssl rand]
      by (simp add: follows_policy_def implements_def split: if_splits)
  qed (simp_all add: create_user_follows login_follows)
qed

end
