(* ===== verification/Persistence.thy ===== *)
theory Persistence imports Tracker_Policy
begin

text \<open>
  Models \<^verbatim>\<open>src/tracker/persistence.cpp\<close>: the record format shared by the on-disk snapshot and by
  tracker-to-tracker replication, its writer (\<open>serialize_locked\<close>), its parser and applier
  (\<open>take_list\<close>, \<open>apply_records_locked\<close>) and the two users of them, \<open>merge_from\<close> and
  \<open>save_snapshot\<close>/\<open>load_snapshot\<close>. Records that precede a malformed one stay applied, as in the code.
\<close>

section \<open>Writing\<close>

definition user_record :: "string \<times> peer \<Rightarrow> string" where
  "user_record e = (case e of (name, p) \<Rightarrow>
     if salt (password p) = [] \<or> pw_hash (password p) = [] then ''''
     else ''USER '' @ name @ '' '' @ salt (password p) @ '' '' @ pw_hash (password p) @ [newline])"

definition group_record :: "string \<times> group \<Rightarrow> string" where
  "group_record e = (case e of (gid, g) \<Rightarrow>
     ''GROUP '' @ gid @ '' '' @ (if groupmaster g = [] then ''-'' else groupmaster g) @ '' '' @
     to_string (int (length (participants g))) @ spaced (participants g) @ '' '' @
     to_string (int (length (applicants g))) @ spaced (applicants g) @ [newline])"

definition file_record :: "string \<times> file_meta \<Rightarrow> string" where
  "file_record e = (case e of (key, f) \<Rightarrow>
     ''FILE '' @ key @ '' '' @ to_string (fm_size f) @ '' '' @ fullhash f @ '' '' @
     to_string (int (length (piece_hashes f))) @ spaced (piece_hashes f) @ '' '' @
     to_string (int (length (fm_peers f))) @ spaced (fm_peers f) @ [newline])"

definition gfile_record :: "string \<times> uset \<Rightarrow> string" where
  "gfile_record e = (case e of (gid, fs) \<Rightarrow>
     ''GFILE '' @ gid @ '' '' @ to_string (int (length fs)) @ spaced fs @ [newline])"

definition serialize :: "tracker_state \<Rightarrow> string" where
  "serialize st = ''V 1'' @ [newline] @ concat (map user_record (st_peers st)) @
     concat (map group_record (st_groups st)) @ concat (map file_record (st_files st)) @
     concat (map gfile_record (st_group_files st))"

section \<open>Parsing\<close>

text \<open>\<open>take_list\<close> returns the items and the index after them.\<close>

definition take_list :: "string list \<Rightarrow> nat \<Rightarrow> (string list \<times> nat) option" where
  "take_list t i =
     (if length t \<le> i then None
      else (case parse_ll (t ! i) of None \<Rightarrow> None
        | Some count \<Rightarrow>
            if count < 0 then None
            else if int (length t - Suc i) < count then None
            else Some (take (nat count) (drop (Suc i) t), Suc i + nat count)))"

datatype record_item =
    Skipped
  | User_rec string string string
  | Group_rec string string "string list" "string list"
  | File_rec string int string "string list" "string list"
  | Gfile_rec string "string list"

text \<open>The checks of one record: \<open>None\<close> is \<open>return false\<close>.\<close>

definition parse_record :: "string list \<Rightarrow> record_item option" where
  "parse_record t =
     (if t = [] \<or> t ! 0 = ''V'' then Some Skipped
      else if t ! 0 = ''USER'' then
        (if length t \<noteq> 4 then None else Some (User_rec (t ! 1) (t ! 2) (t ! 3)))
      else if t ! 0 = ''GROUP'' then
        (if length t < 4 then None
         else (case take_list t 3 of None \<Rightarrow> None
           | Some (parts, i) \<Rightarrow> (case take_list t i of None \<Rightarrow> None
             | Some (apps, _) \<Rightarrow> Some (Group_rec (t ! 1) (t ! 2) parts apps))))
      else if t ! 0 = ''FILE'' then
        (if length t < 5 then None
         else (case parse_ll (t ! 2) of None \<Rightarrow> None
           | Some sz \<Rightarrow> if sz < 0 then None
             else (case take_list t 4 of None \<Rightarrow> None
               | Some (hashes, i) \<Rightarrow> (case take_list t i of None \<Rightarrow> None
                 | Some (seeders, _) \<Rightarrow> Some (File_rec (t ! 1) sz (t ! 3) hashes seeders)))))
      else if t ! 0 = ''GFILE'' then
        (if length t < 3 then None
         else (case take_list t 2 of None \<Rightarrow> None
           | Some (items, _) \<Rightarrow> Some (Gfile_rec (t ! 1) items)))
      else None)"

section \<open>Applying\<close>

text \<open>\<open>(int)hashes.size()\<close>: the size reduced to a signed 32-bit integer.\<close>

definition cast_int :: "nat \<Rightarrow> int" where
  "cast_int n = sint (of_nat n :: 32 word)"

text \<open>The state is paired with the \<open>changed\<close> flag that \<open>touched()\<close> sets.\<close>

fun apply_record :: "bool \<Rightarrow> record_item \<Rightarrow> tracker_state \<times> bool \<Rightarrow> tracker_state \<times> bool" where
  "apply_record replace Skipped (st, changed) = (st, changed)"
| "apply_record replace (User_rec name s h) (st, changed) =
     (if \<not> replace \<and> user_exists_locked st name then (st, changed)
      else (put_peer name (new_peer\<lparr>peername := name, password := \<lparr>salt = s, pw_hash = h\<rparr>,
              connected := False\<rparr>) st, True))"
| "apply_record replace (Group_rec gid master parts apps) (st, changed) =
     (case map_of (st_groups st) gid of
        None \<Rightarrow>
          (put_group gid (new_group\<lparr>group_gid := gid, groupmaster := (if master = ''-'' then '''' else master),
              participants := uset_insert_range parts [], applicants := uset_insert_range apps []\<rparr>) st, True)
      | Some g \<Rightarrow>
          let before = length (participants g) + length (applicants g);
              g1 = g\<lparr>participants := uset_insert_range parts (participants g),
                     applicants := uset_insert_range apps (applicants g)\<rparr>;
              changed1 = (changed \<or> before \<noteq> length (participants g1) + length (applicants g1))
          in if groupmaster g1 = [] \<and> master \<noteq> ''-''
             then (put_group gid (g1\<lparr>groupmaster := master\<rparr>) st, True)
             else (put_group gid g1 st, changed1))"
| "apply_record replace (File_rec key sz h hashes seeders) (st, changed) =
     (case map_of (st_files st) key of
        None \<Rightarrow>
          (put_file key \<lparr>fm_size = sz, fullhash = h, num_pieces = cast_int (length hashes),
              piece_hashes = hashes, fm_peers = uset_insert_range seeders []\<rparr> st, True)
      | Some f \<Rightarrow>
          let f1 = f\<lparr>fm_peers := uset_insert_range seeders (fm_peers f)\<rparr>
          in (put_file key f1 st, changed \<or> length (fm_peers f) \<noteq> length (fm_peers f1)))"
| "apply_record replace (Gfile_rec gid items) (st, changed) =
     (let fs = index_or [] (st_group_files st) gid; fs1 = uset_insert_range items fs
      in (put_group_files gid fs1 st, changed \<or> length fs \<noteq> length fs1))"

fun run_records :: "bool \<Rightarrow> string list list \<Rightarrow> tracker_state \<times> bool \<Rightarrow> bool \<times> tracker_state \<times> bool" where
  "run_records replace [] s = (True, s)"
| "run_records replace (t # ts) s =
     (case parse_record t of None \<Rightarrow> (False, s)
      | Some r \<Rightarrow> run_records replace ts (apply_record replace r s))"

definition cleared :: "tracker_state \<Rightarrow> tracker_state" where
  "cleared st = st\<lparr>st_peers := [], st_groups := [], st_files := [], st_group_files := []\<rparr>"

definition apply_records_locked :: "string \<Rightarrow> bool \<Rightarrow> tracker_state \<Rightarrow> bool \<times> tracker_state \<times> bool" where
  "apply_records_locked data replace st =
     run_records replace (map split_args (getlines data)) (if replace then cleared st else st, False)"

definition merge_from :: "string \<Rightarrow> tracker_state \<Rightarrow> tracker_state \<times> bool" where
  "merge_from data st =
     (case apply_records_locked data False st of (ok, st', changed) \<Rightarrow>
        (if ok \<and> changed then bump st' else st', ok))"

section \<open>The snapshot file\<close>

text \<open>
  How the operating system answers: whether the temporary file opens, how many bytes are written
  before an error (\<open>None\<close>: no error), whether the rename succeeds. \<open>save_snapshot\<close> returns the file
  systems after each of its system calls, oldest first, so that a crash between two of them is
  visible, and the value returned.
\<close>

record save_io =
  open_ok :: bool
  write_error :: "nat option"
  rename_ok :: bool

definition save_snapshot ::
  "save_io \<Rightarrow> string \<Rightarrow> tracker_state \<Rightarrow> filesystem \<Rightarrow> filesystem list \<times> bool" where
  "save_snapshot io path st fs =
     (let data = serialize st; tmp = path @ ''.tmp'' in
      if \<not> open_ok io then ([fs], False)
      else let fs1 = fs(tmp \<mapsto> Readable []) in
        (case write_error io of
           Some n \<Rightarrow> let fs2 = fs1(tmp \<mapsto> Readable (take n data)) in ([fs, fs1, fs2, fs2(tmp := None)], False)
         | None \<Rightarrow>
             let fs2 = fs1(tmp \<mapsto> Readable data) in
             if \<not> rename_ok io then ([fs, fs1, fs2, fs2(tmp := None)], False)
             else ([fs, fs1, fs2, fs2(path := fs2 tmp, tmp := None)], True)))"

text \<open>A path that opens but cannot be read delivers no characters.\<close>

definition load_snapshot :: "filesystem \<Rightarrow> string \<Rightarrow> tracker_state \<Rightarrow> tracker_state \<times> bool" where
  "load_snapshot fs path st =
     (case fs path of None \<Rightarrow> (st, False)
      | Some f \<Rightarrow>
          let buf = (case f of Readable content \<Rightarrow> content | Unreadable n \<Rightarrow> [])
          in (case apply_records_locked buf True st of (ok, st', _) \<Rightarrow> (st', ok)))"

end
