(* ===== verification/Snapshot.thy ===== *)
theory Snapshot imports Persistence
begin

text \<open>
  What the record format guarantees: every record the writer produces is read back as itself, so a
  snapshot restores exactly the accounts, groups, files and listings it was taken from, with every
  peer offline; and a crash while saving leaves the old snapshot or the new one.
\<close>

section \<open>Records as token lists\<close>

fun rec_tokens :: "record_item \<Rightarrow> string list" where
  "rec_tokens Skipped = [''V'', ''1'']"
| "rec_tokens (User_rec name s h) = [''USER'', name, s, h]"
| "rec_tokens (Group_rec gid m ps as) =
     ''GROUP'' # gid # m # (to_string (int (length ps)) # ps) @ (to_string (int (length as)) # as)"
| "rec_tokens (File_rec k sz h hs ss) =
     ''FILE'' # k # to_string sz # h # (to_string (int (length hs)) # hs) @ (to_string (int (length ss)) # ss)"
| "rec_tokens (Gfile_rec gid fs) = ''GFILE'' # gid # to_string (int (length fs)) # fs"

definition words :: "string list \<Rightarrow> bool" where
  "words ws \<longleftrightarrow> (\<forall>w \<in> set ws. is_word w)"

lemma words_simps [simp]:
  "words []" "words (w # ws) \<longleftrightarrow> is_word w \<and> words ws" "words (xs @ ys) \<longleftrightarrow> words xs \<and> words ys"
  by (auto simp: words_def)

fun rec_ok :: "record_item \<Rightarrow> bool" where
  "rec_ok Skipped = True"
| "rec_ok (User_rec name s h) = (is_word name \<and> is_word s \<and> is_word h)"
| "rec_ok (Group_rec gid m ps as) = (is_word gid \<and> is_word m \<and> words ps \<and> words as)"
| "rec_ok (File_rec k sz h hs ss) = (is_word k \<and> 0 \<le> sz \<and> sz \<le> LLONG_MAX \<and> is_word h \<and> words hs \<and> words ss)"
| "rec_ok (Gfile_rec gid fs) = (is_word gid \<and> words fs)"

definition count_ok :: "'a list \<Rightarrow> bool" where
  "count_ok xs \<longleftrightarrow> int (length xs) \<le> LLONG_MAX"

fun rec_fits :: "record_item \<Rightarrow> bool" where
  "rec_fits (Group_rec gid m ps as) = (count_ok ps \<and> count_ok as)"
| "rec_fits (File_rec k sz h hs ss) = (count_ok hs \<and> count_ok ss)"
| "rec_fits (Gfile_rec gid fs) = count_ok fs"
| "rec_fits _ = True"

lemma parse_count: "count_ok xs \<Longrightarrow> parse_ll (to_string (int (length xs))) = Some (int (length xs))"
  by (simp add: count_ok_def parse_ll_to_string LLONG_MIN_def)

lemma take_list_at:
  assumes "count_ok xs"
  shows "take_list (pre @ to_string (int (length xs)) # xs @ post) (length pre) =
    Some (xs, length pre + Suc (length xs))"
  using assms by (simp add: take_list_def nth_append parse_count)

lemma parse_rec_tokens: "rec_ok r \<Longrightarrow> rec_fits r \<Longrightarrow> parse_record (rec_tokens r) = Some r"
proof (cases r)
  case (Group_rec gid m ps as)
  assume "rec_ok r" "rec_fits r"
  then have "take_list (rec_tokens r) 3 = Some (ps, 4 + length ps)"
    "take_list (rec_tokens r) (4 + length ps) = Some (as, 5 + length ps + length as)"
    using take_list_at [of ps "[''GROUP'', gid, m]" "to_string (int (length as)) # as"]
      take_list_at [of as "''GROUP'' # gid # m # to_string (int (length ps)) # ps" "[]"] Group_rec
    by (simp_all add: numeral_eq_Suc)
  then show ?thesis using Group_rec by (simp add: parse_record_def)
next
  case (File_rec k sz h hs ss)
  assume ok: "rec_ok r" "rec_fits r"
  then have "take_list (rec_tokens r) 4 = Some (hs, 5 + length hs)"
    "take_list (rec_tokens r) (5 + length hs) = Some (ss, 6 + length hs + length ss)"
    using take_list_at [of hs "[''FILE'', k, to_string sz, h]" "to_string (int (length ss)) # ss"]
      take_list_at [of ss "''FILE'' # k # to_string sz # h # to_string (int (length hs)) # hs" "[]"] File_rec
    by (simp_all add: numeral_eq_Suc)
  moreover have "parse_ll (to_string sz) = Some sz"
    using ok File_rec by (simp add: parse_ll_to_string LLONG_MIN_def)
  ultimately show ?thesis using File_rec ok by (simp add: parse_record_def numeral_eq_Suc)
next
  case (Gfile_rec gid fs)
  assume "rec_ok r" "rec_fits r"
  then have "take_list (rec_tokens r) 2 = Some (fs, 3 + length fs)"
    using take_list_at [of fs "[''GFILE'', gid]" "[]"] Gfile_rec by (simp add: numeral_eq_Suc)
  then show ?thesis using Gfile_rec by (simp add: parse_record_def)
qed (simp_all add: parse_record_def)

section \<open>The written text is the records' tokens\<close>

definition user_item :: "string \<times> peer \<Rightarrow> record_item" where
  "user_item e = User_rec (fst e) (salt (password (snd e))) (pw_hash (password (snd e)))"

definition group_item :: "string \<times> group \<Rightarrow> record_item" where
  "group_item e = Group_rec (fst e) (if groupmaster (snd e) = [] then ''-'' else groupmaster (snd e))
     (participants (snd e)) (applicants (snd e))"

definition file_item :: "string \<times> file_meta \<Rightarrow> record_item" where
  "file_item e = File_rec (fst e) (fm_size (snd e)) (fullhash (snd e)) (piece_hashes (snd e)) (fm_peers (snd e))"

definition gfile_item :: "string \<times> uset \<Rightarrow> record_item" where
  "gfile_item e = Gfile_rec (fst e) (snd e)"

lemmas item_defs = user_item_def group_item_def file_item_def gfile_item_def

definition records_of :: "tracker_state \<Rightarrow> record_item list" where
  "records_of st = Skipped # map user_item (st_peers st) @ map group_item (st_groups st) @
     map file_item (st_files st) @ map gfile_item (st_group_files st)"

text \<open>Every name, hash and file name of the state is one token; every count is printable.\<close>

definition wire_ok :: "tracker_state \<Rightarrow> bool" where
  "wire_ok st \<longleftrightarrow> (\<forall>r \<in> set (records_of st). rec_ok r)"

definition sizes_ok :: "tracker_state \<Rightarrow> bool" where
  "sizes_ok st \<longleftrightarrow> (\<forall>r \<in> set (records_of st). rec_fits r)"

definition record_line :: "record_item \<Rightarrow> string" where
  "record_line r = hd (rec_tokens r) @ spaced (tl (rec_tokens r))"

lemma rec_tokens_words: "rec_ok r \<Longrightarrow> words (rec_tokens r)"
proof -
  have "is_word ''V''" "is_word ''1''" "is_word ''USER''" "is_word ''GROUP''" "is_word ''FILE''" "is_word ''GFILE''"
    by (simp_all add: is_word_def isspace_def)
  then show "rec_ok r \<Longrightarrow> words (rec_tokens r)"
    by (cases r) (simp_all add: to_string_word)
qed

lemma split_record_line: "rec_ok r \<Longrightarrow> split_args (record_line r) = rec_tokens r"
proof -
  assume "rec_ok r"
  then have w: "words (rec_tokens r)" by (rule rec_tokens_words)
  obtain t ts where r: "rec_tokens r = t # ts" by (cases r) simp_all
  from w have "split_args (t @ spaced ts) = t # ts"
    unfolding r by (intro split_args_command) (auto simp: words_def)
  then show ?thesis by (simp add: record_line_def r)
qed

lemma record_line_no_newline: "rec_ok r \<Longrightarrow> newline \<notin> set (record_line r)"
proof -
  assume "rec_ok r"
  then have w: "words (rec_tokens r)" by (rule rec_tokens_words)
  obtain t ts where r: "rec_tokens r = t # ts" by (cases r) simp_all
  from w have "is_word t" "\<forall>v \<in> set ts. is_word v" by (simp_all add: r words_def)
  then show ?thesis
    using is_word_no_newline spaced_no_newline by (auto simp: record_line_def r)
qed

lemma record_texts:
  "rec_ok (user_item e) \<Longrightarrow> user_record e = record_line (user_item e) @ [newline]"
  "group_record d = record_line (group_item d) @ [newline]"
  "file_record f = record_line (file_item f) @ [newline]"
  "gfile_record g = record_line (gfile_item g) @ [newline]"
  by (auto simp: user_record_def group_record_def file_record_def gfile_record_def item_defs
      record_line_def spaced_append is_word_def split: prod.splits)

lemma serialize_unlines: "wire_ok st \<Longrightarrow> serialize st = unlines (map record_line (records_of st))"
proof -
  assume ok: "wire_ok st"
  have "concat (map user_record (st_peers st)) =
      concat (map (\<lambda>e. record_line (user_item e) @ [newline]) (st_peers st))"
    using ok by (intro arg_cong [of _ _ concat] map_cong) (auto simp: wire_ok_def records_of_def record_texts)
  then show ?thesis
    by (simp add: serialize_def unlines_def records_of_def record_texts(2-4) [abs_def] comp_def
        record_line_def [of Skipped])
qed

lemma run_records_tokens:
  "\<forall>r \<in> set rs. rec_ok r \<and> rec_fits r \<Longrightarrow>
   run_records replace (map rec_tokens rs) s = (True, fold (apply_record replace) rs s)"
  by (induction rs arbitrary: s) (simp_all add: parse_rec_tokens)

lemma apply_serialize:
  assumes "wire_ok st" "sizes_ok st"
  shows "apply_records_locked (serialize st) replace st0 =
    (True, fold (apply_record replace) (records_of st) (if replace then cleared st0 else st0, False))"
proof -
  have ok: "\<forall>r \<in> set (records_of st). rec_ok r \<and> rec_fits r"
    using assms by (simp add: wire_ok_def sizes_ok_def)
  then have "getlines (serialize st) = map record_line (records_of st)"
    unfolding serialize_unlines [OF assms(1)]
    by (intro getlines_unlines) (auto dest: record_line_no_newline)
  moreover have "map split_args (map record_line (records_of st)) = map rec_tokens (records_of st)"
    using ok by (simp add: split_record_line)
  ultimately show ?thesis
    by (simp only: apply_records_locked_def run_records_tokens [OF ok])
qed

section \<open>A load restores what a save wrote\<close>

text \<open>
  What no text can violate in memory but the format would not tell apart: keys are unique, entries
  carry their key, no group is owned by a user called \<open>-\<close> (the mark for "no owner").
\<close>

definition restorable :: "tracker_state \<Rightarrow> bool" where
  "restorable st \<longleftrightarrow>
     umap_ok (st_peers st) \<and> umap_ok (st_groups st) \<and> umap_ok (st_files st) \<and> umap_ok (st_group_files st) \<and>
     (\<forall>(n, p) \<in> set (st_peers st). peername p = n) \<and>
     (\<forall>(gid, g) \<in> set (st_groups st). group_gid g = gid \<and> groupmaster g \<noteq> ''-'' \<and>
        distinct (participants g) \<and> distinct (applicants g)) \<and>
     (\<forall>(k, f) \<in> set (st_files st). num_pieces f = cast_int (length (piece_hashes f)) \<and> distinct (fm_peers f)) \<and>
     (\<forall>(gid, fs) \<in> set (st_group_files st). distinct fs)"

definition offline :: "tracker_state \<Rightarrow> tracker_state" where
  "offline st = st\<lparr>st_peers := map (\<lambda>(n, p). (n, peer_logout p)) (st_peers st)\<rparr>"

lemma load_user:
  "umap_ok (st_peers s @ [(n, p)]) \<Longrightarrow> peername p = n \<Longrightarrow>
   apply_record True (user_item (n, p)) (s, c) =
     (s\<lparr>st_peers := st_peers s @ [(n, peer_logout p)]\<rparr>, True)"
  by (simp add: user_item_def put_peer_def update_new_key map_of_eq_None_iff peer_logout_def new_peer_def)

lemma load_users:
  "umap_ok (st_peers s @ ps) \<Longrightarrow> \<forall>(n, p) \<in> set ps. peername p = n \<Longrightarrow>
   \<exists>c'. fold (apply_record True) (map user_item ps) (s, c) =
     (s\<lparr>st_peers := st_peers s @ map (\<lambda>(n, p). (n, peer_logout p)) ps\<rparr>, c')"
proof (induction ps arbitrary: s c)
  case (Cons e ps)
  obtain n p where e: "e = (n, p)" by (cases e)
  let ?s = "s\<lparr>st_peers := st_peers s @ [(n, peer_logout p)]\<rparr>"
  have "apply_record True (user_item e) (s, c) = (?s, True)"
    using Cons.prems unfolding e by (intro load_user) auto
  moreover have "umap_ok (st_peers ?s @ ps)" using Cons.prems by (auto simp: e)
  then have "\<exists>c'. fold (apply_record True) (map user_item ps) (?s, True) =
     (?s\<lparr>st_peers := st_peers ?s @ map (\<lambda>(n, p). (n, peer_logout p)) ps\<rparr>, c')"
    using Cons.prems(2) by (intro Cons.IH) auto
  ultimately show ?case by (simp add: e)
qed simp

lemma load_groups:
  "umap_ok (st_groups s @ gs) \<Longrightarrow>
   \<forall>(gid, g) \<in> set gs. group_gid g = gid \<and> groupmaster g \<noteq> ''-'' \<and> distinct (participants g) \<and> distinct (applicants g) \<Longrightarrow>
   \<exists>c'. fold (apply_record True) (map group_item gs) (s, c) = (s\<lparr>st_groups := st_groups s @ gs\<rparr>, c')"
proof (induction gs arbitrary: s c)
  case (Cons e gs)
  obtain gid g where e: "e = (gid, g)" by (cases e)
  let ?s = "s\<lparr>st_groups := st_groups s @ [(gid, g)]\<rparr>"
  have "map_of (st_groups s) gid = None" using Cons.prems by (simp add: e map_of_eq_None_iff)
  then have "apply_record True (group_item e) (s, c) = (?s, True)"
    using Cons.prems by (simp add: e group_item_def put_group_def update_new_key new_group_def)
  moreover have "umap_ok (st_groups ?s @ gs)" using Cons.prems by (auto simp: e)
  then have "\<exists>c'. fold (apply_record True) (map group_item gs) (?s, True) = (?s\<lparr>st_groups := st_groups ?s @ gs\<rparr>, c')"
    using Cons.prems(2) by (intro Cons.IH) auto
  ultimately show ?case by (simp add: e)
qed simp

lemma load_files:
  "umap_ok (st_files s @ fs) \<Longrightarrow>
   \<forall>(k, f) \<in> set fs. num_pieces f = cast_int (length (piece_hashes f)) \<and> distinct (fm_peers f) \<Longrightarrow>
   \<exists>c'. fold (apply_record True) (map file_item fs) (s, c) = (s\<lparr>st_files := st_files s @ fs\<rparr>, c')"
proof (induction fs arbitrary: s c)
  case (Cons e fs)
  obtain k f where e: "e = (k, f)" by (cases e)
  let ?s = "s\<lparr>st_files := st_files s @ [(k, f)]\<rparr>"
  have "map_of (st_files s) k = None" using Cons.prems by (simp add: e map_of_eq_None_iff)
  then have "apply_record True (file_item e) (s, c) = (?s, True)"
    using Cons.prems by (cases f) (simp add: e file_item_def put_file_def update_new_key)
  moreover have "umap_ok (st_files ?s @ fs)" using Cons.prems by (auto simp: e)
  then have "\<exists>c'. fold (apply_record True) (map file_item fs) (?s, True) = (?s\<lparr>st_files := st_files ?s @ fs\<rparr>, c')"
    using Cons.prems(2) by (intro Cons.IH) auto
  ultimately show ?case by (simp add: e)
qed simp

lemma load_gfiles:
  "umap_ok (st_group_files s @ fs) \<Longrightarrow> \<forall>(gid, xs) \<in> set fs. distinct xs \<Longrightarrow>
   \<exists>c'. fold (apply_record True) (map gfile_item fs) (s, c) = (s\<lparr>st_group_files := st_group_files s @ fs\<rparr>, c')"
proof (induction fs arbitrary: s c)
  case (Cons e fs)
  obtain gid xs where e: "e = (gid, xs)" by (cases e)
  let ?s = "s\<lparr>st_group_files := st_group_files s @ [(gid, xs)]\<rparr>"
  have "map_of (st_group_files s) gid = None" using Cons.prems by (simp add: e map_of_eq_None_iff)
  then obtain c1 where "apply_record True (gfile_item e) (s, c) = (?s, c1)"
    using Cons.prems by (simp add: e gfile_item_def put_group_files_def update_new_key index_or_def)
  moreover have "umap_ok (st_group_files ?s @ fs)" using Cons.prems by (auto simp: e)
  then have "\<exists>c'. fold (apply_record True) (map gfile_item fs) (?s, c1) =
      (?s\<lparr>st_group_files := st_group_files ?s @ fs\<rparr>, c')"
    using Cons.prems(2) by (intro Cons.IH) auto
  ultimately show ?case by (simp add: e)
qed simp

lemma load_records:
  assumes "restorable st"
  shows "\<exists>c. fold (apply_record True) (records_of st) (cleared st0, False) =
    ((offline st)\<lparr>st_version := st_version st0\<rparr>, c)"
proof -
  let ?ps = "map (\<lambda>(n, p). (n, peer_logout p)) (st_peers st)"
  let ?s0 = "cleared st0"
  let ?s1 = "?s0\<lparr>st_peers := ?ps\<rparr>"
  let ?s2 = "?s1\<lparr>st_groups := st_groups st\<rparr>"
  let ?s3 = "?s2\<lparr>st_files := st_files st\<rparr>"
  let ?s4 = "?s3\<lparr>st_group_files := st_group_files st\<rparr>"
  note r = assms [unfolded restorable_def]
  obtain c1 where 1: "fold (apply_record True) (map user_item (st_peers st)) (?s0, False) = (?s1, c1)"
    using load_users [of ?s0 "st_peers st" False] r by (auto simp: cleared_def)
  obtain c2 where 2: "fold (apply_record True) (map group_item (st_groups st)) (?s1, c1) = (?s2, c2)"
    using load_groups [of ?s1 "st_groups st" c1] r by (auto simp: cleared_def)
  obtain c3 where 3: "fold (apply_record True) (map file_item (st_files st)) (?s2, c2) = (?s3, c3)"
    using load_files [of ?s2 "st_files st" c2] r by (auto simp: cleared_def)
  obtain c4 where 4: "fold (apply_record True) (map gfile_item (st_group_files st)) (?s3, c3) = (?s4, c4)"
    using load_gfiles [of ?s3 "st_group_files st" c3] r by (auto simp: cleared_def)
  have "?s4 = (offline st)\<lparr>st_version := st_version st0\<rparr>"
    by (cases st) (simp add: offline_def cleared_def)
  then show ?thesis by (simp add: records_of_def 1 2 3 4)
qed

lemma load_saved:
  assumes "wire_ok st" "sizes_ok st" "restorable st" "fs path = Some (Readable (serialize st))"
  shows "load_snapshot fs path st0 = ((offline st)\<lparr>st_version := st_version st0\<rparr>, True)"
  using load_records [OF assms(3), of st0] assms(4)
  by (auto simp: load_snapshot_def apply_serialize [OF assms(1,2)])

section \<open>Saving is atomic\<close>

lemma save_trace:
  assumes "save_snapshot io path st fs = (trace, ok)"
  shows "f \<in> set trace \<Longrightarrow> f path = fs path \<or> f path = Some (Readable (serialize st))"
    and "ok \<Longrightarrow> last trace path = Some (Readable (serialize st))"
    and "\<not> ok \<Longrightarrow> last trace path = fs path"
    and "f \<in> set trace \<Longrightarrow> other \<noteq> path \<Longrightarrow> other \<noteq> path @ ''.tmp'' \<Longrightarrow> f other = fs other"
  using assms by (auto simp: save_snapshot_def Let_def split: if_splits option.splits)

section \<open>Stored data is always writable\<close>

text \<open>
  The invariant of everything the tracker stores, whatever commands and whatever \<open>STATE\<close> payloads it
  has processed: names, hashes and file names are tokens, entries carry their keys, sets have no
  repetition. (An owner called \<open>-\<close> is possible, and is excluded separately where it matters.)
\<close>

definition peer_ok :: "string \<times> peer \<Rightarrow> bool" where
  "peer_ok e = (case e of (n, p) \<Rightarrow>
     is_word n \<and> peername p = n \<and> is_word (salt (password p)) \<and> is_word (pw_hash (password p)))"

definition group_ok :: "string \<times> group \<Rightarrow> bool" where
  "group_ok e = (case e of (gid, g) \<Rightarrow>
     is_word gid \<and> group_gid g = gid \<and> (groupmaster g = [] \<or> is_word (groupmaster g)) \<and>
     words (participants g) \<and> words (applicants g) \<and> distinct (participants g) \<and> distinct (applicants g))"

definition file_ok :: "string \<times> file_meta \<Rightarrow> bool" where
  "file_ok e = (case e of (k, f) \<Rightarrow>
     is_word k \<and> 0 \<le> fm_size f \<and> fm_size f \<le> LLONG_MAX \<and> is_word (fullhash f) \<and> words (piece_hashes f) \<and>
     words (fm_peers f) \<and> num_pieces f = cast_int (length (piece_hashes f)) \<and> distinct (fm_peers f))"

definition listing_ok :: "string \<times> uset \<Rightarrow> bool" where
  "listing_ok e = (case e of (gid, fs) \<Rightarrow> is_word gid \<and> words fs \<and> distinct fs)"

lemmas entry_ok_defs = peer_ok_def group_ok_def file_ok_def listing_ok_def

definition stored_ok :: "tracker_state \<Rightarrow> bool" where
  "stored_ok st \<longleftrightarrow>
     umap_ok (st_peers st) \<and> umap_ok (st_groups st) \<and> umap_ok (st_files st) \<and> umap_ok (st_group_files st) \<and>
     list_all peer_ok (st_peers st) \<and> list_all group_ok (st_groups st) \<and>
     list_all file_ok (st_files st) \<and> list_all listing_ok (st_group_files st)"

definition no_dash_owner :: "tracker_state \<Rightarrow> bool" where
  "no_dash_owner st \<longleftrightarrow> list_all (\<lambda>(gid, g). groupmaster g \<noteq> ''-'') (st_groups st)"

lemma list_all_update: "list_all P m \<Longrightarrow> P (k, v) \<Longrightarrow> list_all P (AList.update k v m)"
  by (induction m) auto

lemma list_all_map_of: "list_all P m \<Longrightarrow> map_of m k = Some v \<Longrightarrow> P (k, v)"
  by (auto simp: list_all_iff dest: map_of_SomeD)

lemma stored_ok_empty: "stored_ok empty_state"
  by (simp add: stored_ok_def empty_state_def)

lemma stored_ok_put:
  "stored_ok st \<Longrightarrow> peer_ok (n, p) \<Longrightarrow> stored_ok (put_peer n p st)"
  "stored_ok st \<Longrightarrow> group_ok (gid, g) \<Longrightarrow> stored_ok (put_group gid g st)"
  "stored_ok st \<Longrightarrow> file_ok (k, f) \<Longrightarrow> stored_ok (put_file k f st)"
  "stored_ok st \<Longrightarrow> listing_ok (gid, fs) \<Longrightarrow> stored_ok (put_group_files gid fs st)"
  "stored_ok (bump st) = stored_ok st"
  by (simp_all add: stored_ok_def list_all_update)

lemma stored_ok_lookup:
  assumes "stored_ok st"
  shows "map_of (st_peers st) n = Some p \<Longrightarrow> peer_ok (n, p)"
    and "map_of (st_groups st) gid = Some g \<Longrightarrow> group_ok (gid, g)"
    and "map_of (st_files st) k = Some f \<Longrightarrow> file_ok (k, f)"
    and "map_of (st_group_files st) gid = Some fs \<Longrightarrow> listing_ok (gid, fs)"
  using assms by (auto simp: stored_ok_def dest: list_all_map_of)

lemma stored_ok_wire_ok: "stored_ok st \<Longrightarrow> wire_ok st"
proof -
  have "is_word ''-''" by (simp add: is_word_def isspace_def)
  then show "stored_ok st \<Longrightarrow> wire_ok st"
    by (auto simp: stored_ok_def wire_ok_def records_of_def list_all_iff entry_ok_defs item_defs)
qed

lemma stored_ok_restorable: "stored_ok st \<Longrightarrow> no_dash_owner st \<Longrightarrow> restorable st"
  by (auto simp: stored_ok_def no_dash_owner_def restorable_def list_all_iff entry_ok_defs)

lemma stored_ok_cleared: "stored_ok (cleared st)"
  by (simp add: stored_ok_def cleared_def)

lemma words_uset_insert [simp]: "words (uset_insert x xs) \<longleftrightarrow> is_word x \<and> words xs"
  by (auto simp: words_def)

lemma words_uset_insert_range [simp]: "words (uset_insert_range ys xs) \<longleftrightarrow> words ys \<and> words xs"
  by (auto simp: words_def)

lemma words_uset_erase: "words xs \<Longrightarrow> words (uset_erase x xs)"
  by (auto simp: words_def)

lemma words_mem: "words xs \<Longrightarrow> x \<in> set xs \<Longrightarrow> is_word x"
  by (auto simp: words_def)

lemma stored_ok_apply_record:
  assumes "stored_ok st" "rec_ok r"
  shows "stored_ok (fst (apply_record replace r (st, c)))"
proof (cases r)
  case (User_rec n s h)
  then show ?thesis using assms by (auto simp: peer_ok_def new_peer_def intro!: stored_ok_put)
next
  case (Group_rec gid m ps as)
  show ?thesis
  proof (cases "map_of (st_groups st) gid")
    case None
    then show ?thesis using assms by (simp add: Group_rec group_ok_def new_group_def stored_ok_put)
  next
    case (Some g)
    have "group_ok (gid, g)" using stored_ok_lookup(2) [OF assms(1) Some] .
    then show ?thesis using assms Some by (simp add: Group_rec group_ok_def Let_def stored_ok_put)
  qed
next
  case (File_rec k sz h hs ss)
  show ?thesis
  proof (cases "map_of (st_files st) k")
    case None
    then show ?thesis using assms by (simp add: File_rec file_ok_def stored_ok_put)
  next
    case (Some f)
    have "file_ok (k, f)" using stored_ok_lookup(3) [OF assms(1) Some] .
    then show ?thesis using assms Some by (simp add: File_rec file_ok_def Let_def stored_ok_put)
  qed
next
  case (Gfile_rec gid fs)
  show ?thesis
  proof (cases "map_of (st_group_files st) gid")
    case None
    then show ?thesis using assms by (simp add: Gfile_rec listing_ok_def index_or_def Let_def stored_ok_put)
  next
    case (Some f)
    have "listing_ok (gid, f)" using stored_ok_lookup(4) [OF assms(1) Some] .
    then show ?thesis using assms Some by (simp add: Gfile_rec listing_ok_def index_or_def Let_def stored_ok_put)
  qed
qed (use assms in simp)

lemma take_list_set: "take_list t i = Some (xs, j) \<Longrightarrow> set xs \<subseteq> set t"
  by (auto simp: take_list_def split: if_splits option.splits dest!: in_set_takeD in_set_dropD)

lemma take_list_words: "words t \<Longrightarrow> take_list t i = Some (xs, j) \<Longrightarrow> words xs"
  using take_list_set by (fastforce simp: words_def)

lemma parse_record_ok: "words t \<Longrightarrow> parse_record t = Some r \<Longrightarrow> rec_ok r"
proof -
  assume t: "words t"
  have nth: "i < length t \<Longrightarrow> is_word (t ! i)" for i using t by (simp add: words_def)
  show "parse_record t = Some r \<Longrightarrow> rec_ok r"
    using take_list_words [OF t] nth parse_ll_bounds
    by (auto simp: parse_record_def split: if_splits option.splits)
qed

lemma stored_ok_run_records:
  "stored_ok (fst s) \<Longrightarrow> \<forall>t \<in> set ts. words t \<Longrightarrow> stored_ok (fst (snd (run_records replace ts s)))"
proof (induction ts arbitrary: s)
  case (Cons t ts)
  show ?case
  proof (cases "parse_record t")
    case (Some r)
    have "stored_ok (fst (apply_record replace r (fst s, snd s)))"
      using Cons.prems Some by (intro stored_ok_apply_record parse_record_ok [of t]) auto
    then show ?thesis using Some Cons by simp
  qed (use Cons in simp)
qed simp

lemma stored_ok_apply_records:
  "stored_ok st \<Longrightarrow> apply_records_locked data replace st = (ok, st', c) \<Longrightarrow> stored_ok st'"
  using stored_ok_run_records [of "(if replace then cleared st else st, False)" "map split_args (getlines data)" replace]
  by (auto simp: apply_records_locked_def stored_ok_cleared words_def dest: split_args_words split: if_splits)

lemma stored_ok_merge_from: "stored_ok st \<Longrightarrow> stored_ok (fst (merge_from data st))"
  using stored_ok_apply_records by (auto simp: merge_from_def stored_ok_put(5) split: prod.splits)

lemma stored_ok_load_snapshot: "stored_ok st \<Longrightarrow> stored_ok (fst (load_snapshot fs path st))"
  using stored_ok_apply_records by (fastforce simp: load_snapshot_def split: prod.splits option.splits disk_file.splits)

end
