(* ===== verification/Replication.thy ===== *)
theory Replication imports Snapshot
begin

text \<open>
  \<open>TrackerState::merge_from\<close> against its specification: merging the other tracker's state is set union
  on the facts both trackers share (everything but the identity of a group's owner, which each side
  keeps), the \<open>changed\<close> flag is raised exactly when the union is larger, and accounts and file metadata
  already present are never replaced. A replicated store with these laws converges and goes quiet.
\<close>

section \<open>Facts a record states\<close>

fun shared :: "fact \<Rightarrow> bool" where
  "shared (Owner g u) = False"
| "shared f = True"

definition shared_facts :: "tracker_state \<Rightarrow> fact set" where
  "shared_facts st = {f. shared f \<and> holds st f}"

lemma in_shared_facts [simp]: "f \<in> shared_facts st \<longleftrightarrow> shared f \<and> holds st f"
  by (simp add: shared_facts_def)

fun rec_facts :: "record_item \<Rightarrow> fact set" where
  "rec_facts Skipped = {}"
| "rec_facts (User_rec name s h) = {User name}"
| "rec_facts (Group_rec gid m ps as) =
     {Grp gid} \<union> (if m = ''-'' then {} else {Owned gid}) \<union> Member gid ` set ps \<union> Applicant gid ` set as"
| "rec_facts (File_rec k sz h hs ss) = {File k} \<union> Seeder k ` set ss"
| "rec_facts (Gfile_rec gid fs) = Listed gid ` set fs"

lemma shared_facts_cong: "(\<And>f. shared f \<Longrightarrow> holds a f \<longleftrightarrow> holds b f \<or> f \<in> R) \<Longrightarrow>
  (\<And>f. f \<in> R \<Longrightarrow> shared f) \<Longrightarrow> shared_facts a = shared_facts b \<union> R"
  by (auto simp: shared_facts_def)

lemma rec_facts_shared: "f \<in> rec_facts r \<Longrightarrow> shared f"
  by (cases r) (auto split: if_splits)

lemma shared_facts_bump [simp]: "shared_facts (bump st) = shared_facts st"
  using facts_bump [of st] by (auto simp: shared_facts_def facts_def set_eq_iff)

definition merged_group :: "string \<Rightarrow> string list \<Rightarrow> string list \<Rightarrow> group \<Rightarrow> group" where
  "merged_group m ps as g = g\<lparr>participants := uset_insert_range ps (participants g),
     applicants := uset_insert_range as (applicants g),
     groupmaster := (if groupmaster g = [] \<and> m \<noteq> ''-'' then m else groupmaster g)\<rparr>"

lemma grown_iff:
  "length ps + length as \<noteq> length (uset_insert_range xs ps) + length (uset_insert_range ys as) \<longleftrightarrow>
   \<not> (set xs \<subseteq> set ps \<and> set ys \<subseteq> set as)"
  using length_uset_insert_range_le [of ps xs] length_uset_insert_range_le [of as ys]
    length_uset_insert_range_eq [of xs ps] length_uset_insert_range_eq [of ys as]
  by linarith

lemma apply_known_group:
  assumes "map_of (st_groups st) gid = Some g"
  shows "apply_record replace (Group_rec gid m ps as) (st, c) =
    (put_group gid (merged_group m ps as g) st,
     c \<or> \<not> set ps \<subseteq> set (participants g) \<or> \<not> set as \<subseteq> set (applicants g) \<or> (groupmaster g = [] \<and> m \<noteq> ''-''))"
  using assms grown_iff [of "participants g" "applicants g" ps as]
  by (auto simp: merged_group_def Let_def)

lemma holds_merged_group:
  assumes "map_of (st_groups st) gid = Some g" "m \<noteq> []" "shared f"
  shows "holds (put_group gid (merged_group m ps as g) st) f \<longleftrightarrow> holds st f \<or> f \<in> rec_facts (Group_rec gid m ps as)"
  using assms unfolding holds_put_group
  by (cases f) (auto simp: merged_group_def partofgroup_def isapplicant_def group_exists_locked_def)

lemma holds_merged_new_group:
  assumes "map_of (st_groups st) gid = None" "m \<noteq> []" "shared f"
    "gr = new_group\<lparr>group_gid := gid, groupmaster := (if m = ''-'' then '''' else m),
       participants := uset_insert_range ps [], applicants := uset_insert_range as []\<rparr>"
  shows "holds (put_group gid gr st) f \<longleftrightarrow> holds st f \<or> f \<in> rec_facts (Group_rec gid m ps as)"
  using assms unfolding holds_put_group
  by (cases f) (auto simp: partofgroup_def isapplicant_def group_exists_locked_def)

lemma holds_merged_file:
  assumes "map_of (st_files st) k = Some fm"
  shows "holds (put_file k (fm\<lparr>fm_peers := uset_insert_range ss (fm_peers fm)\<rparr>) st) f \<longleftrightarrow>
    holds st f \<or> f \<in> rec_facts (File_rec k sz h hs ss)"
  using assms unfolding holds_put_file by (cases f) auto

lemma holds_merged_new_file:
  assumes "map_of (st_files st) k = None" "set (fm_peers fm) = set ss"
  shows "holds (put_file k fm st) f \<longleftrightarrow> holds st f \<or> f \<in> rec_facts (File_rec k sz h hs ss)"
  using assms unfolding holds_put_file by (cases f) auto

lemma holds_merged_listing:
  "holds (put_group_files gid (uset_insert_range fs (index_or [] (st_group_files st) gid)) st) f \<longleftrightarrow>
   holds st f \<or> f \<in> rec_facts (Gfile_rec gid fs)"
  unfolding holds_put_group_files
  by (cases f) (auto simp: index_or_def group_has_file_locked_def split: option.splits)

lemma apply_record_facts:
  assumes "rec_ok r" "apply_record False r (st, c) = (st', c')"
  shows "shared_facts st' = shared_facts st \<union> rec_facts r \<and> (c' \<longleftrightarrow> c \<or> \<not> rec_facts r \<subseteq> shared_facts st)"
proof (cases r)
  case Skipped
  then show ?thesis using assms by simp
next
  case (User_rec n s h)
  show ?thesis
  proof (cases "user_exists_locked st n")
    case True
    then show ?thesis using assms User_rec by (auto simp: shared_facts_def)
  next
    case False
    then have "st' = put_peer n (new_peer\<lparr>peername := n, password := \<lparr>salt = s, pw_hash = h\<rparr>, connected := False\<rparr>) st" "c'"
      using assms User_rec by auto
    moreover have "holds (put_peer n p st) f \<longleftrightarrow> f = User n \<or> holds st f" for f p
      using facts_put_new_peer [of n p st] by (auto simp: facts_def set_eq_iff)
    ultimately show ?thesis using False User_rec by (auto simp: shared_facts_def)
  qed
next
  case (Group_rec gid m ps as)
  then have m: "m \<noteq> []" using assms(1) by (auto simp: is_word_def)
  show ?thesis
  proof (cases "map_of (st_groups st) gid")
    case None
    define gr where "gr = new_group\<lparr>group_gid := gid, groupmaster := (if m = ''-'' then '''' else m),
       participants := uset_insert_range ps [], applicants := uset_insert_range as []\<rparr>"
    have "st' = put_group gid gr st" "c'" using assms(2) None Group_rec by (simp_all add: gr_def)
    moreover have "shared_facts (put_group gid gr st) = shared_facts st \<union> rec_facts r"
      unfolding Group_rec by (rule shared_facts_cong) (rule holds_merged_new_group [OF None m _ gr_def], assumption, rule rec_facts_shared)
    moreover have "\<not> rec_facts r \<subseteq> shared_facts st" using None Group_rec by (auto simp: group_exists_locked_def)
    ultimately show ?thesis by simp
  next
    case (Some g)
    then have st': "st' = put_group gid (merged_group m ps as g) st"
      and c': "c' \<longleftrightarrow> c \<or> \<not> set ps \<subseteq> set (participants g) \<or> \<not> set as \<subseteq> set (applicants g) \<or> (groupmaster g = [] \<and> m \<noteq> ''-'')"
      using assms(2) unfolding Group_rec apply_known_group [OF Some] by auto
    have "shared_facts st' = shared_facts st \<union> rec_facts r"
      unfolding st' Group_rec by (rule shared_facts_cong) (rule holds_merged_group [OF Some m], assumption, rule rec_facts_shared)
    moreover have "rec_facts r \<subseteq> shared_facts st \<longleftrightarrow>
        set ps \<subseteq> set (participants g) \<and> set as \<subseteq> set (applicants g) \<and> (m = ''-'' \<or> groupmaster g \<noteq> [])"
      using Some by (auto simp: Group_rec group_exists_locked_def partofgroup_def isapplicant_def)
    ultimately show ?thesis using c' by blast
  qed
next
  case (File_rec k sz h hs ss)
  show ?thesis
  proof (cases "map_of (st_files st) k")
    case None
    define fm where "fm = \<lparr>fm_size = sz, fullhash = h, num_pieces = cast_int (length hs), piece_hashes = hs,
        fm_peers = uset_insert_range ss []\<rparr>"
    have "st' = put_file k fm st" "c'" using assms(2) None File_rec by (simp_all add: fm_def)
    moreover have "set (fm_peers fm) = set ss" by (simp add: fm_def)
    moreover have "\<not> rec_facts r \<subseteq> shared_facts st" using None File_rec by auto
    ultimately show ?thesis
      using holds_merged_new_file [OF None] rec_facts_shared [of _ r] unfolding File_rec
      by (intro conjI shared_facts_cong) auto
  next
    case (Some fm)
    then have "st' = put_file k (fm\<lparr>fm_peers := uset_insert_range ss (fm_peers fm)\<rparr>) st"
      and "c' \<longleftrightarrow> c \<or> \<not> set ss \<subseteq> set (fm_peers fm)"
      using assms(2) File_rec length_uset_insert_range_eq [of ss "fm_peers fm"] by (auto simp: Let_def)
    moreover have "rec_facts r \<subseteq> shared_facts st \<longleftrightarrow> set ss \<subseteq> set (fm_peers fm)"
      using Some by (auto simp: File_rec)
    ultimately show ?thesis
      using holds_merged_file [OF Some] rec_facts_shared [of _ r] unfolding File_rec
      by (intro conjI shared_facts_cong) auto
  qed
next
  case (Gfile_rec gid fs)
  let ?l = "index_or [] (st_group_files st) gid"
  have "st' = put_group_files gid (uset_insert_range fs ?l) st" and "c' \<longleftrightarrow> c \<or> \<not> set fs \<subseteq> set ?l"
    using assms(2) Gfile_rec length_uset_insert_range_eq [of fs ?l] by (auto simp: Let_def)
  moreover have "rec_facts r \<subseteq> shared_facts st \<longleftrightarrow> set fs \<subseteq> set ?l"
    by (auto simp: Gfile_rec subset_iff listing_index_or simp del: holds.simps)
  ultimately show ?thesis
    using holds_merged_listing [of gid fs st] rec_facts_shared [of _ r] unfolding Gfile_rec
    by (intro conjI shared_facts_cong) auto
qed

section \<open>A whole merge\<close>

definition all_facts :: "record_item list \<Rightarrow> fact set" where
  "all_facts rs = (\<Union>r \<in> set rs. rec_facts r)"

lemma all_facts_simps [simp]:
  "all_facts [] = {}" "all_facts (r # rs) = rec_facts r \<union> all_facts rs"
  "all_facts (rs @ ss) = all_facts rs \<union> all_facts ss"
  by (auto simp: all_facts_def)

lemma apply_records_facts:
  "\<forall>r \<in> set rs. rec_ok r \<Longrightarrow> fold (apply_record False) rs (st, c) = (st', c') \<Longrightarrow>
   shared_facts st' = shared_facts st \<union> all_facts rs \<and> (c' \<longleftrightarrow> c \<or> \<not> all_facts rs \<subseteq> shared_facts st)"
proof (induction rs arbitrary: st c)
  case (Cons r rs)
  obtain st1 c1 where r: "apply_record False r (st, c) = (st1, c1)" by fastforce
  have 1: "shared_facts st1 = shared_facts st \<union> rec_facts r" "c1 \<longleftrightarrow> c \<or> \<not> rec_facts r \<subseteq> shared_facts st"
    using apply_record_facts [OF _ r] Cons.prems(1) by auto
  have "shared_facts st' = shared_facts st1 \<union> all_facts rs \<and> (c' \<longleftrightarrow> c1 \<or> \<not> all_facts rs \<subseteq> shared_facts st1)"
    using Cons.prems r by (intro Cons.IH) auto
  then show ?case using 1 by auto
qed simp

text \<open>
  The records a payload lists, up to its end. The code stops at the first malformed one, so what it adds is
  among them.
\<close>

definition listed_records :: "string \<Rightarrow> record_item list" where
  "listed_records data = List.map_filter parse_record (map split_args (getlines data))"

lemma run_records_facts:
  "\<forall>t \<in> set ts. words t \<Longrightarrow>
   shared_facts (fst (snd (run_records False ts (st, c)))) \<subseteq> shared_facts st \<union> all_facts (List.map_filter parse_record ts)"
proof (induction ts arbitrary: st c)
  case (Cons t ts)
  show ?case
  proof (cases "parse_record t")
    case (Some r)
    obtain st1 c1 where a: "apply_record False r (st, c) = (st1, c1)" by fastforce
    have "shared_facts st1 = shared_facts st \<union> rec_facts r"
      using apply_record_facts [OF parse_record_ok [OF _ Some] a] Cons.prems by auto
    moreover have "shared_facts (fst (snd (run_records False ts (st1, c1)))) \<subseteq> shared_facts st1 \<union> all_facts (List.map_filter parse_record ts)"
      using Cons.prems by (intro Cons.IH) simp
    ultimately show ?thesis using Some a by (auto simp: map_filter_simps simp del: in_shared_facts)
  qed (simp add: map_filter_simps)
qed (simp add: map_filter_simps)

lemma merge_from_facts: "shared_facts (fst (merge_from data st)) \<subseteq> shared_facts st \<union> all_facts (listed_records data)"
proof -
  have "\<forall>t \<in> set (map split_args (getlines data)). words t" by (auto simp: words_def dest: split_args_words)
  from run_records_facts [OF this, of st False] show ?thesis
    by (simp add: merge_from_def apply_records_locked_def listed_records_def case_prod_beta)
qed

lemma run_records_files:
  "map_of (st_files (fst (snd (run_records False ts s)))) k \<noteq> map_of (st_files (fst s)) k \<Longrightarrow>
   \<exists>sz h hs ss. File_rec k sz h hs ss \<in> set (List.map_filter parse_record ts)"
proof (induction ts arbitrary: s)
  case (Cons t ts)
  show ?case
  proof (cases "parse_record t")
    case (Some r)
    let ?s = "apply_record False r s"
    have "map_of (st_files (fst ?s)) k = map_of (st_files (fst s)) k \<or> (\<exists>sz h hs ss. r = File_rec k sz h hs ss)"
      by (cases s; cases r) (auto simp: put_defs Let_def split: option.splits)
    then show ?thesis using Cons.IH [of ?s] Cons.prems Some by (simp add: map_filter_simps) metis
  qed (use Cons.prems in simp)
qed simp

lemma merge_from_files:
  "map_of (st_files (fst (merge_from data st))) k \<noteq> map_of (st_files st) k \<Longrightarrow>
   \<exists>sz h hs ss. File_rec k sz h hs ss \<in> set (listed_records data)"
  using run_records_files [of "map split_args (getlines data)" "(st, False)" k]
  by (auto simp: merge_from_def apply_records_locked_def listed_records_def put_defs split: prod.splits if_splits)

lemma apply_record_version: "st_version (fst (apply_record replace r (st, c))) = st_version st"
  by (cases r) (auto simp: put_defs Let_def split: option.splits)

lemma apply_records_version: "st_version (fst (fold (apply_record replace) rs s)) = st_version (fst s)"
proof (induction rs arbitrary: s)
  case (Cons r rs)
  then show ?case using apply_record_version [of replace r "fst s" "snd s"] by simp
qed simp

text \<open>The facts the writer puts on the wire are the state's own.\<close>

lemma facts_of_map:
  "umap_ok m \<Longrightarrow> f \<in> all_facts (map h m) \<longleftrightarrow> (\<exists>k v. map_of m k = Some v \<and> f \<in> rec_facts (h (k, v)))"
  by (auto simp: all_facts_def umap_ok_mem_iff [symmetric])

lemma facts_of_records:
  assumes "restorable st"
  shows "all_facts (records_of st) = shared_facts st"
proof (rule set_eqI)
  fix f
  have r: "umap_ok (st_peers st)" "umap_ok (st_groups st)" "umap_ok (st_files st)" "umap_ok (st_group_files st)"
    using assms by (auto simp: restorable_def)
  have dash: "map_of (st_groups st) gid = Some g \<Longrightarrow> groupmaster g \<noteq> ''-''" for gid g
    using assms map_of_SomeD [of "st_groups st" gid g] by (auto simp: restorable_def)
  have "f \<in> all_facts (records_of st) \<longleftrightarrow> f \<in> all_facts (map user_item (st_peers st)) \<or>
      f \<in> all_facts (map group_item (st_groups st)) \<or> f \<in> all_facts (map file_item (st_files st)) \<or>
      f \<in> all_facts (map gfile_item (st_group_files st))"
    by (simp add: records_of_def)
  also have "\<dots> \<longleftrightarrow> shared f \<and> holds st f"
    unfolding facts_of_map [OF r(1)] facts_of_map [OF r(2)] facts_of_map [OF r(3)] facts_of_map [OF r(4)]
    by (cases f) (auto simp: lookup_defs partofgroup_def isapplicant_def item_defs image_iff
        split: option.splits if_splits dest: dash)
  finally show "f \<in> all_facts (records_of st) \<longleftrightarrow> f \<in> shared_facts st" by simp
qed

section \<open>The contract of a union replica\<close>

text \<open>
  A replicated store whose state has a view, a set; absorbing the payload of a good replica adds its
  view, and the version moves exactly when the view grows.
\<close>

locale union_replica =
  fixes view :: "'s \<Rightarrow> 'f set"
    and payload :: "'s \<Rightarrow> 'd"
    and absorb :: "'d \<Rightarrow> 's \<Rightarrow> 's"
    and version :: "'s \<Rightarrow> 'v"
    and good :: "'s \<Rightarrow> bool"
  assumes view_absorb: "good a \<Longrightarrow> view (absorb (payload a) b) = view b \<union> view a"
    and version_absorb: "good a \<Longrightarrow> version (absorb (payload a) b) = version b \<longleftrightarrow> view a \<subseteq> view b"
begin

lemma exchange: "good a \<Longrightarrow> good b \<Longrightarrow> view (absorb (payload a) b) = view (absorb (payload b) a)"
  by (auto simp: view_absorb)

lemma absorb_again: "good a \<Longrightarrow> view (absorb (payload a) (absorb (payload a) b)) = view (absorb (payload a) b)"
  by (auto simp: view_absorb)

text \<open>However often and in whatever order payloads arrive, the view is the union of all of them.\<close>

lemma gossip: "\<forall>a \<in> set as. good a \<Longrightarrow> view (fold (\<lambda>a s. absorb (payload a) s) as b) = view b \<union> (\<Union>a \<in> set as. view a)"
  by (induction as arbitrary: b) (auto simp: view_absorb)

text \<open>After one exchange neither side's version moves on a further payload of the other.\<close>

lemma quiet:
  assumes "good a" "good b" "b' = absorb (payload a) b" "a' = absorb (payload b) a" "good a'" "good b'"
  shows "version (absorb (payload a') b') = version b' \<and> version (absorb (payload b') a') = version a'"
  using assms view_absorb [of a b] view_absorb [of b a] version_absorb by auto

end

definition replica_ok :: "tracker_state \<Rightarrow> bool" where
  "replica_ok st \<longleftrightarrow> wire_ok st \<and> sizes_ok st \<and> restorable st"

lemma merge_serialized:
  assumes "replica_ok other"
  shows "snd (merge_from (serialize other) st)"
    and "shared_facts (fst (merge_from (serialize other) st)) = shared_facts st \<union> shared_facts other"
    and "st_version (fst (merge_from (serialize other) st)) =
      (if shared_facts other \<subseteq> shared_facts st then st_version st else st_version st + 1)"
proof -
  obtain st' c where f: "fold (apply_record False) (records_of other) (st, False) = (st', c)" by fastforce
  have ok: "\<forall>r \<in> set (records_of other). rec_ok r" and "restorable other"
    using assms by (auto simp: replica_ok_def wire_ok_def)
  then have facts: "shared_facts st' = shared_facts st \<union> shared_facts other" "c \<longleftrightarrow> \<not> shared_facts other \<subseteq> shared_facts st"
    using apply_records_facts [OF _ f] facts_of_records by auto
  have version: "st_version st' = st_version st"
    using apply_records_version [of False "records_of other" "(st, False)"] by (simp add: f)
  have run: "merge_from (serialize other) st = (if c then bump st' else st', True)"
    using assms by (simp add: merge_from_def apply_serialize replica_ok_def f)
  show "snd (merge_from (serialize other) st)" by (simp add: run)
  show "shared_facts (fst (merge_from (serialize other) st)) = shared_facts st \<union> shared_facts other"
    using facts by (simp add: run)
  show "st_version (fst (merge_from (serialize other) st)) =
      (if shared_facts other \<subseteq> shared_facts st then st_version st else st_version st + 1)"
    using facts version by (simp add: run bump_def)
qed

interpretation trackers: union_replica shared_facts serialize "\<lambda>d s. fst (merge_from d s)" st_version replica_ok
  by unfold_locales (auto simp: merge_serialized)

section \<open>What a merge never changes\<close>

text \<open>Accounts, owners and file metadata already present.\<close>

definition keeps_local :: "tracker_state \<Rightarrow> tracker_state \<Rightarrow> bool" where
  "keeps_local st st' \<longleftrightarrow>
     (\<forall>n p. map_of (st_peers st) n = Some p \<longrightarrow> map_of (st_peers st') n = Some p) \<and>
     (\<forall>gid g. map_of (st_groups st) gid = Some g \<longrightarrow>
        (\<exists>g'. map_of (st_groups st') gid = Some g' \<and> (groupmaster g \<noteq> [] \<longrightarrow> groupmaster g' = groupmaster g))) \<and>
     (\<forall>k f. map_of (st_files st) k = Some f \<longrightarrow>
        (\<exists>f'. map_of (st_files st') k = Some f' \<and> f'\<lparr>fm_peers := []\<rparr> = f\<lparr>fm_peers := []\<rparr>))"

lemma keeps_local_refl: "keeps_local st st"
  by (auto simp: keeps_local_def)

lemma keeps_local_trans: "keeps_local a b \<Longrightarrow> keeps_local b c \<Longrightarrow> keeps_local a c"
  unfolding keeps_local_def by (intro conjI allI impI; fastforce)

lemma keeps_local_apply: "keeps_local st (fst (apply_record False r (st, c)))"
proof (cases r)
  case (Group_rec gid m ps as)
  show ?thesis
    by (cases "map_of (st_groups st) gid")
       (auto simp: Group_rec keeps_local_def Let_def)
next
  case (File_rec k sz h hs ss)
  show ?thesis
    by (cases "map_of (st_files st) k")
       (auto simp: File_rec keeps_local_def Let_def)
qed (auto simp: keeps_local_def lookup_defs Let_def)

lemma keeps_local_run: "keeps_local (fst s) (fst (snd (run_records False ts s)))"
proof (induction ts arbitrary: s)
  case (Cons t ts)
  show ?case
  proof (cases "parse_record t")
    case (Some r)
    then show ?thesis
      using keeps_local_trans [OF _ Cons.IH [of "apply_record False r s"]] keeps_local_apply [of "fst s" r "snd s"] by simp
  qed (simp add: keeps_local_refl)
qed (simp add: keeps_local_refl)

lemma keeps_local_merge: "keeps_local st (fst (merge_from data st))"
  using keeps_local_run [of "(st, False)" "map split_args (getlines data)"]
  by (auto simp: merge_from_def apply_records_locked_def keeps_local_def split: prod.splits)

end
