(* ===== verification/Dispatch.thy ===== *)
theory Dispatch imports Tracker_Refinement Replication Session_Manager "HOL-Library.Signed_Division"
begin

text \<open>
  Models \<^verbatim>\<open>src/tracker/main.cpp\<close>: \<open>dispatch\<close>, which turns one tokenised command into a reply, and
  \<open>managepeer\<close>, the loop that serves one connection. The process-wide \<open>g_state\<close> and \<open>g_sessions\<close> are
  the record \<open>server\<close>; the world adds the open connections with the variables of their threads.

  Time (\<open>now\<close>, in seconds) and the bytes of the random generator (\<open>rand\<close>) are inputs of a step.
\<close>

section \<open>dispatch\<close>

record server =
  sv_state :: tracker_state
  sv_sessions :: sessions

definition kAuthErr :: string where
  "kAuthErr = ''ERROR: AUTH_REQUIRED - session invalid or expired, please log in again''"

definition bad_args :: string where "bad_args = ''-----Invalid Arguments-----''"
definition bad_upload :: string where "bad_upload = ''-----Invalid Arguments for upload_file-----''"

text \<open>\<open>g_state.method(...).message\<close>: the method's effect on the shared state, and its message.\<close>

definition reply_with :: "tracker_state \<times> result \<Rightarrow> server \<Rightarrow> server \<times> string" where
  "reply_with r sv = (sv\<lparr>sv_state := fst r\<rparr>, res_msg (snd r))"

text \<open>
  \<open>(fsize + kPieceSize - 1) / kPieceSize\<close> on \<open>long long\<close>: the sum is taken modulo 2^64, the division
  truncates towards zero.
\<close>

definition expected_pieces :: "int \<Rightarrow> int" where
  "expected_pieces fsize =
     sint (word_of_int (fsize + int kPieceSize - 1) :: 64 word) sdiv int kPieceSize"

definition dispatch_state :: "string \<Rightarrow> server \<Rightarrow> server \<times> string" where
  "dispatch_state raw sv =
     (if CHR '' '' \<notin> set raw then (sv, ''ERR empty state'')
      else (case merge_from (tl (dropWhile (\<lambda>c. c \<noteq> CHR '' '') raw)) (sv_state sv) of (st, ok) \<Rightarrow>
        (sv\<lparr>sv_state := st\<rparr>, if ok then ''OK'' else ''ERR malformed state'')))"

definition dispatch_login :: "openssl \<Rightarrow> rng \<Rightarrow> int \<Rightarrow> string list \<Rightarrow> string \<Rightarrow> server \<Rightarrow> server \<times> string" where
  "dispatch_login ssl rand now comds peer_ip sv =
     (if length comds \<noteq> 4 then (sv, ''-----Invalid Arguments for login-----'')
      else (case parse_int (comds ! 3) of
          None \<Rightarrow> (sv, ''-----Invalid Arguments for login-----'')
        | Some listen_port \<Rightarrow>
            if listen_port \<le> 0 \<or> 65535 < listen_port then (sv, ''-----Invalid Arguments for login-----'')
            else (case login ssl (comds ! 1) (comds ! 2) peer_ip (comds ! 3) (sv_state sv) of (st, r) \<Rightarrow>
              if \<not> res_ok r then (sv\<lparr>sv_state := st\<rparr>, res_msg r)
              else (case session_create rand now (comds ! 1) peer_ip (comds ! 3) (sv_sessions sv) of (sess, token) \<Rightarrow>
                let sv' = sv\<lparr>sv_state := st, sv_sessions := sess\<rparr> in
                if token = [] then (sv', ''------ Login failed: server entropy unavailable ------'')
                else (sv', ''OK '' @ token)))))"

definition dispatch_logout :: "string \<Rightarrow> server \<Rightarrow> server \<times> string" where
  "dispatch_logout token sv =
     (case session_destroy token (sv_sessions sv) of (sess, user) \<Rightarrow>
        let sv' = sv\<lparr>sv_sessions := sess\<rparr> in
        if user = [] then (sv', kAuthErr) else reply_with (logout user (sv_state sv')) sv')"

definition dispatch_upload :: "string list \<Rightarrow> string \<Rightarrow> server \<Rightarrow> server \<times> string" where
  "dispatch_upload comds user sv =
     (if length comds < 7 then (sv, bad_upload)
      else (case (parse_ll (comds ! 4), parse_int (comds ! 6)) of
          (Some fsize, Some pieces) \<Rightarrow>
            if fsize < 0 \<or> pieces < 0 then (sv, bad_upload)
            else if pieces \<noteq> expected_pieces fsize \<or> length comds \<noteq> nat pieces + 7 then (sv, bad_upload)
            else reply_with (upload_file (comds ! 2) (comds ! 3) user fsize (comds ! 5) pieces
                   (drop 7 comds) (sv_state sv)) sv
        | _ \<Rightarrow> (sv, bad_upload)))"

text \<open>The commands below the session check, for the user the token belongs to.\<close>

definition dispatch_session :: "string list \<Rightarrow> string \<Rightarrow> server \<Rightarrow> server \<times> string" where
  "dispatch_session comds user sv =
     (let cmd = comds ! 0; n = length comds; st = sv_state sv in
      if cmd = ''create_group'' then
        (if n \<noteq> 3 then (sv, bad_args) else reply_with (create_group (comds ! 2) user st) sv)
      else if cmd = ''join_group'' then
        (if n \<noteq> 3 then (sv, bad_args) else reply_with (join_group (comds ! 2) user st) sv)
      else if cmd = ''leave_group'' then
        (if n \<noteq> 3 then (sv, bad_args) else reply_with (leave_group (comds ! 2) user st) sv)
      else if cmd = ''list_requests'' then
        (if n \<noteq> 3 then (sv, bad_args) else (sv, res_msg (list_requests (comds ! 2) user st)))
      else if cmd = ''accept_request'' then
        (if n \<noteq> 4 then (sv, bad_args) else reply_with (accept_request (comds ! 2) (comds ! 3) user st) sv)
      else if cmd = ''reject_request'' then
        (if n \<noteq> 4 then (sv, bad_args) else reply_with (reject_request (comds ! 2) (comds ! 3) user st) sv)
      else if cmd = ''list_groups'' then (sv, res_msg (list_groups st))
      else if cmd = ''upload_file'' then dispatch_upload comds user sv
      else if cmd = ''list_files'' then
        (if n \<noteq> 3 then (sv, bad_args) else (sv, res_msg (list_files (comds ! 2) user st)))
      else if cmd = ''download_file'' then
        (if n \<noteq> 4 then (sv, ''-----Invalid Arguments for download_file-----'')
         else (sv, res_msg (download_file (comds ! 2) (comds ! 3) user st)))
      else if cmd = ''file_downloaded'' then
        (if n \<noteq> 4 then (sv, ''-----Invalid Arguments for file_downloaded-----'')
         else reply_with (file_downloaded (comds ! 2) (comds ! 3) user st) sv)
      else if cmd = ''stop_share'' then
        (if n \<noteq> 4 then (sv, ''-----Invalid Arguments for stop_share-----'')
         else reply_with (stop_share (comds ! 2) (comds ! 3) user st) sv)
      else (sv, ''Unrecognized command''))"

definition dispatch ::
  "openssl \<Rightarrow> rng \<Rightarrow> int \<Rightarrow> string list \<Rightarrow> string \<Rightarrow> string \<Rightarrow> server \<Rightarrow> server \<times> string" where
  "dispatch ssl rand now comds peer_ip raw sv =
     (let cmd = comds ! 0; n = length comds in
      if cmd = ''SYNC_REQ'' then (sv, serialize (sv_state sv))
      else if cmd = ''STATE'' then dispatch_state raw sv
      else if cmd = ''create_user'' then
        (if n \<noteq> 3 then (sv, bad_args)
         else reply_with (create_user ssl rand (comds ! 1) (comds ! 2) (sv_state sv)) sv)
      else if cmd = ''login'' then dispatch_login ssl rand now comds peer_ip sv
      else if n < 2 then (sv, kAuthErr)
      else if cmd = ''logout'' then dispatch_logout (comds ! 1) sv
      else (case session_username_for now (comds ! 1) (sv_sessions sv) of
          (sess, None) \<Rightarrow> (sv\<lparr>sv_sessions := sess\<rparr>, kAuthErr)
        | (sess, Some user) \<Rightarrow> dispatch_session comds user (sv\<lparr>sv_sessions := sess\<rparr>)))"

section \<open>managepeer\<close>

record connection =
  cn_peer_ip :: string
  session_user :: string
  session_token :: string

text \<open>What \<open>recv_framed\<close> delivers: a message, or the end of the connection.\<close>

datatype conn_input = Received string | Closed

text \<open>
  One round of the loop: the new server, the connection (\<open>None\<close> once the thread has returned) and the
  message sent back, if any.
\<close>

definition managepeer_step ::
  "openssl \<Rightarrow> rng \<Rightarrow> int \<Rightarrow> conn_input \<Rightarrow> connection \<Rightarrow> server \<Rightarrow> server \<times> connection option \<times> string option" where
  "managepeer_step ssl rand now inp cn sv =
     (case inp of
        Closed \<Rightarrow>
          let sess = (if session_token cn \<noteq> [] then fst (session_destroy (session_token cn) (sv_sessions sv))
                      else sv_sessions sv)
          in (sv\<lparr>sv_sessions := sess, sv_state := handle_disconnect (session_user cn) (sv_state sv)\<rparr>, None, None)
      | Received buff \<Rightarrow>
          let comds = split_args buff in
          if comds = [] then (sv, Some cn, Some ''Invalid command'')
          else (case dispatch ssl rand now comds (cn_peer_ip cn) buff sv of (sv', reply) \<Rightarrow>
            let cn' = (if comds ! 0 = ''login'' \<and> take 3 reply = ''OK ''
                       then cn\<lparr>session_user := comds ! 1, session_token := drop 3 reply\<rparr>
                       else if comds ! 0 = ''logout'' then cn\<lparr>session_user := '''', session_token := ''''\<rparr>
                       else cn)
            in (sv', Some cn', Some reply)))"

record world =
  wd_server :: server
  wd_conns :: "(nat \<times> connection) list"

datatype world_event =
    Accept nat string
  | Input rng int nat conn_input

text \<open>
  The accept loop starts a thread per connection, and drops one whose address is unknown; every other
  event is a round of one connection's thread. The descriptor of a new connection is not one in use.
\<close>

fun world_step :: "openssl \<Rightarrow> world_event \<Rightarrow> world \<Rightarrow> world" where
  "world_step ssl (Accept i ip) w =
     (if ip = [] \<or> map_of (wd_conns w) i \<noteq> None then w
      else w\<lparr>wd_conns := AList.update i \<lparr>cn_peer_ip = ip, session_user = '''', session_token = ''''\<rparr> (wd_conns w)\<rparr>)"
| "world_step ssl (Input rand now i inp) w =
     (case map_of (wd_conns w) i of None \<Rightarrow> w
      | Some cn \<Rightarrow>
          (case managepeer_step ssl rand now inp cn (wd_server w) of
             (sv, Some cn', _) \<Rightarrow> w\<lparr>wd_server := sv, wd_conns := AList.update i cn' (wd_conns w)\<rparr>
           | (sv, None, _) \<Rightarrow> w\<lparr>wd_server := sv, wd_conns := AList.delete i (wd_conns w)\<rparr>))"

definition fresh_world :: world where
  "fresh_world = \<lparr>wd_server = \<lparr>sv_state = empty_state, sv_sessions = []\<rparr>, wd_conns = []\<rparr>"

section \<open>What reaches the state\<close>

fun op_actor :: "tracker_op \<Rightarrow> string" where
  "op_actor (CreateUser u pw) = u"
| "op_actor (Login u pw ip port) = u"
| "op_actor (Logout u) = u"
| "op_actor (Disconnect u) = u"
| "op_actor (CreateGroup g u) = u"
| "op_actor (JoinGroup g u) = u"
| "op_actor (LeaveGroup g u) = u"
| "op_actor (AcceptRequest g a u) = u"
| "op_actor (RejectRequest g a u) = u"
| "op_actor (UploadFile g f u n h k hs) = u"
| "op_actor (FileDownloaded g f u) = u"
| "op_actor (StopShare g f u) = u"

fun op_words :: "tracker_op \<Rightarrow> bool" where
  "op_words (CreateGroup g u) = (is_word g \<and> is_word u)"
| "op_words (AcceptRequest g a u) = (is_word a \<and> is_word u)"
| "op_words (UploadFile g f u n h k hs) =
     (is_word g \<and> is_word f \<and> is_word u \<and> is_word h \<and> words hs \<and> 0 \<le> n \<and> n \<le> LLONG_MAX \<and>
      k = int (length hs) \<and> k \<le> INT_MAX)"
| "op_words op = is_word (op_actor op)"

lemma is_word_not_Nil [simp]: "is_word w \<Longrightarrow> w \<noteq> []"
  by (simp add: is_word_def)

lemma op_words_checked: "op_words op \<Longrightarrow> op_checked op"
  by (cases op) auto

lemma op_words_actor: "op_words op \<Longrightarrow> is_word (op_actor op)"
  by (cases op) auto

lemma cast_int_small: "int n \<le> INT_MAX \<Longrightarrow> cast_int n = int n"
proof -
  assume "int n \<le> INT_MAX"
  then have "signed_take_bit 31 (int n) = int n"
    by (intro signed_take_bit_int_eq_self) (simp_all add: INT_MAX_def)
  moreover have "int n mod 4294967296 = int n"
    using \<open>int n \<le> INT_MAX\<close> by (simp add: INT_MAX_def)
  ultimately show ?thesis by (simp add: cast_int_def sint_uint uint_nat unat_of_nat of_nat_mod)
qed

lemma is_word_append: "is_word a \<Longrightarrow> is_word b \<Longrightarrow> is_word (a @ b)"
  by (auto simp: is_word_def)

lemma file_key_word: "is_word g \<Longrightarrow> is_word f \<Longrightarrow> is_word (file_key g f)"
  by (auto simp: file_key_def is_word_def isspace_def)

lemma stored_ok_upload:
  assumes ok: "stored_ok st" and w: "op_words (UploadFile g f u n h k hs)"
  shows "stored_ok (fst (upload_file g f u n h k hs st))"
proof (cases "res_ok (snd (upload_file g f u n h k hs st))")
  case False
  then show ?thesis using ok rejected_unchanged [of undefined undefined "UploadFile g f u n h k hs" st] by simp
next
  case True
  define fm where "fm = index_or new_file_meta (st_files st) (file_key g f)"
  define fm' where "fm' = fm\<lparr>fm_size := n, fullhash := h, num_pieces := k, piece_hashes := resize (nat k) hs,
      fm_peers := uset_insert u (fm_peers fm)\<rparr>"
  define fs where "fs = index_or [] (st_group_files st) g"
  have "words (fm_peers fm) \<and> distinct (fm_peers fm)"
    using stored_ok_lookup(3) [OF ok, of "file_key g f"]
    by (cases "map_of (st_files st) (file_key g f)") (simp_all add: fm_def index_or_def new_file_meta_def file_ok_def)
  then have "file_ok (file_key g f, fm')"
    using w by (simp add: file_ok_def fm'_def file_key_word cast_int_small)
  moreover have "words fs \<and> distinct fs"
    using stored_ok_lookup(4) [OF ok, of g]
    by (cases "map_of (st_group_files st) g") (simp_all add: fs_def index_or_def listing_ok_def)
  ultimately have "stored_ok (put_group_files g (uset_insert f fs) (put_file (file_key g f) fm' st))"
    using ok w by (intro stored_ok_put) (simp_all add: listing_ok_def)
  moreover have "fst (upload_file g f u n h k hs st) =
      bump (put_group_files g (uset_insert f fs) (put_file (file_key g f) fm' st))"
    using True by (simp add: upload_file_def Let_def fm_def fm'_def fs_def split: if_splits option.splits)
  ultimately show ?thesis by (simp add: stored_ok_put)
qed

lemma group_ok_deluser: "group_ok (gid, g) \<Longrightarrow> group_ok (gid, deluser u g)"
proof -
  assume ok: "group_ok (gid, g)"
  let ?ps = "uset_erase u (participants g)"
  have "?ps \<noteq> [] \<Longrightarrow> is_word (hd ?ps)"
    using ok words_uset_erase [of "participants g" u] hd_in_set [of ?ps] by (simp add: group_ok_def words_mem)
  then show ?thesis
    using ok by (cases "u = groupmaster g") (simp_all add: group_ok_def deluser_def Let_def words_uset_erase)
qed

lemma stored_ok_run_op:
  assumes ok: "stored_ok st" and w: "op_words op"
  shows "stored_ok (fst (run_op ssl rand op st))"
proof (cases "\<exists>g f u n h k hs. op = UploadFile g f u n h k hs")
  case True
  then show ?thesis using stored_ok_upload [OF ok] w by auto
next
  case False
  have p: "map_of (st_peers st) n = Some q \<Longrightarrow>
      is_word n \<and> peername q = n \<and> is_word (salt (password q)) \<and> is_word (pw_hash (password q))" for n q
    using stored_ok_lookup(1) [OF ok, of n q] by (simp add: peer_ok_def)
  have g: "map_of (st_groups st) gid = Some gr \<Longrightarrow> group_ok (gid, gr)" for gid gr
    using stored_ok_lookup(2) [OF ok] .
  have f: "map_of (st_files st) k = Some fm \<Longrightarrow> file_ok (k, fm)" for k fm
    using stored_ok_lookup(3) [OF ok] .
  have app: "group_ok (gid, gr) \<Longrightarrow> words as \<Longrightarrow> distinct as \<Longrightarrow> group_ok (gid, gr\<lparr>applicants := as\<rparr>)" for gid gr as
    by (simp add: group_ok_def)
  have acc: "group_ok (gid, gr) \<Longrightarrow> is_word a \<Longrightarrow> group_ok (gid, acceptreq a gr)" for gid gr a
    by (simp add: group_ok_def acceptreq_def words_uset_erase)
  have seed: "file_ok (k, fm) \<Longrightarrow> words ps \<Longrightarrow> distinct ps \<Longrightarrow> file_ok (k, fm\<lparr>fm_peers := ps\<rparr>)" for k fm ps
    by (simp add: file_ok_def)
  have gw: "map_of (st_groups st) gid = Some gr \<Longrightarrow> words (applicants gr) \<and> distinct (applicants gr)" for gid gr
    using g [of gid gr] by (simp add: group_ok_def)
  have fw: "map_of (st_files st) k = Some fm \<Longrightarrow> words (fm_peers fm) \<and> distinct (fm_peers fm)" for k fm
    using f [of k fm] by (simp add: file_ok_def)
  show ?thesis
  proof (cases op)
    case (CreateUser u pw)
    then show ?thesis using ok w hash_password_words [of ssl rand pw]
      by (simp add: create_user_def Let_def new_peer_def stored_ok_put peer_ok_def)
  next
    case (CreateGroup gid u)
    then show ?thesis using ok w
      by (simp add: create_group_def new_group_def stored_ok_put group_ok_def)
  qed (use False ok w in \<open>auto simp: op_defs Let_def stored_ok_put(5) peer_ok_def peer_login_def peer_logout_def
      dest: p g f gw fw split: option.splits
      intro!: stored_ok_put app acc seed group_ok_deluser words_uset_erase distinct_uset_erase\<close>)
qed

section \<open>Who a command acts for\<close>

definition sessions_ok :: "sessions \<Rightarrow> bool" where
  "sessions_ok sess \<longleftrightarrow> umap_ok sess \<and> list_all (\<lambda>(t, i). is_word t \<and> is_word (si_username i)) sess"

definition server_ok :: "server \<Rightarrow> bool" where
  "server_ok sv \<longleftrightarrow> stored_ok (sv_state sv) \<and> sessions_ok (sv_sessions sv)"

text \<open>
  \<open>create_user\<close> and \<open>login\<close> act for the user they name (a password guards \<open>login\<close>); every other command
  acts for the user whose session token it carries. \<open>logout\<close> accepts an expired token.
\<close>

definition acts_as :: "int \<Rightarrow> string list \<Rightarrow> server \<Rightarrow> string \<Rightarrow> bool" where
  "acts_as now comds sv u \<longleftrightarrow>
     (if comds ! 0 = ''create_user'' \<or> comds ! 0 = ''login'' then 1 < length comds \<and> comds ! 1 = u
      else 1 < length comds \<and>
        (case map_of (sv_sessions sv) (comds ! 1) of None \<Rightarrow> False
         | Some info \<Rightarrow> si_username info = u \<and> (comds ! 0 = ''logout'' \<or> now < expires_at info)))"

definition effect_of :: "openssl \<Rightarrow> rng \<Rightarrow> string \<Rightarrow> server \<Rightarrow> server \<Rightarrow> bool" where
  "effect_of ssl rand u sv sv' \<longleftrightarrow>
     sv_state sv' = sv_state sv \<or>
     (\<exists>op. op_words op \<and> op_actor op = u \<and> sv_state sv' = fst (run_op ssl rand op (sv_state sv)))"

lemma effect_opI:
  "op_words op \<Longrightarrow> op_actor op = u \<Longrightarrow> run_op ssl rand op (sv_state sv) = r \<Longrightarrow>
   effect_of ssl rand u sv (fst (reply_with r sv'))"
  by (auto simp: effect_of_def reply_with_def)

lemma effect_same [simp]: "sv_state sv' = sv_state sv \<Longrightarrow> effect_of ssl rand u sv sv'"
  by (simp add: effect_of_def)

lemma effect_if:
  "(b \<Longrightarrow> effect_of ssl rand u sv (fst x)) \<Longrightarrow> (\<not> b \<Longrightarrow> effect_of ssl rand u sv (fst y)) \<Longrightarrow>
   effect_of ssl rand u sv (fst (if b then x else y))"
  by simp

lemma reply_with_sessions [simp]: "sv_sessions (fst (reply_with r sv)) = sv_sessions sv"
  by (simp add: reply_with_def)

lemma sessions_ok_lookup: "sessions_ok sess \<Longrightarrow> map_of sess t = Some i \<Longrightarrow> is_word t \<and> is_word (si_username i)"
  by (auto simp: sessions_ok_def dest: list_all_map_of)

lemma list_all_delete: "list_all P m \<Longrightarrow> list_all P (AList.delete k m)"
  by (induction m) auto

lemma sessions_ok_lookup_kept: "sessions_ok sess \<Longrightarrow> sessions_ok (fst (session_username_for now t sess))"
  by (auto simp: session_username_for_lookup session_lookup_def sessions_ok_def list_all_delete split: option.splits)

lemma sessions_ok_destroy: "sessions_ok sess \<Longrightarrow> sessions_ok (fst (session_destroy t sess))"
  by (auto simp: session_destroy_def sessions_ok_def list_all_delete split: option.splits)

lemma sessions_ok_create:
  "sessions_ok sess \<Longrightarrow> is_word u \<Longrightarrow> sessions_ok (fst (session_create rand now u ip port sess))"
  by (auto simp: session_create_def sessions_ok_def Let_def intro!: list_all_update random_hex_word)

lemma word_arg: "words comds \<Longrightarrow> i < length comds \<Longrightarrow> is_word (comds ! i)"
  by (simp add: words_def)

text \<open>Which method a command with a live token runs, and with which of its words.\<close>

fun command_runs :: "string list \<Rightarrow> string \<Rightarrow> tracker_op \<Rightarrow> bool" where
  "command_runs comds u (CreateGroup g v) \<longleftrightarrow> comds ! 0 = ''create_group'' \<and> g = comds ! 2 \<and> v = u"
| "command_runs comds u (JoinGroup g v) \<longleftrightarrow> comds ! 0 = ''join_group'' \<and> g = comds ! 2 \<and> v = u"
| "command_runs comds u (LeaveGroup g v) \<longleftrightarrow> comds ! 0 = ''leave_group'' \<and> g = comds ! 2 \<and> v = u"
| "command_runs comds u (AcceptRequest g a v) \<longleftrightarrow> comds ! 0 = ''accept_request'' \<and> g = comds ! 2 \<and> a = comds ! 3 \<and> v = u"
| "command_runs comds u (RejectRequest g a v) \<longleftrightarrow> comds ! 0 = ''reject_request'' \<and> g = comds ! 2 \<and> a = comds ! 3 \<and> v = u"
| "command_runs comds u (UploadFile g f v n h k hs) \<longleftrightarrow> comds ! 0 = ''upload_file'' \<and> g = comds ! 2 \<and> f = comds ! 3 \<and> v = u"
| "command_runs comds u (FileDownloaded g f v) \<longleftrightarrow> comds ! 0 = ''file_downloaded'' \<and> g = comds ! 2 \<and> f = comds ! 3 \<and> v = u"
| "command_runs comds u (StopShare g f v) \<longleftrightarrow> comds ! 0 = ''stop_share'' \<and> g = comds ! 2 \<and> f = comds ! 3 \<and> v = u"
| "command_runs comds u op \<longleftrightarrow> False"

definition session_effect :: "openssl \<Rightarrow> rng \<Rightarrow> string list \<Rightarrow> string \<Rightarrow> server \<Rightarrow> server \<Rightarrow> bool" where
  "session_effect ssl rand comds u sv sv' \<longleftrightarrow> sv_state sv' = sv_state sv \<or>
     (\<exists>op. command_runs comds u op \<and> op_words op \<and> sv_state sv' = fst (run_op ssl rand op (sv_state sv)))"

lemma session_effectI:
  "command_runs comds u op \<Longrightarrow> op_words op \<Longrightarrow> run_op ssl rand op (sv_state sv) = r \<Longrightarrow>
   session_effect ssl rand comds u sv (fst (reply_with r sv'))"
  by (auto simp: session_effect_def reply_with_def)

lemma session_effect_if:
  "(b \<Longrightarrow> session_effect ssl rand comds u sv (fst x)) \<Longrightarrow> (\<not> b \<Longrightarrow> session_effect ssl rand comds u sv (fst y)) \<Longrightarrow>
   session_effect ssl rand comds u sv (fst (if b then x else y))"
  by simp

lemma upload_session_effect:
  assumes "words comds" "is_word u" "comds ! 0 = ''upload_file''"
  shows "session_effect ssl rand comds u sv (fst (dispatch_upload comds u sv))"
proof (cases "sv_state (fst (dispatch_upload comds u sv)) = sv_state sv")
  case False
  obtain fsize pieces where p: "parse_ll (comds ! 4) = Some fsize" "parse_int (comds ! 6) = Some pieces"
    "0 \<le> fsize" "0 \<le> pieces" "length comds = nat pieces + 7"
    and d: "dispatch_upload comds u sv = reply_with (upload_file (comds ! 2) (comds ! 3) u fsize (comds ! 5)
      pieces (drop 7 comds) (sv_state sv)) sv"
    using False by (auto simp: dispatch_upload_def split: if_splits option.splits)
  have "words (drop 7 comds)" using assms(1) by (auto simp: words_def dest: in_set_dropD)
  then have w: "op_words (UploadFile (comds ! 2) (comds ! 3) u fsize (comds ! 5) pieces (drop 7 comds))"
    using p assms parse_ll_bounds [OF p(1)] by (auto simp: word_arg parse_int_parse_ll)
  show ?thesis unfolding d by (rule session_effectI [OF _ w]) (simp_all add: assms(3))
qed (simp add: session_effect_def)

lemma dispatch_session_effect:
  assumes "words comds" "is_word u"
  shows "session_effect ssl rand comds u sv (fst (dispatch_session comds u sv))"
proof -
  have ops: "comds ! 0 = ''create_group'' \<Longrightarrow> is_word (comds ! 2) \<Longrightarrow>
      session_effect ssl rand comds u sv (fst (reply_with (create_group (comds ! 2) u (sv_state sv)) sv))"
    "comds ! 0 = ''join_group'' \<Longrightarrow> session_effect ssl rand comds u sv (fst (reply_with (join_group (comds ! 2) u (sv_state sv)) sv))"
    "comds ! 0 = ''leave_group'' \<Longrightarrow> session_effect ssl rand comds u sv (fst (reply_with (leave_group (comds ! 2) u (sv_state sv)) sv))"
    "comds ! 0 = ''accept_request'' \<Longrightarrow> is_word (comds ! 3) \<Longrightarrow>
      session_effect ssl rand comds u sv (fst (reply_with (accept_request (comds ! 2) (comds ! 3) u (sv_state sv)) sv))"
    "comds ! 0 = ''reject_request'' \<Longrightarrow>
      session_effect ssl rand comds u sv (fst (reply_with (reject_request (comds ! 2) (comds ! 3) u (sv_state sv)) sv))"
    "comds ! 0 = ''file_downloaded'' \<Longrightarrow>
      session_effect ssl rand comds u sv (fst (reply_with (file_downloaded (comds ! 2) (comds ! 3) u (sv_state sv)) sv))"
    "comds ! 0 = ''stop_share'' \<Longrightarrow>
      session_effect ssl rand comds u sv (fst (reply_with (stop_share (comds ! 2) (comds ! 3) u (sv_state sv)) sv))"
    using assms(2) by (auto intro: session_effectI [of _ _ "CreateGroup (comds ! 2) u"] session_effectI [of _ _ "JoinGroup (comds ! 2) u"]
      session_effectI [of _ _ "LeaveGroup (comds ! 2) u"] session_effectI [of _ _ "AcceptRequest (comds ! 2) (comds ! 3) u"]
      session_effectI [of _ _ "RejectRequest (comds ! 2) (comds ! 3) u"] session_effectI [of _ _ "FileDownloaded (comds ! 2) (comds ! 3) u"]
      session_effectI [of _ _ "StopShare (comds ! 2) (comds ! 3) u"])
  have same: "session_effect ssl rand comds u sv (fst (sv, m))" for m by (simp add: session_effect_def)
  show ?thesis
    unfolding dispatch_session_def Let_def
    by (intro session_effect_if ops upload_session_effect word_arg assms same; simp)
qed

lemma effect_session:
  assumes "words comds" "is_word user"
  shows "effect_of ssl rand user sv (fst (dispatch_session comds user sv))"
proof -
  have "op_actor op = user" if "command_runs comds user op" for op using that by (cases op) auto
  then show ?thesis
    using dispatch_session_effect [OF assms, of ssl rand sv] unfolding session_effect_def effect_of_def by blast
qed

lemma effect_login:
  assumes "words comds"
  shows "effect_of ssl rand (comds ! 1) sv (fst (dispatch_login ssl rand now comds ip sv))"
proof (cases "fst (dispatch_login ssl rand now comds ip sv) = sv")
  case False
  then have "length comds = 4" by (auto simp: dispatch_login_def split: if_splits)
  then have "op_words (Login (comds ! 1) (comds ! 2) ip (comds ! 3))" using assms by (simp add: word_arg)
  moreover have "sv_state (fst (dispatch_login ssl rand now comds ip sv)) =
      fst (login ssl (comds ! 1) (comds ! 2) ip (comds ! 3) (sv_state sv)) \<or>
    sv_state (fst (dispatch_login ssl rand now comds ip sv)) = sv_state sv"
    by (auto simp: dispatch_login_def Let_def split: prod.splits option.splits)
  ultimately show ?thesis
    unfolding effect_of_def using run_op.simps(2) op_actor.simps(2) by metis
qed simp

lemma effect_logout:
  assumes "sessions_ok (sv_sessions sv)"
  shows "sv_state (fst (dispatch_logout t sv)) = sv_state sv \<or>
    (\<exists>info. map_of (sv_sessions sv) t = Some info \<and> effect_of ssl rand (si_username info) sv (fst (dispatch_logout t sv)))"
proof (cases "map_of (sv_sessions sv) t")
  case None
  then show ?thesis by (simp add: dispatch_logout_def session_destroy_def)
next
  case (Some info)
  then have "op_words (Logout (si_username info))" using sessions_ok_lookup [OF assms Some] by simp
  then show ?thesis using Some
    by (auto simp: dispatch_logout_def session_destroy_def Let_def reply_with_def effect_of_def
        intro!: exI [of _ "Logout (si_username info)"])
qed

lemma username_for_Some:
  "session_username_for now t sess = (sess', Some u) \<Longrightarrow>
   \<exists>info. map_of sess t = Some info \<and> si_username info = u \<and> now < expires_at info"
  by (auto simp: session_username_for_def session_lookup_def split: option.splits if_splits)

lemma effect_of_sessions [simp]: "effect_of ssl rand u (sv\<lparr>sv_sessions := sess\<rparr>) sv' = effect_of ssl rand u sv sv'"
  by (simp add: effect_of_def)

text \<open>Apart from replication, a command changes the state only by one method, run for the user it acts for.\<close>

lemma dispatch_effect:
  assumes w: "words comds" and ok: "sessions_ok (sv_sessions sv)" and cmd: "comds ! 0 \<noteq> ''STATE''"
    and d: "fst (dispatch ssl rand now comds ip raw sv) = sv'"
  shows "sv_state sv' = sv_state sv \<or> (\<exists>u. acts_as now comds sv u \<and> effect_of ssl rand u sv sv')"
proof -
  consider "comds ! 0 = ''SYNC_REQ''" | (user) "comds ! 0 = ''create_user''" "length comds = 3"
    | "comds ! 0 = ''create_user''" "length comds \<noteq> 3"
    | (login) "comds ! 0 = ''login''" "length comds = 4" | "comds ! 0 = ''login''" "length comds \<noteq> 4"
    | (rest) "comds ! 0 \<notin> {''SYNC_REQ'', ''create_user'', ''login''}" by blast
  then show ?thesis
  proof cases
    case user
    then have "effect_of ssl rand (comds ! 1) sv sv'"
      using d w by (auto simp: dispatch_def word_arg intro: effect_opI [of "CreateUser (comds ! 1) (comds ! 2)"])
    moreover have "acts_as now comds sv (comds ! 1)" using user by (simp add: acts_as_def)
    ultimately show ?thesis by blast
  next
    case login
    then have "effect_of ssl rand (comds ! 1) sv sv'"
      using d effect_login [OF w, of ssl rand sv now ip] by (simp add: dispatch_def)
    moreover have "acts_as now comds sv (comds ! 1)" using login by (simp add: acts_as_def)
    ultimately show ?thesis by blast
  next
    case rest
    show ?thesis
    proof (cases "length comds < 2 \<or> comds ! 0 = ''logout''")
      case True
      show ?thesis
      proof (cases "length comds < 2")
        case True
        then show ?thesis using rest cmd d by (simp add: dispatch_def)
      next
        case False
        then have "sv' = fst (dispatch_logout (comds ! 1) sv)" "comds ! 0 = ''logout''" "1 < length comds"
          using True d by (simp_all add: dispatch_def)
        then show ?thesis
          using effect_logout [OF ok, of "comds ! 1" ssl rand] by (auto simp: acts_as_def)
      qed
    next
      case False
      obtain sess r where s: "session_username_for now (comds ! 1) (sv_sessions sv) = (sess, r)" by fastforce
      show ?thesis
      proof (cases r)
        case None
        then show ?thesis using rest cmd d False s by (auto simp: dispatch_def Let_def)
      next
        case (Some u)
        then obtain info where i: "map_of (sv_sessions sv) (comds ! 1) = Some info" "si_username info = u" "now < expires_at info"
          using username_for_Some s by blast
        then have "is_word u" using sessions_ok_lookup [OF ok] by blast
        then have "effect_of ssl rand u sv sv'"
          using rest cmd d False s Some effect_session [OF w, of u ssl rand "sv\<lparr>sv_sessions := sess\<rparr>"]
          by (auto simp: dispatch_def Let_def)
        moreover have "acts_as now comds sv u" using rest False i by (simp add: acts_as_def)
        ultimately show ?thesis by blast
      qed
    qed
  qed (use d in \<open>simp_all add: dispatch_def dispatch_login_def\<close>)
qed

lemma dispatch_session_sessions: "sv_sessions (fst (dispatch_session comds u sv)) = sv_sessions sv"
  by (auto simp: dispatch_session_def dispatch_upload_def Let_def split: option.splits)

lemma dispatch_sessions_ok:
  assumes w: "words comds" and ok: "sessions_ok (sv_sessions sv)"
  shows "sessions_ok (sv_sessions (fst (dispatch ssl rand now comds ip raw sv)))"
proof -
  have "sessions_ok (sv_sessions (fst (dispatch_login ssl rand now comds ip sv)))"
    using ok w sessions_ok_create [OF ok, of "comds ! 1" rand now ip "comds ! 3"]
    by (auto simp: dispatch_login_def Let_def word_arg split: prod.splits option.splits)
  moreover have "sessions_ok (sv_sessions (fst (dispatch_logout t sv)))" for t
    using ok sessions_ok_destroy [OF ok, of t] by (auto simp: dispatch_logout_def Let_def split: prod.splits)
  moreover have "sessions_ok (sv_sessions (fst (dispatch_state raw sv)))"
    using ok by (auto simp: dispatch_state_def split: prod.splits)
  ultimately show ?thesis
    using ok sessions_ok_lookup_kept [OF ok, of now "comds ! 1"]
    by (auto simp: dispatch_def Let_def dispatch_session_sessions split: prod.splits option.splits)
qed

lemma dispatch_ok:
  assumes w: "words comds" and ok: "server_ok sv"
  shows "server_ok (fst (dispatch ssl rand now comds ip raw sv))"
proof -
  let ?sv = "fst (dispatch ssl rand now comds ip raw sv)"
  have "stored_ok (sv_state ?sv)"
  proof (cases "comds ! 0 = ''STATE''")
    case True
    then show ?thesis using ok stored_ok_merge_from [of "sv_state sv"]
      by (auto simp: dispatch_def dispatch_state_def server_ok_def split: prod.splits) (metis fst_conv)
  next
    case False
    then show ?thesis
      using dispatch_effect [OF w _ False refl, of sv ssl rand now ip raw] ok stored_ok_run_op
      by (auto simp: server_ok_def effect_of_def)
  qed
  then show ?thesis using dispatch_sessions_ok [OF w] ok by (simp add: server_ok_def)
qed

section \<open>The world keeps its invariant\<close>

definition conn_ok :: "nat \<times> connection \<Rightarrow> bool" where
  "conn_ok e = (case e of (i, cn) \<Rightarrow> session_user cn = [] \<or> is_word (session_user cn))"

definition world_ok :: "world \<Rightarrow> bool" where
  "world_ok w \<longleftrightarrow> server_ok (wd_server w) \<and> list_all conn_ok (wd_conns w)"

lemma split_args_are_words: "words (split_args s)"
  using split_args_words by (auto simp: words_def)

lemma stored_ok_disconnect:
  "stored_ok st \<Longrightarrow> u = [] \<or> is_word u \<Longrightarrow> stored_ok (handle_disconnect u st)"
  using stored_ok_run_op [of st "Disconnect u" undefined undefined] by (auto simp: handle_disconnect_def)

lemma login_reply:
  assumes "dispatch ssl rand now comds ip raw sv = (sv', reply)" "comds ! 0 = ''login''" "take 3 reply = ''OK ''"
  shows "length comds = 4 \<and> drop 3 reply = random_hex rand kTokenBytes \<and> drop 3 reply \<noteq> [] \<and>
    dispatch_login ssl rand now comds ip sv = (sv', reply)"
proof -
  have d: "dispatch_login ssl rand now comds ip sv = (sv', reply)" using assms(1,2) by (simp add: dispatch_def)
  then show ?thesis
    using assms(3) session_create_token [of rand now "comds ! 1" ip "comds ! 3" "sv_sessions sv"]
    by (auto simp: dispatch_login_def Let_def login_def split: if_splits option.splits prod.splits)
qed

lemma managepeer_ok:
  assumes "server_ok sv" "conn_ok (i, cn)" "managepeer_step ssl rand now inp cn sv = (sv', ocn, reply)"
  shows "server_ok sv' \<and> (case ocn of None \<Rightarrow> True | Some cn' \<Rightarrow> conn_ok (i, cn'))"
proof (cases inp)
  case Closed
  then show ?thesis using assms stored_ok_disconnect [of "sv_state sv" "session_user cn"] sessions_ok_destroy
    by (auto simp: managepeer_step_def server_ok_def conn_ok_def)
next
  case (Received buff)
  obtain sv1 r where d: "dispatch ssl rand now (split_args buff) (cn_peer_ip cn) buff sv = (sv1, r)" by fastforce
  have "server_ok sv1" using dispatch_ok [OF split_args_are_words assms(1)] d by (metis fst_conv)
  moreover have "split_args buff ! 0 = ''login'' \<Longrightarrow> take 3 r = ''OK '' \<Longrightarrow> is_word (split_args buff ! 1)"
    using login_reply [OF d] split_args_nth by simp
  ultimately show ?thesis using assms Received d
    by (auto simp: managepeer_step_def Let_def conn_ok_def split: if_splits)
qed

lemma world_ok_step: "world_ok w \<Longrightarrow> world_ok (world_step ssl e w)"
proof (cases e)
  case (Accept i ip)
  then show "world_ok w \<Longrightarrow> world_ok (world_step ssl e w)"
    by (auto simp: world_ok_def conn_ok_def intro!: list_all_update)
next
  case (Input rand now i inp)
  assume w: "world_ok w"
  show ?thesis
  proof (cases "map_of (wd_conns w) i")
    case (Some cn)
    then have "conn_ok (i, cn)" using w by (auto simp: world_ok_def dest: list_all_map_of)
    then show ?thesis
      using w Some Input managepeer_ok [of "wd_server w" i cn ssl rand now inp]
      by (auto simp: world_ok_def list_all_delete intro!: list_all_update split: prod.splits option.splits)
  qed (use w Input in simp)
qed

interpretation tracker_world: invariant_machine fresh_world "world_step ssl" world_ok for ssl
  by unfold_locales
    (simp add: fresh_world_def world_ok_def server_ok_def sessions_ok_def stored_ok_empty, rule world_ok_step)

text \<open>A tracker that started from any snapshot file, good or not, also keeps the invariant.\<close>

definition booted :: "filesystem \<Rightarrow> string \<Rightarrow> world" where
  "booted fs path = fresh_world\<lparr>wd_server := (wd_server fresh_world)\<lparr>sv_state := fst (load_snapshot fs path empty_state)\<rparr>\<rparr>"

lemma booted_ok: "world_ok (booted fs path)"
  by (simp add: booted_def fresh_world_def world_ok_def server_ok_def sessions_ok_def
      stored_ok_load_snapshot stored_ok_empty)

lemma reachable_stored_ok: "stored_ok (sv_state (wd_server (fold (world_step ssl) es (booted fs path))))"
  using tracker_world.run_from [OF booted_ok] by (simp add: world_ok_def server_ok_def)

end
