(* ===== verification/Examples.thy ===== *)
theory Examples imports Dispatch
begin

text \<open>
  Concrete values used by the witnesses: a digest and a random generator that compute, a small tracker
  state with two members of a group, one applicant and one shared file, and the sessions of its users.
\<close>

definition demo_ssl :: openssl where
  "demo_ssl = \<lparr>evp_sha1 = (\<lambda>d. Some [of_nat (length d)]), evp_sha256 = (\<lambda>d. Some [of_nat (length d)])\<rparr>"

definition demo_rand :: rng where
  "demo_rand n = Some (replicate n 1)"

definition demo_peer :: "string \<Rightarrow> bool \<Rightarrow> peer" where
  "demo_peer n c = \<lparr>hostip = (if c then ''10.0.0.1'' else ''''), hostport = (if c then ''7000'' else ''''),
     peername = n, password = \<lparr>salt = ''ab'', pw_hash = ''05''\<rparr>, connected = c\<rparr>"

definition demo_group :: group where
  "demo_group = \<lparr>group_gid = ''g1'', groupmaster = ''alice'', participants = [''alice'', ''carol''], applicants = [''bob'']\<rparr>"

definition demo_file :: file_meta where
  "demo_file = \<lparr>fm_size = 5, fullhash = ''aa'', num_pieces = 1, piece_hashes = [''bb''], fm_peers = [''alice'', ''carol'']\<rparr>"

definition demo_state :: tracker_state where
  "demo_state = \<lparr>st_version = 0,
     st_peers = [(''alice'', demo_peer ''alice'' True), (''bob'', demo_peer ''bob'' False), (''carol'', demo_peer ''carol'' False)],
     st_groups = [(''g1'', demo_group)], st_group_files = [(''g1'', [''song''])],
     st_files = [(''g1/song'', demo_file)]\<rparr>"

definition demo_session :: "string \<Rightarrow> session_info" where
  "demo_session u = \<lparr>si_username = u, si_ip = ''10.0.0.1'', si_port = ''7000'', expires_at = 100\<rparr>"

definition demo_server :: server where
  "demo_server = \<lparr>sv_state = demo_state,
     sv_sessions = [(''t1'', demo_session ''alice''), (''t2'', demo_session ''bob''), (''t3'', demo_session ''carol'')]\<rparr>"

lemmas demo_defs = demo_peer_def demo_group_def demo_file_def demo_state_def demo_session_def demo_server_def

lemma demo_words [simp]:
  "is_word ''alice''" "is_word ''bob''" "is_word ''carol''" "is_word ''g1''" "is_word ''song''" "is_word ''g1/song''"
  "is_word ''t1''" "is_word ''t2''" "is_word ''t3''" "is_word ''ab''" "is_word ''05''" "is_word ''aa''" "is_word ''bb''"
  by (simp_all add: is_word_def isspace_def)

lemma demo_wf: "wf_state demo_state"
  by (simp add: wf_defs demo_defs lookup_defs valid_filename_def file_key_def)

lemma demo_stored_ok: "stored_ok demo_state"
proof -
  have "cast_int 1 = 1" by (simp add: cast_int_small INT_MAX_def)
  then show ?thesis by (simp add: stored_ok_def entry_ok_defs demo_defs LLONG_MAX_def)
qed

lemma demo_sizes_ok: "sizes_ok demo_state"
  by (simp add: sizes_ok_def records_of_def item_defs demo_defs count_ok_def LLONG_MAX_def)

lemma demo_no_dash: "no_dash_owner demo_state"
  by (simp add: no_dash_owner_def demo_defs)

lemma demo_server_ok: "server_ok demo_server"
  using demo_stored_ok by (simp add: server_ok_def sessions_ok_def demo_server_def demo_session_def)

lemma demo_replica_ok: "replica_ok demo_state"
  by (simp add: replica_ok_def demo_sizes_ok stored_ok_wire_ok stored_ok_restorable demo_stored_ok demo_no_dash)

text \<open>Tokenising a concrete command.\<close>

definition demo_command :: "string list \<Rightarrow> string" where
  "demo_command ws = hd ws @ spaced (tl ws)"

lemma split_demo_command: "ws \<noteq> [] \<Longrightarrow> list_all is_word ws \<Longrightarrow> split_args (demo_command ws) = ws"
  using split_args_command [of "hd ws" "tl ws"] by (cases ws) (simp_all add: demo_command_def list_all_iff)

end
