(* ===== verification/Tracker_Guarantees.thy ===== *)
theory Tracker_Guarantees imports Examples
begin

text \<open>
  What the tracker promises its users, proved of \<open>dispatch\<close> and of the state it drives: who may change
  what, who may read what, what a rejected or unauthenticated command leaves alone, and how sessions
  end.
\<close>

section \<open>Who is responsible for a change\<close>

text \<open>
  The users who may add or remove a fact. A user's registration, seeding and requests are their own; a
  request is also the owner's to decide; membership is granted by the owner and given up by the member;
  a file is listed by a member.
\<close>

fun responsible :: "tracker_state \<Rightarrow> string \<Rightarrow> fact \<Rightarrow> bool" where
  "responsible st a (User u) \<longleftrightarrow> a = u"
| "responsible st a (Grp g) \<longleftrightarrow> \<not> holds st (Grp g)"
| "responsible st a (Owned g) \<longleftrightarrow> \<not> holds st (Grp g) \<or> holds st (Owner g a)"
| "responsible st a (Owner g u) \<longleftrightarrow> (\<not> holds st (Grp g) \<and> a = u) \<or> holds st (Owner g a)"
| "responsible st a (Member g u) \<longleftrightarrow> a = u \<or> holds st (Owner g a)"
| "responsible st a (Applicant g u) \<longleftrightarrow> a = u \<or> holds st (Owner g a)"
| "responsible st a (File k) \<longleftrightarrow> (\<exists>g f. k = file_key g f \<and> holds st (Member g a))"
| "responsible st a (Seeder k u) \<longleftrightarrow> a = u"
| "responsible st a (Listed g f) \<longleftrightarrow> holds st (Member g a)"

definition changes_only :: "(fact \<Rightarrow> bool) \<Rightarrow> tracker_state \<Rightarrow> tracker_state \<Rightarrow> bool" where
  "changes_only P st st' \<longleftrightarrow> (\<forall>f. holds st' f \<noteq> holds st f \<longrightarrow> P f)"

lemma changes_only_same [simp]: "changes_only P st st"
  by (simp add: changes_only_def)

lemma changes_only_bump [simp]: "changes_only P st (bump st') = changes_only P st st'"
  using facts_bump [of st'] by (simp add: changes_only_def facts_def set_eq_iff)

lemma changes_put_peer:
  "P (User n) \<Longrightarrow> changes_only P st (put_peer n p st)"
  "map_of (st_peers st) n = Some q \<Longrightarrow> changes_only P st (put_peer n p st)"
  using facts_put_new_peer [of n p st] facts_put_peer [of st n p]
  by (auto simp: changes_only_def facts_def set_eq_iff user_exists_locked_def)

lemma changes_put_group:
  assumes "map_of (st_groups st) g = Some gr"
    and "\<And>u. partofgroup gr' u \<noteq> partofgroup gr u \<Longrightarrow> P (Member g u)"
    and "\<And>u. isapplicant gr' u \<noteq> isapplicant gr u \<Longrightarrow> P (Applicant g u)"
    and "groupmaster gr' \<noteq> groupmaster gr \<Longrightarrow> P (Owned g) \<and> (\<forall>u. P (Owner g u))"
  shows "changes_only P st (put_group g gr' st)"
  unfolding changes_only_def
proof (intro allI impI)
  fix f
  show "holds (put_group g gr' st) f \<noteq> holds st f \<Longrightarrow> P f"
    using assms(1) assms(2-4) unfolding holds_put_group
    by (cases f) (auto simp: group_exists_locked_def split: if_splits)
qed

lemma changes_put_new_group:
  assumes "\<not> group_exists_locked st g" "P (Grp g)" "P (Owned g)" "\<And>u. u = groupmaster gr \<Longrightarrow> P (Owner g u)"
    and "\<And>u. partofgroup gr u \<Longrightarrow> P (Member g u)" "\<And>u. isapplicant gr u \<Longrightarrow> P (Applicant g u)"
  shows "changes_only P st (put_group g gr st)"
  unfolding changes_only_def
proof (intro allI impI)
  fix f
  show "holds (put_group g gr st) f \<noteq> holds st f \<Longrightarrow> P f"
    using assms unfolding holds_put_group
    by (cases f) (auto simp: group_exists_locked_def split: if_splits)
qed

lemma changes_put_file:
  assumes "P (File k)"
    and "\<And>v. (v \<in> set (fm_peers fm)) \<noteq> holds st (Seeder k v) \<Longrightarrow> P (Seeder k v)"
  shows "changes_only P st (put_file k fm st)"
  unfolding changes_only_def
proof (intro allI impI)
  fix f
  show "holds (put_file k fm st) f \<noteq> holds st f \<Longrightarrow> P f"
    using assms unfolding holds_put_file
    by (cases f) (auto simp del: holds.simps split: if_splits)
qed

lemma changes_only_trans: "changes_only P a b \<Longrightarrow> changes_only P b c \<Longrightarrow> changes_only P a c"
  unfolding changes_only_def by metis

lemma changes_put_listing:
  assumes "P (Listed g f)"
  shows "changes_only P st (put_group_files g (uset_insert f (index_or [] (st_group_files st) g)) st)"
  unfolding changes_only_def
proof (intro allI impI)
  fix x
  show "holds (put_group_files g (uset_insert f (index_or [] (st_group_files st) g)) st) x \<noteq> holds st x \<Longrightarrow> P x"
    using assms unfolding holds_put_group_files
    by (cases x) (auto simp: listing_index_or simp del: holds.simps split: if_splits)
qed

lemma responsible_group:
  assumes "map_of (st_groups st) g = Some gr" "is_word u"
  shows "changes_only (responsible st u) st (put_group g (deluser u gr) st)"
    and "groupmaster gr = u \<Longrightarrow> changes_only (responsible st u) st (put_group g (acceptreq a gr) st)"
    and "groupmaster gr = u \<Longrightarrow> changes_only (responsible st u) st (put_group g (gr\<lparr>applicants := as\<rparr>) st)"
    and "changes_only (responsible st u) st (put_group g (gr\<lparr>applicants := uset_insert u (applicants gr)\<rparr>) st)"
  using assms
  by (auto intro!: changes_put_group [OF assms(1)]
      simp: deluser_def acceptreq_def partofgroup_def isapplicant_def Let_def split: if_splits)

lemma responsible_new_group:
  "\<not> group_exists_locked st g \<Longrightarrow> groupmaster gr = u \<Longrightarrow> participants gr = [u] \<Longrightarrow> applicants gr = [] \<Longrightarrow>
   changes_only (responsible st u) st (put_group g gr st)"
  by (rule changes_put_new_group) (auto simp: partofgroup_def isapplicant_def)

lemma responsible_file:
  assumes "holds st (Member g u)" "\<And>v. v \<noteq> u \<Longrightarrow> v \<in> set (fm_peers fm) \<longleftrightarrow> holds st (Seeder (file_key g f) v)"
  shows "changes_only (responsible st u) st (put_file (file_key g f) fm st)"
proof (rule changes_put_file)
  fix v
  show "(v \<in> set (fm_peers fm)) \<noteq> holds st (Seeder (file_key g f) v) \<Longrightarrow> responsible st u (Seeder (file_key g f) v)"
    using assms(2) [of v] by (cases "v = u") (simp_all del: holds.simps)
qed (use assms(1) in \<open>auto simp del: holds.simps\<close>)

lemma responsible_upload:
  assumes w: "op_words (UploadFile g f u n h k hs)"
  shows "changes_only (responsible st u) st (fst (upload_file g f u n h k hs st))"
proof (cases "res_ok (snd (upload_file g f u n h k hs st))")
  case False
  then show ?thesis using rejected_unchanged [of undefined undefined "UploadFile g f u n h k hs" st] by simp
next
  case True
  define fm where "fm = (index_or new_file_meta (st_files st) (file_key g f))\<lparr>fm_size := n, fullhash := h,
      num_pieces := k, piece_hashes := resize (nat k) hs,
      fm_peers := uset_insert u (fm_peers (index_or new_file_meta (st_files st) (file_key g f)))\<rparr>"
  let ?a = "put_file (file_key g f) fm st"
  have m: "holds st (Member g u)"
    and run: "fst (upload_file g f u n h k hs st) =
      bump (put_group_files g (uset_insert f (index_or [] (st_group_files ?a) g)) ?a)"
    using True by (auto simp: upload_file_def Let_def fm_def split: option.splits if_splits)
  have "changes_only (responsible st u) st ?a"
    using m by (rule responsible_file) (simp add: fm_def seeders_index_or del: holds.simps)
  moreover have "changes_only (responsible st u) ?a
      (put_group_files g (uset_insert f (index_or [] (st_group_files ?a) g)) ?a)"
    using m by (intro changes_put_listing) (simp del: holds.simps)
  ultimately show ?thesis unfolding run changes_only_bump by (rule changes_only_trans)
qed

lemma run_op_responsible:
  assumes w: "op_words op"
  shows "changes_only (responsible st (op_actor op)) st (fst (run_op ssl rand op st))"
proof (cases op)
  case (UploadFile g f u n h k hs)
  then show ?thesis using responsible_upload w by simp
next
  case (CreateGroup g u)
  then show ?thesis using w responsible_new_group [of st g]
    by (simp add: create_group_def new_group_def uset_insert_def)
next
  case (FileDownloaded g f u)
  then show ?thesis using w responsible_file [of st g u _ f]
    by (auto simp: file_downloaded_def Let_def split: option.splits)
next
  case (StopShare g f u)
  then show ?thesis using w responsible_file [of st g u _ f]
    by (auto simp: stop_share_def split: option.splits)
qed (use w in \<open>auto simp: op_defs Let_def split: option.splits
    intro: changes_put_peer responsible_group\<close>)

section \<open>The state implements its policy\<close>

text \<open>
  C2: In a well-formed state every method of \<open>TrackerState\<close> that a client's command or the end of a connection
  runs, called as the dispatcher calls it, does what three policies prescribe, and refuses, changing nothing,
  only what one of them forbids. The first says what happens to users, groups, owners, members, requests,
  files, seeders and listings; the second to the accounts: a registration stores the digest of a fresh salt
  with the password, a login succeeds exactly with the password whose digest is stored and brings the user
  online at his address, a logout or a dropped line takes him offline, and nothing else touches an account;
  the third lets nothing but an upload set a file's size, hashes and piece count. (What \<open>merge_from\<close> does to
  the state is the subject of theory Replication.)
\<close>

theorem state_implements_policy:
  assumes "wf_state st" "op_checked op" "run_op ssl rand op st = (st', r)"
  shows "if res_ok r
    then policy_step op (facts st) (facts st') \<and> account_policy ssl rand op (accounts st) = Some (accounts st') \<and>
      metadata st' = metadata_policy op (metadata st)
    else st' = st \<and> ((\<forall>F. \<not> policy_step op (facts st) F) \<or> account_policy ssl rand op (accounts st) = None)"
  using run_op_follows [OF assms(1,2), of ssl rand] by (simp only: follows_policy_def assms(3) fst_conv snd_conv)

text \<open>A request is granted, a wrong password is refused and the right one taken, one after the other.\<close>

theorem state_implements_policy_witness:
  "(\<exists>st' r. run_op demo_ssl demo_rand (AcceptRequest ''g1'' ''bob'' ''alice'') demo_state = (st', r) \<and>
     policy_step (AcceptRequest ''g1'' ''bob'' ''alice'') (facts demo_state) (facts st')) \<and>
   (\<exists>st' r. run_op demo_ssl demo_rand (Login ''bob'' ''pass'' ''10.0.0.3'' ''7002'') demo_state = (st', r) \<and>
     account_policy demo_ssl demo_rand (Login ''bob'' ''pass'' ''10.0.0.3'' ''7002'') (accounts demo_state) = None \<and> st' = demo_state) \<and>
   (\<exists>st' r. run_op demo_ssl demo_rand (Login ''bob'' ''pwd'' ''10.0.0.3'' ''7002'') demo_state = (st', r) \<and>
     accounts st' ''bob'' = Some (''ab'', ''05'', Some (''10.0.0.3'', ''7002'')))"
proof -
  note run = state_implements_policy [OF demo_wf _ prod.collapse [symmetric], of _ demo_ssl demo_rand]
  have "sha256_hex demo_ssl (''ab'' @ ''pass'') = ''06''" "sha256_hex demo_ssl (''ab'' @ ''pwd'') = ''05''" by code_simp+
  then have log: "res_ok (snd (run_op demo_ssl demo_rand (Login ''bob'' ''pwd'' ip p) demo_state))"
      "\<not> res_ok (snd (run_op demo_ssl demo_rand (Login ''bob'' ''pass'' ip p) demo_state))"
      "account_policy demo_ssl demo_rand (Login ''bob'' ''pwd'' ip p) (accounts demo_state) =
        Some ((accounts demo_state)(''bob'' \<mapsto> (''ab'', ''05'', Some (ip, p))))"
      "account_policy demo_ssl demo_rand (Login ''bob'' ''pass'' ip p) (accounts demo_state) = None" for ip p
    by (simp_all add: login_def verify_password_iff demo_defs accounts_def)
  have "policy_step (AcceptRequest ''g1'' ''bob'' ''alice'') (facts demo_state)
      (facts (fst (run_op demo_ssl demo_rand (AcceptRequest ''g1'' ''bob'' ''alice'') demo_state)))"
    using run [of "AcceptRequest ''g1'' ''bob'' ''alice''"] by (simp add: accept_request_def demo_defs lookup_defs isapplicant_def)
  moreover have "accounts (fst (run_op demo_ssl demo_rand (Login ''bob'' ''pwd'' ip p) demo_state)) ''bob'' = Some (''ab'', ''05'', Some (ip, p))" for ip p
    using run [of "Login ''bob'' ''pwd'' ip p"] log by (simp del: run_op.simps account_policy.simps) (metis fun_upd_same)
  moreover have "fst (run_op demo_ssl demo_rand (Login ''bob'' ''pass'' ip p) demo_state) = demo_state" for ip p
    using run [of "Login ''bob'' ''pass'' ip p"] log by (simp del: run_op.simps account_policy.simps)
  ultimately show ?thesis using log(4) by (metis prod.collapse)
qed

text \<open>
  C16: Every sequence of methods called with the dispatcher's checks keeps the state well-formed: members,
  applicants and seeders are registered users, an owner is a member, a group without members has no
  owner, a listed file has metadata and a valid name, and a file has as many hashes as pieces.
\<close>

theorem reachable_wf:
  assumes "list_all (\<lambda>(rand, op). op_checked op) ops"
  shows "wf_state (fold (\<lambda>(rand, op) st. fst (run_op ssl rand op st)) ops empty_state)"
proof -
  have "wf_state st \<Longrightarrow> wf_state (fold (\<lambda>(rand, op) st. fst (run_op ssl rand op st)) ops st)" for st
    using assms by (induction ops arbitrary: st) (auto intro: wf_run_op)
  then show ?thesis using wf_empty_state by blast
qed

theorem reachable_wf_witness:
  "wf_state (fold (\<lambda>(rand, op) st. fst (run_op demo_ssl rand op st))
     [(demo_rand, CreateUser ''alice'' ''pw''), (demo_rand, CreateGroup ''g1'' ''alice''),
      (demo_rand, LeaveGroup ''g1'' ''alice'')] empty_state)"
  by (rule reachable_wf) simp

text \<open>
  A refused method leaves the whole state as it was, and a successful one advances the version by
  exactly one, which is what tells the replication thread to push.
\<close>

lemma success_bumps_version:
  assumes "\<forall>u. op \<noteq> Disconnect u"
  shows "st_version (fst (run_op ssl rand op st)) =
      (if res_ok (snd (run_op ssl rand op st)) then st_version st + 1 else st_version st) \<and>
    (\<not> res_ok (snd (run_op ssl rand op st)) \<longrightarrow> fst (run_op ssl rand op st) = st)"
  using accepted_bumps [OF assms] rejected_unchanged [of ssl rand op st] by auto

section \<open>Commands act only for the user they authenticate\<close>

lemma effect_of_responsible: "effect_of ssl rand u sv sv' \<Longrightarrow> changes_only (responsible (sv_state sv) u) (sv_state sv) (sv_state sv')"
  unfolding effect_of_def using run_op_responsible by (metis changes_only_same)

lemma dispatch_change:
  assumes "server_ok sv" "split_args raw ! 0 \<noteq> ''STATE''"
    "fst (dispatch ssl rand now (split_args raw) ip raw sv) = sv'"
    "holds (sv_state sv') f \<noteq> holds (sv_state sv) f"
  obtains op where "acts_as now (split_args raw) sv (op_actor op)" "op_words op"
    "sv_state sv' = fst (run_op ssl rand op (sv_state sv))"
proof -
  have "sv_state sv' \<noteq> sv_state sv" using assms(4) by auto
  then obtain u where "acts_as now (split_args raw) sv u" "effect_of ssl rand u sv sv'"
    using dispatch_effect [OF split_args_are_words _ assms(2,3)] assms(1) by (auto simp: server_ok_def)
  then show thesis using that \<open>sv_state sv' \<noteq> sv_state sv\<close> by (auto simp: effect_of_def)
qed

text \<open>
  How a command other than \<open>STATE\<close> changes the state: \<open>create_user\<close>, \<open>login\<close> and \<open>logout\<close> by their methods,
  every other by the method it names, for the user its live token belongs to.
\<close>

lemma dispatch_runs:
  assumes ok: "server_ok sv" and cmd: "split_args raw ! 0 \<noteq> ''STATE''"
    and d: "fst (dispatch ssl rand now (split_args raw) ip raw sv) = sv'" and ch: "sv_state sv' \<noteq> sv_state sv"
  obtains (account) op where "op_words op" "sv_state sv' = fst (run_op ssl rand op (sv_state sv))"
      "(\<exists>u pw. op = CreateUser u pw) \<or> (\<exists>u pw a p. op = Login u pw a p) \<or> (\<exists>u. op = Logout u)"
    | (session) op u where "op_words op" "sv_state sv' = fst (run_op ssl rand op (sv_state sv))"
      "1 < length (split_args raw)" "authenticates (sv_sessions sv) now (split_args raw ! 1) = Some u" "command_runs (split_args raw) u op"
proof -
  let ?c = "split_args raw"
  have w: "words ?c" by (rule split_args_are_words)
  consider "?c ! 0 = ''SYNC_REQ''" | (user) "?c ! 0 = ''create_user''" | (login) "?c ! 0 = ''login''" | (short) "length ?c < 2"
      "?c ! 0 \<notin> {''SYNC_REQ'', ''create_user'', ''login''}" | (logout) "1 < length ?c" "?c ! 0 = ''logout''"
    | (rest) "1 < length ?c" "?c ! 0 \<notin> {''SYNC_REQ'', ''create_user'', ''login'', ''logout''}" by fastforce
  then show thesis
  proof cases
    case user
    then have "length ?c = 3" "sv_state sv' = fst (run_op ssl rand (CreateUser (?c ! 1) (?c ! 2)) (sv_state sv))"
      using d ch by (auto simp: dispatch_def reply_with_def split: if_splits)
    then show thesis using w by (intro account [of "CreateUser (?c ! 1) (?c ! 2)"]) (simp_all add: word_arg)
  next
    case login
    then have "length ?c = 4" "sv_state sv' = fst (run_op ssl rand (Login (?c ! 1) (?c ! 2) ip (?c ! 3)) (sv_state sv))"
      using d ch by (auto simp: dispatch_def dispatch_login_def Let_def split: if_splits prod.splits option.splits)
    then show thesis using w by (intro account [of "Login (?c ! 1) (?c ! 2) ip (?c ! 3)"]) (simp_all add: word_arg)
  next
    case logout
    then obtain info where i: "map_of (sv_sessions sv) (?c ! 1) = Some info"
        "sv_state sv' = fst (run_op ssl rand (Logout (si_username info)) (sv_state sv))"
      using d ch by (auto simp: dispatch_def dispatch_logout_def session_destroy_def reply_with_def Let_def split: if_splits option.splits)
    then show thesis using ok sessions_ok_lookup [OF _ i(1)]
      by (intro account [of "Logout (si_username info)"]) (simp_all add: server_ok_def)
  next
    case rest
    obtain sess v where s: "session_username_for now (?c ! 1) (sv_sessions sv) = (sess, v)" by fastforce
    then obtain u where u: "v = Some u"
      using rest cmd d ch by (cases v) (auto simp: dispatch_def Let_def)
    have auth: "authenticates (sv_sessions sv) now (?c ! 1) = Some u" using sm.resolve_auth [of now "?c ! 1" "sv_sessions sv"] s u by simp
    then have "is_word u" using ok sessions_ok_lookup [of "sv_sessions sv" "?c ! 1"]
      by (auto simp: server_ok_def authenticates_def split: option.splits if_splits)
    from dispatch_session_effect [OF w this, of ssl rand "sv\<lparr>sv_sessions := sess\<rparr>"]
    have "session_effect ssl rand ?c u (sv\<lparr>sv_sessions := sess\<rparr>) sv'"
      using rest cmd d s u by (auto simp: dispatch_def Let_def)
    then show thesis using ch auth rest(1) by (auto simp: session_effect_def intro: session)
  qed (use d ch cmd in \<open>auto simp: dispatch_def dispatch_login_def\<close>)
qed

text \<open>What a \<open>STATE\<close> message carries after its first blank.\<close>

definition carried :: "string \<Rightarrow> string" where
  "carried raw = tl (dropWhile (\<lambda>c. c \<noteq> CHR '' '') raw)"

lemma dispatch_merges:
  "split_args raw ! 0 = ''STATE'' \<Longrightarrow>
   sv_state (fst (dispatch ssl rand now (split_args raw) ip raw sv)) = sv_state sv \<or>
   sv_state (fst (dispatch ssl rand now (split_args raw) ip raw sv)) = fst (merge_from (carried raw) (sv_state sv))"
  by (simp add: dispatch_def dispatch_state_def carried_def split: prod.split)

text \<open>
  C5: Whatever a command (other than the peer tracker's STATE) changes in the shared state, the user it
  acts for is responsible for: nobody registers, requests, seeds or stops seeding for another user,
  decides requests of a group they do not own, or lists files in a group they are not a member of.
\<close>

theorem commands_change_only_own:
  assumes "server_ok sv" "split_args raw ! 0 \<noteq> ''STATE''"
    "fst (dispatch ssl rand now (split_args raw) ip raw sv) = sv'"
    "holds (sv_state sv') f \<noteq> holds (sv_state sv) f"
  shows "\<exists>u. acts_as now (split_args raw) sv u \<and> responsible (sv_state sv) u f"
proof -
  obtain op where "acts_as now (split_args raw) sv (op_actor op)" "op_words op"
    "sv_state sv' = fst (run_op ssl rand op (sv_state sv))"
    using dispatch_change [OF assms] .
  then show ?thesis
    using run_op_responsible [of op "sv_state sv" ssl rand] assms(4) by (auto simp: changes_only_def)
qed

theorem commands_change_only_own_witness:
  "\<exists>u. acts_as 7 (split_args (demo_command [''stop_share'', ''t3'', ''g1'', ''song''])) demo_server u \<and>
     responsible demo_state u (Seeder ''g1/song'' ''carol'')"
proof -
  let ?raw = "demo_command [''stop_share'', ''t3'', ''g1'', ''song'']"
  have s: "split_args ?raw = [''stop_share'', ''t3'', ''g1'', ''song'']"
    by (rule split_demo_command) (simp_all add: is_word_def isspace_def)
  have "holds (sv_state (fst (dispatch demo_ssl demo_rand 7 (split_args ?raw) ''10.0.0.1'' ?raw demo_server))) (Seeder ''g1/song'' ''carol'') \<noteq>
      holds (sv_state demo_server) (Seeder ''g1/song'' ''carol'')"
    by (simp add: s dispatch_def dispatch_session_def session_username_for_def session_lookup_def reply_with_def
        stop_share_def demo_defs lookup_defs partofgroup_def file_key_def put_defs)
  from commands_change_only_own [OF demo_server_ok _ refl this] show ?thesis
    by (simp add: s demo_server_def)
qed

text \<open>Membership, more closely.\<close>

lemma run_op_member:
  assumes "holds (fst (run_op ssl rand op st)) (Member g u)" "\<not> holds st (Member g u)" "op_words op"
  shows "op = CreateGroup g u \<and> \<not> holds st (Grp g) \<or>
    (\<exists>ow. op = AcceptRequest g u ow \<and> holds st (Owner g ow) \<and> holds st (Applicant g u))"
proof -
  have peer: "holds (put_peer n p st) (Member g u) = holds st (Member g u)" for n p by simp
  have meta: "holds (put_file k fm st') (Member g u) = holds st' (Member g u)" for k fm st' by simp
  have listing: "holds (put_group_files h fs st') (Member g u) = holds st' (Member g u)" for h fs st' by simp
  have bump: "holds (bump st') (Member g u) = holds st' (Member g u)" for st' by simp
  have m: "map_of (st_groups st) g = Some gr \<Longrightarrow> u \<notin> set (participants gr)" for gr
    using assms(2) by (simp add: partofgroup_def)
  show ?thesis
    using assms
    by (cases op) (auto simp: op_defs Let_def bump peer meta listing holds_put_group deluser_def acceptreq_def
        partofgroup_def isapplicant_def new_group_def lookup_defs
        simp del: holds.simps(5) dest: m split: option.splits if_splits)
qed

text \<open>
  C3: A command makes somebody a member of a group only in three ways: the founder becomes a member of the
  group he creates, authenticated by a live token; the group's owner, authenticated by a live token of his
  own, accepts a request that is pending; or the command is the replication message \<open>STATE\<close>, which carries no
  token at all, and a group record in it lists the member. The third way is open to anybody who can reach the
  tracker's port.
\<close>

theorem membership_is_granted:
  assumes "server_ok sv" "comds = split_args raw"
    "fst (dispatch ssl rand now comds ip raw sv) = sv'"
    "\<not> holds (sv_state sv) (Member g u)" "holds (sv_state sv') (Member g u)"
  shows "(comds ! 0 = ''create_group'' \<and> comds ! 2 = g \<and> authenticates (sv_sessions sv) now (comds ! 1) = Some u \<and>
      \<not> holds (sv_state sv) (Grp g)) \<or>
    (comds ! 0 = ''accept_request'' \<and> comds ! 2 = g \<and> comds ! 3 = u \<and> (\<exists>ow. authenticates (sv_sessions sv) now (comds ! 1) = Some ow \<and>
       holds (sv_state sv) (Owner g ow) \<and> holds (sv_state sv) (Applicant g u))) \<or>
    (comds ! 0 = ''STATE'' \<and> (\<exists>ow members requests. Group_rec g ow members requests \<in> set (listed_records (carried raw)) \<and> u \<in> set members))"
proof (cases "comds ! 0 = ''STATE''")
  case True
  then have "sv_state sv' = sv_state sv \<or> sv_state sv' = fst (merge_from (carried raw) (sv_state sv))"
    using dispatch_merges [of raw ssl rand now ip sv] assms(2,3) by simp
  then have "Member g u \<in> shared_facts (fst (merge_from (carried raw) (sv_state sv)))"
    using assms(4,5) by (auto simp del: holds.simps)
  moreover have "Member g u \<notin> shared_facts (sv_state sv)" using assms(4) by (simp del: holds.simps)
  ultimately have "Member g u \<in> all_facts (listed_records (carried raw))"
    using merge_from_facts [of "carried raw" "sv_state sv"] by blast
  then obtain rec where rec: "rec \<in> set (listed_records (carried raw))" "Member g u \<in> rec_facts rec" by (auto simp: all_facts_def)
  show ?thesis
  proof (cases rec)
    case (Group_rec h ow members requests)
    then show ?thesis using rec True by (auto split: if_splits)
  qed (use rec in auto)
next
  case False
  have ch: "sv_state sv' \<noteq> sv_state sv" using assms(4,5) by metis
  show ?thesis
  proof (rule dispatch_runs [OF assms(1) False [unfolded assms(2)] assms(3) [unfolded assms(2)] ch])
    fix op assume "op_words op" "sv_state sv' = fst (run_op ssl rand op (sv_state sv))"
      "(\<exists>u pw. op = CreateUser u pw) \<or> (\<exists>u pw a p. op = Login u pw a p) \<or> (\<exists>u. op = Logout u)"
    then show ?thesis using run_op_member assms(4,5) by (metis tracker_op.distinct)
  next
    fix op v assume op: "op_words op" "sv_state sv' = fst (run_op ssl rand op (sv_state sv))"
      "1 < length (split_args raw)" "authenticates (sv_sessions sv) now (split_args raw ! 1) = Some v" "command_runs (split_args raw) v op"
    have "op = CreateGroup g u \<and> \<not> holds (sv_state sv) (Grp g) \<or>
      (\<exists>ow. op = AcceptRequest g u ow \<and> holds (sv_state sv) (Owner g ow) \<and> holds (sv_state sv) (Applicant g u))"
      using run_op_member assms(4,5) op(1,2) by metis
    then show ?thesis using op(4,5) assms(2) by (auto simp del: holds.simps)
  qed
qed

text \<open>The owner lets \<open>bob\<close> in; and so does a text from anywhere.\<close>

theorem membership_is_granted_witness:
  "(\<exists>ow. authenticates (sv_sessions demo_server) 7 ''t1'' = Some ow \<and> holds demo_state (Owner ''g1'' ow) \<and>
     holds demo_state (Applicant ''g1'' ''bob'')) \<and>
   (\<exists>ow members requests. Group_rec ''g1'' ow members requests \<in> set (listed_records (carried ''STATE GROUP g1 - 1 bob 0'')) \<and>
     ''bob'' \<in> set members)"
proof -
  let ?raw = "demo_command [''accept_request'', ''t1'', ''g1'', ''bob'']" and ?state = "''STATE GROUP g1 - 1 bob 0''"
  have s: "split_args ?raw = [''accept_request'', ''t1'', ''g1'', ''bob'']"
    by (rule split_demo_command) (simp_all add: is_word_def isspace_def)
  have t: "split_args ?state = [''STATE'', ''GROUP'', ''g1'', ''-'', ''1'', ''bob'', ''0'']" by code_simp
  have no: "\<not> holds (sv_state demo_server) (Member ''g1'' ''bob'')" by (simp add: demo_defs partofgroup_def)
  have "holds (sv_state (fst (dispatch demo_ssl demo_rand 7 (split_args ?raw) ''10.0.0.1'' ?raw demo_server))) (Member ''g1'' ''bob'')"
    by (simp add: s dispatch_def dispatch_session_def session_username_for_def session_lookup_def reply_with_def
        accept_request_def acceptreq_def isapplicant_def demo_defs lookup_defs partofgroup_def put_defs)
  from membership_is_granted [OF demo_server_ok refl refl no this]
  have "\<exists>ow. authenticates (sv_sessions demo_server) 7 ''t1'' = Some ow \<and> holds demo_state (Owner ''g1'' ow) \<and>
     holds demo_state (Applicant ''g1'' ''bob'')"
    by (simp add: s demo_server_def del: holds.simps)
  moreover
  have "merge_from (carried ?state) demo_state =
      (bump (put_group ''g1'' (demo_group\<lparr>participants := [''alice'', ''carol'', ''bob'']\<rparr>) demo_state), True)" by code_simp
  then have "holds (sv_state (fst (dispatch demo_ssl demo_rand 7 (split_args ?state) ''10.9.9.9'' ?state demo_server))) (Member ''g1'' ''bob'')"
    unfolding dispatch_def t by (simp add: dispatch_state_def carried_def demo_server_def partofgroup_def put_defs)
  from membership_is_granted [OF demo_server_ok refl refl no this]
  have "\<exists>ow members requests. Group_rec ''g1'' ow members requests \<in> set (listed_records (carried ?state)) \<and> ''bob'' \<in> set members"
    unfolding t by simp
  ultimately show ?thesis by blast
qed

text \<open>
  C4: A command with which the protocol wants a session (all but SYNC_REQ, STATE, create_user and login), and
  which carries no token or none that authenticates anybody at that time, never changes whom any token
  authenticates from then on. It is answered with the authentication error and changes nothing in the
  shared state, with one exception: \<open>logout\<close> with an expired token that has not been dropped from the table
  yet is carried out. It logs its user out (also if he has a newer session) and drops the token.
\<close>

theorem unauthenticated_changes_nothing:
  assumes "server_ok sv" "comds = split_args raw" "comds \<noteq> []"
    and "comds ! 0 \<notin> {''SYNC_REQ'', ''STATE'', ''create_user'', ''login''}"
    and "length comds < 2 \<or> authenticates (sv_sessions sv) now (comds ! 1) = None"
    and "dispatch ssl rand now comds ip raw sv = (sv', reply)"
  shows "(\<forall>later t. now \<le> later \<longrightarrow> authenticates (sv_sessions sv') later t = authenticates (sv_sessions sv) later t) \<and>
    (case (if comds ! 0 = ''logout'' \<and> 2 \<le> length comds then map_of (sv_sessions sv) (comds ! 1) else None) of
       None \<Rightarrow> reply = kAuthErr \<and> sv_state sv' = sv_state sv
     | Some info \<Rightarrow> expires_at info \<le> now \<and> map_of (sv_sessions sv') (comds ! 1) = None \<and>
         sv_state sv' = fst (logout (si_username info) (sv_state sv)) \<and> reply = res_msg (snd (logout (si_username info) (sv_state sv))))"
proof (cases "length comds < 2")
  case True
  then show ?thesis using assms(4,6) by (simp add: dispatch_def)
next
  case False
  let ?t = "comds ! 1"
  have none: "authenticates (sv_sessions sv) now ?t = None" using assms(5) False by simp
  then have dead: "now \<le> later \<Longrightarrow> authenticates (sv_sessions sv) later ?t = None" for later by (rule sm.auth_expires [rotated])
  show ?thesis
  proof (cases "comds ! 0 = ''logout''")
    case True
    then have d: "dispatch_logout ?t sv = (sv', reply)" using assms(4,6) False by (simp add: dispatch_def)
    then have "sv_sessions sv' = fst (session_destroy ?t (sv_sessions sv))"
      by (auto simp: dispatch_logout_def reply_with_def Let_def split: prod.splits if_splits)
    then have auth: "authenticates (sv_sessions sv') later t = authenticates (sv_sessions sv) later t" if "now \<le> later" for later t
      using sm.auth_revoke [of ?t "sv_sessions sv" later t] dead [OF that] by (simp split: if_splits)
    show ?thesis
    proof (cases "map_of (sv_sessions sv) ?t")
      case None
      then show ?thesis using d auth by (auto simp: dispatch_logout_def session_destroy_def)
    next
      case (Some info)
      then have w: "is_word ?t" "is_word (si_username info)" using assms(1) sessions_ok_lookup [OF _ Some] by (simp_all add: server_ok_def)
      moreover have "expires_at info \<le> now" using none Some w(1) by (simp add: authenticates_def split: if_splits)
      ultimately show ?thesis using d auth Some True False
        by (auto simp: dispatch_logout_def session_destroy_def reply_with_def Let_def)
    qed
  next
    case other: False
    have "snd (session_username_for now ?t (sv_sessions sv)) = None" using none by (simp add: sm.resolve_auth)
    then obtain sess where s: "session_username_for now ?t (sv_sessions sv) = (sess, None)"
      by (cases "session_username_for now ?t (sv_sessions sv)") simp
    then have "sv' = sv\<lparr>sv_sessions := sess\<rparr>" "reply = kAuthErr"
      using assms(4,6) False other by (auto simp: dispatch_def Let_def)
    then show ?thesis using sm.auth_resolve [of now _ ?t "sv_sessions sv"] s other by simp
  qed
qed

text \<open>At time 100 the tokens of the example have expired: leaving a group is refused, logging out is not.\<close>

theorem unauthenticated_changes_nothing_witness:
  "snd (dispatch demo_ssl demo_rand 100 (split_args (demo_command [''leave_group'', ''t1'', ''g1''])) ''10.0.0.2''
     (demo_command [''leave_group'', ''t1'', ''g1'']) demo_server) = kAuthErr \<and>
   sv_state (fst (dispatch demo_ssl demo_rand 100 (split_args (demo_command [''logout'', ''t1''])) ''10.0.0.2''
     (demo_command [''logout'', ''t1'']) demo_server)) = fst (logout ''alice'' demo_state)"
proof -
  let ?leave = "demo_command [''leave_group'', ''t1'', ''g1'']" and ?logout = "demo_command [''logout'', ''t1'']"
  have s: "split_args ?leave = [''leave_group'', ''t1'', ''g1'']" "split_args ?logout = [''logout'', ''t1'']"
    by (rule split_demo_command; simp add: is_word_def isspace_def)+
  have a: "authenticates (sv_sessions demo_server) 100 ''t1'' = None" "map_of (sv_sessions demo_server) ''t1'' = Some (demo_session ''alice'')"
    by (simp_all add: authenticates_def demo_defs)
  have "snd (dispatch demo_ssl demo_rand 100 (split_args ?leave) ''10.0.0.2'' ?leave demo_server) = kAuthErr"
    using unauthenticated_changes_nothing [OF demo_server_ok refl _ _ _ prod.collapse [symmetric], of ?leave 100 demo_ssl demo_rand "''10.0.0.2''"] a
    by (simp add: s)
  moreover have "sv_state (fst (dispatch demo_ssl demo_rand 100 (split_args ?logout) ''10.0.0.2'' ?logout demo_server)) = fst (logout ''alice'' demo_state)"
    using unauthenticated_changes_nothing [OF demo_server_ok refl _ _ _ prod.collapse [symmetric], of ?logout 100 demo_ssl demo_rand "''10.0.0.2''"] a
    by (simp add: s demo_session_def) (simp add: demo_server_def)
  ultimately show ?thesis ..
qed

section \<open>Who may read what\<close>

text \<open>
  Two states look the same to a user when they have the same accounts and groups and agree on the
  listings and files of the groups the user is a member of.
\<close>

definition same_view :: "string \<Rightarrow> tracker_state \<Rightarrow> tracker_state \<Rightarrow> bool" where
  "same_view u st st' \<longleftrightarrow> st_peers st' = st_peers st \<and> st_groups st' = st_groups st \<and>
     (\<forall>g. holds st (Member g u) \<longrightarrow> map_of (st_group_files st') g = map_of (st_group_files st) g \<and>
        (\<forall>f. map_of (st_files st') (file_key g f) = map_of (st_files st) (file_key g f)))"

lemma same_view_reply:
  assumes v: "same_view u st st'"
  shows "res_msg (snd (create_group g u st')) = res_msg (snd (create_group g u st))"
    and "res_msg (snd (join_group g u st')) = res_msg (snd (join_group g u st))"
    and "res_msg (snd (leave_group g u st')) = res_msg (snd (leave_group g u st))"
    and "res_msg (snd (accept_request g a u st')) = res_msg (snd (accept_request g a u st))"
    and "res_msg (snd (reject_request g a u st')) = res_msg (snd (reject_request g a u st))"
    and "list_requests g u st' = list_requests g u st" and "list_groups st' = list_groups st"
  using v by (auto simp: same_view_def op_defs list_requests_def list_groups_def lookup_defs split: option.splits)

lemma same_view_files:
  assumes v: "same_view u st st'"
  shows "list_files g u st' = list_files g u st" and "download_file g f u st' = download_file g f u st"
    and "res_msg (snd (upload_file g f u n h k hs st')) = res_msg (snd (upload_file g f u n h k hs st))"
    and "res_msg (snd (file_downloaded g f u st')) = res_msg (snd (file_downloaded g f u st))"
    and "res_msg (snd (stop_share g f u st')) = res_msg (snd (stop_share g f u st))"
proof -
  have same: "map_of (st_groups st') = map_of (st_groups st)" "user_exists_locked st' = user_exists_locked st"
    "peer_line st' = peer_line st"
    using v by (auto simp: same_view_def lookup_defs peer_line_def fun_eq_iff)
  have member: "map_of (st_groups st) g = Some gr \<Longrightarrow> partofgroup gr u \<Longrightarrow>
      map_of (st_group_files st') g = map_of (st_group_files st) g \<and>
      group_has_file_locked st' g = group_has_file_locked st g \<and> file_line st' g = file_line st g \<and>
      (\<forall>f. map_of (st_files st') (file_key g f) = map_of (st_files st) (file_key g f))" for gr
    using v by (auto simp: same_view_def group_has_file_locked_def file_line_def fun_eq_iff)
  have "download_reply st' = download_reply st" by (simp add: download_reply_def fun_eq_iff same)
  then show "list_files g u st' = list_files g u st" and "download_file g f u st' = download_file g f u st"
    and "res_msg (snd (upload_file g f u n h k hs st')) = res_msg (snd (upload_file g f u n h k hs st))"
    and "res_msg (snd (file_downloaded g f u st')) = res_msg (snd (file_downloaded g f u st))"
    and "res_msg (snd (stop_share g f u st')) = res_msg (snd (stop_share g f u st))"
    using member
    by (cases "map_of (st_groups st) g";
        simp add: list_files_def download_file_def upload_file_def file_downloaded_def stop_share_def Let_def same
          split: option.split)+
qed

lemma reply_if:
  "snd x' = snd x \<Longrightarrow> snd y' = snd y \<Longrightarrow> snd (if b then x' else y') = snd (if b then x else y)"
  by simp

text \<open>
  C14: What a logged-in user is told depends only on the accounts, the groups and the files of the groups
  he is a member of: whatever is stored about the files of other groups (names, sizes, hashes, seeders),
  every session command of his is answered the same.
\<close>

theorem replies_reveal_only_own_groups:
  assumes "same_view user st st'"
  shows "snd (dispatch_session comds user (sv\<lparr>sv_state := st'\<rparr>)) = snd (dispatch_session comds user (sv\<lparr>sv_state := st\<rparr>))"
proof -
  have "snd (dispatch_upload comds user (sv\<lparr>sv_state := st'\<rparr>)) = snd (dispatch_upload comds user (sv\<lparr>sv_state := st\<rparr>))"
    by (simp add: dispatch_upload_def reply_with_def same_view_files [OF assms] split: option.split)
  then show ?thesis
    unfolding dispatch_session_def Let_def
    by (intro reply_if; simp add: reply_with_def same_view_reply [OF assms] same_view_files [OF assms])
qed

theorem replies_reveal_only_own_groups_witness:
  "snd (dispatch_session [''download_file'', ''t2'', ''g1'', ''song''] ''bob'' (demo_server\<lparr>sv_state := demo_state\<lparr>st_files := []\<rparr>\<rparr>)) =
   snd (dispatch_session [''download_file'', ''t2'', ''g1'', ''song''] ''bob'' (demo_server\<lparr>sv_state := demo_state\<rparr>))"
  by (rule replies_reveal_only_own_groups) (simp add: same_view_def demo_defs partofgroup_def)

section \<open>Groups do not share files\<close>

lemma file_key_inj:
  assumes "CHR ''/'' \<notin> set f" "CHR ''/'' \<notin> set f'" "file_key g f = file_key g' f'"
  shows "g = g' \<and> f = f'"
proof -
  have last: "takeWhile (\<lambda>c. c \<noteq> CHR ''/'') (rev (file_key g f)) = rev f" if "CHR ''/'' \<notin> set f" for g f
    using that by (simp add: file_key_def takeWhile_append)
  have "rev f = rev f'" using last [OF assms(1), of g] last [OF assms(2), of g'] assms(3) by simp
  then show ?thesis using assms(3) by (simp add: file_key_def)
qed

lemma listed_valid:
  assumes "wf_state st" "group_has_file_locked st g f"
  shows "valid_filename f"
proof -
  obtain fs where "map_of (st_group_files st) g = Some fs" "f \<in> set fs"
    using assms(2) by (simp add: group_has_file_locked_def split: option.splits)
  moreover have "wf_listing st" using assms(1) by (simp add: wf_state_def)
  ultimately show ?thesis unfolding wf_listing_def by blast
qed

lemma op_files_touched:
  assumes "op_words op" "map_of (st_files (fst (run_op ssl rand op st))) k \<noteq> map_of (st_files st) k"
  shows "\<exists>g f. k = file_key g f \<and> holds st (Member g (op_actor op)) \<and>
    ((\<exists>n h c hs. op = UploadFile g f (op_actor op) n h c hs \<and> valid_filename f) \<or>
     op = FileDownloaded g f (op_actor op) \<or> op = StopShare g f (op_actor op)) \<and>
    (valid_filename f \<or> group_has_file_locked st g f)"
  using assms
  by (cases op) (auto simp: op_defs Let_def split: option.splits if_splits)

text \<open>
  C18: Files of different groups never share an entry: in a well-formed state, a command that changes the
  stored metadata or seeders of the file \<open>f\<close> of group \<open>g\<close> is an upload, a seeding report or a stop that
  names exactly that group and that file and carries a live token of a member of the group; or it is the
  replication message \<open>STATE\<close>, which carries no token, with a file record for exactly that entry.
\<close>

theorem files_isolated_between_groups:
  assumes "server_ok sv" "wf_state (sv_state sv)" "valid_filename f" "comds = split_args raw"
    and "fst (dispatch ssl rand now comds ip raw sv) = sv'"
    and "map_of (st_files (sv_state sv')) (file_key g f) \<noteq> map_of (st_files (sv_state sv)) (file_key g f)"
  shows "(comds ! 0 \<in> {''upload_file'', ''file_downloaded'', ''stop_share''} \<and> comds ! 2 = g \<and> comds ! 3 = f \<and>
      (\<exists>u. authenticates (sv_sessions sv) now (comds ! 1) = Some u \<and> holds (sv_state sv) (Member g u))) \<or>
    (comds ! 0 = ''STATE'' \<and> (\<exists>sz h hs seeders. File_rec (file_key g f) sz h hs seeders \<in> set (listed_records (carried raw))))"
proof (cases "comds ! 0 = ''STATE''")
  case True
  then have "sv_state sv' = fst (merge_from (carried raw) (sv_state sv))"
    using dispatch_merges [of raw ssl rand now ip sv] assms(4,5,6) by auto
  then show ?thesis using True merge_from_files [of "carried raw" "sv_state sv" "file_key g f"] assms(6) by simp
next
  case False
  have ch: "sv_state sv' \<noteq> sv_state sv" using assms(6) by metis
  have touched: "\<exists>g' f'. file_key g f = file_key g' f' \<and> holds (sv_state sv) (Member g' (op_actor op)) \<and>
      ((\<exists>n h c hs. op = UploadFile g' f' (op_actor op) n h c hs \<and> valid_filename f') \<or>
       op = FileDownloaded g' f' (op_actor op) \<or> op = StopShare g' f' (op_actor op)) \<and>
      (valid_filename f' \<or> group_has_file_locked (sv_state sv) g' f')"
    if "op_words op" "sv_state sv' = fst (run_op ssl rand op (sv_state sv))" for op
    using op_files_touched [OF that(1), of ssl rand "sv_state sv" "file_key g f"] that(2) assms(6) by simp
  show ?thesis
  proof (rule dispatch_runs [OF assms(1) False [unfolded assms(4)] assms(5) [unfolded assms(4)] ch])
    fix op assume "op_words op" "sv_state sv' = fst (run_op ssl rand op (sv_state sv))"
      "(\<exists>u pw. op = CreateUser u pw) \<or> (\<exists>u pw a p. op = Login u pw a p) \<or> (\<exists>u. op = Logout u)"
    then show ?thesis using touched by blast
  next
    fix op u assume op: "op_words op" "sv_state sv' = fst (run_op ssl rand op (sv_state sv))"
      "1 < length (split_args raw)" "authenticates (sv_sessions sv) now (split_args raw ! 1) = Some u" "command_runs (split_args raw) u op"
    obtain g' f' where k: "file_key g f = file_key g' f'"
      and m: "holds (sv_state sv) (Member g' (op_actor op))"
        "(\<exists>n h c hs. op = UploadFile g' f' (op_actor op) n h c hs \<and> valid_filename f') \<or>
         op = FileDownloaded g' f' (op_actor op) \<or> op = StopShare g' f' (op_actor op)"
      and v: "valid_filename f' \<or> group_has_file_locked (sv_state sv) g' f'"
      using touched [OF op(1,2)] by blast
    have "valid_filename f'" using v listed_valid [OF assms(2)] by blast
    then have "g = g' \<and> f = f'"
      using file_key_inj [OF _ _ k] assms(3) by (simp add: valid_filename_def split: if_splits)
    moreover have "comds ! 0 \<in> {''upload_file'', ''file_downloaded'', ''stop_share''} \<and> comds ! 2 = g' \<and> comds ! 3 = f' \<and> op_actor op = u"
      using m(2) op(5) assms(4) by (cases op) auto
    ultimately show ?thesis using m(1) op(4) assms(4) by blast
  qed
qed

text \<open>\<open>carol\<close> takes herself off the seeders of the example's file, in her group, with her token.\<close>

theorem files_isolated_between_groups_witness:
  "map_of (st_files (sv_state (fst (dispatch demo_ssl demo_rand 7 (split_args (demo_command [''stop_share'', ''t3'', ''g1'', ''song'']))
      ''10.0.0.1'' (demo_command [''stop_share'', ''t3'', ''g1'', ''song'']) demo_server)))) (file_key ''g1'' ''song'') =
     Some (demo_file\<lparr>fm_peers := [''alice'']\<rparr>) \<and>
   (\<exists>u. authenticates (sv_sessions demo_server) 7 ''t3'' = Some u \<and> holds demo_state (Member ''g1'' u))"
proof -
  let ?raw = "demo_command [''stop_share'', ''t3'', ''g1'', ''song'']"
  have s: "split_args ?raw = [''stop_share'', ''t3'', ''g1'', ''song'']"
    by (rule split_demo_command) (simp_all add: is_word_def isspace_def)
  have new: "map_of (st_files (sv_state (fst (dispatch demo_ssl demo_rand 7 (split_args ?raw) ''10.0.0.1'' ?raw demo_server)))) (file_key ''g1'' ''song'') =
      Some (demo_file\<lparr>fm_peers := [''alice'']\<rparr>)"
    by (simp add: s dispatch_def dispatch_session_def session_username_for_def session_lookup_def reply_with_def
        stop_share_def demo_defs lookup_defs partofgroup_def file_key_def put_defs uset_erase_def)
  moreover have "map_of (st_files (sv_state demo_server)) (file_key ''g1'' ''song'') = Some demo_file"
    by (simp add: demo_defs file_key_def)
  ultimately have "map_of (st_files (sv_state (fst (dispatch demo_ssl demo_rand 7 (split_args ?raw) ''10.0.0.1'' ?raw demo_server)))) (file_key ''g1'' ''song'') \<noteq>
      map_of (st_files (sv_state demo_server)) (file_key ''g1'' ''song'')"
    by (simp add: demo_file_def)
  from files_isolated_between_groups [OF demo_server_ok _ _ refl refl this]
  have "\<exists>u. authenticates (sv_sessions demo_server) 7 ''t3'' = Some u \<and> holds demo_state (Member ''g1'' u)"
    using demo_wf by (simp add: s valid_filename_def demo_server_def del: holds.simps)
  then show ?thesis using new by blast
qed

section \<open>Uploads are checked\<close>

lemma sdiv_nonneg: "0 \<le> a \<Longrightarrow> 0 < b \<Longrightarrow> a sdiv b = a div b" for a b :: int
  by (cases "a = 0") (simp_all add: signed_divide_int_def)

lemma sint_word_of_int:
  assumes "- (2 ^ 63) \<le> m" "m < 2 ^ 63"
  shows "sint (word_of_int m :: 64 word) = m"
  using signed_take_bit_int_eq_self [of 63 m] assms by (simp add: signed_of_int)

lemma expected_pieces_exact:
  assumes "0 \<le> n" "n + int kPieceSize - 1 \<le> LLONG_MAX"
  shows "expected_pieces n = (n + int kPieceSize - 1) div int kPieceSize"
proof -
  let ?m = "n + int kPieceSize - 1"
  have "sint (word_of_int ?m :: 64 word) = ?m"
    using assms by (intro sint_word_of_int) (simp_all add: kPieceSize_def LLONG_MAX_def)
  moreover have "0 \<le> ?m" "0 < int kPieceSize" using assms by (simp_all add: kPieceSize_def)
  ultimately show ?thesis by (simp add: expected_pieces_def sdiv_nonneg)
qed

lemma expected_pieces_overflow:
  assumes "n \<le> LLONG_MAX" "LLONG_MAX < n + int kPieceSize - 1"
  shows "expected_pieces n < 0"
proof -
  let ?m = "n + int kPieceSize - 1"
  have wrap: "(word_of_int ?m :: 64 word) = word_of_int (?m - 2 ^ 64)"
    by (simp add: word_of_int_eq_iff take_bit_eq_mod)
  have "sint (word_of_int ?m :: 64 word) = ?m - 2 ^ 64"
    unfolding wrap using assms by (intro sint_word_of_int) (simp_all add: kPieceSize_def LLONG_MAX_def)
  then show ?thesis
    using assms by (simp add: expected_pieces_def signed_divide_int_def kPieceSize_def LLONG_MAX_def)
qed

text \<open>
  C15: An upload command changes the state only when it declares the number of pieces its size amounts
  to, with one hash for each; the stored metadata is exactly what was declared, and sizes whose
  rounding-up would overflow 64 bits are refused.
\<close>

theorem upload_is_validated:
  assumes "sv_state (fst (dispatch_upload comds user sv)) \<noteq> sv_state sv"
  shows "\<exists>size fm. parse_ll (comds ! 4) = Some size \<and> 0 \<le> size \<and> size + int kPieceSize - 1 \<le> LLONG_MAX \<and>
    map_of (st_files (sv_state (fst (dispatch_upload comds user sv)))) (file_key (comds ! 2) (comds ! 3)) = Some fm \<and>
    fm_size fm = size \<and> fullhash fm = comds ! 5 \<and> piece_hashes fm = drop 7 comds \<and>
    num_pieces fm = int (length (piece_hashes fm)) \<and>
    (num_pieces fm - 1) * int kPieceSize < size \<and> size \<le> num_pieces fm * int kPieceSize \<and>
    user \<in> set (fm_peers fm) \<and> holds (sv_state sv) (Member (comds ! 2) user)"
proof -
  let ?st = "sv_state sv"
  obtain size pieces where p: "parse_ll (comds ! 4) = Some size" "0 \<le> size" "0 \<le> pieces"
    "pieces = expected_pieces size" "length comds = nat pieces + 7"
    and d: "sv_state (fst (dispatch_upload comds user sv)) =
      fst (upload_file (comds ! 2) (comds ! 3) user size (comds ! 5) pieces (drop 7 comds) ?st)"
    using assms by (auto simp: dispatch_upload_def reply_with_def split: if_splits option.splits)
  have fits: "size + int kPieceSize - 1 \<le> LLONG_MAX"
    using expected_pieces_overflow [of size] parse_ll_bounds [OF p(1)] p(3,4) by linarith
  then have c: "pieces = (size + int kPieceSize - 1) div int kPieceSize"
    using expected_pieces_exact p(2,4) by simp
  have "(pieces - 1) * int kPieceSize < size" "size \<le> pieces * int kPieceSize"
    unfolding c by (simp_all add: kPieceSize_def)
  moreover have "resize (nat pieces) (drop 7 comds) = drop 7 comds" "int (length (drop 7 comds)) = pieces"
    using p(3,5) resize_same [of "drop 7 comds"] by auto
  ultimately show ?thesis
    using assms p(1,2) fits unfolding d
    by (auto simp: upload_file_def Let_def split: option.splits if_splits)
qed

theorem upload_is_validated_witness:
  "\<exists>fm. map_of (st_files (sv_state (fst (dispatch_upload
      [''upload_file'', ''t3'', ''g1'', ''new'', ''3'', ''cc'', ''1'', ''dd''] ''carol'' demo_server))))
      (file_key ''g1'' ''new'') = Some fm \<and> piece_hashes fm = [''dd''] \<and> num_pieces fm = 1"
proof -
  let ?c = "[''upload_file'', ''t3'', ''g1'', ''new'', ''3'', ''cc'', ''1'', ''dd'']"
  have n: "parse_ll ''3'' = Some 3" "parse_int ''1'' = Some 1" by code_simp+
  have "expected_pieces 3 = 1" by (subst expected_pieces_exact) (simp_all add: kPieceSize_def LLONG_MAX_def)
  then have "sv_state (fst (dispatch_upload ?c ''carol'' demo_server)) \<noteq> sv_state demo_server"
    using n by (simp add: dispatch_upload_def reply_with_def upload_file_def Let_def demo_defs lookup_defs
        partofgroup_def valid_filename_def put_defs)
  from upload_is_validated [OF this] show ?thesis by auto
qed

section \<open>Leaving a group\<close>

text \<open>
  When the owner of a group leaves it in a well-formed state, a remaining member becomes the owner;
  when nobody remains the group has neither owner nor member. Nobody else's membership changes.
\<close>

lemma leaving_hands_over:
  assumes "wf_state st" "holds st (Owner g u)" "leave_group g u st = (st', r)" "res_ok r"
  shows "\<not> holds st' (Member g u) \<and> (\<forall>v. v \<noteq> u \<longrightarrow> holds st' (Member g v) = holds st (Member g v)) \<and>
    (if \<exists>v. holds st' (Member g v) then \<exists>v. holds st' (Owner g v) \<and> holds st' (Member g v)
     else \<not> holds st' (Owned g))"
proof -
  have "policy_step (LeaveGroup g u) (facts st) (facts st')"
    using run_op_implements [OF assms(1), of "LeaveGroup g u"] assms(3,4) by (simp add: implements_def)
  moreover have "Owner g u \<in> facts st" using assms(2) by (simp only: in_facts)
  ultimately show ?thesis
    by (cases rule: policy_LeaveGroupE) (auto simp: in_facts [symmetric] simp del: in_facts holds.simps)
qed

section \<open>Connections and sessions\<close>

text \<open>
  C19: Dropping a connection ends what it was logged in for: its token authenticates nobody from then on,
  its user is offline, no download reply lists that user any more, and no other token or user is
  affected.
\<close>

theorem dropped_connection_logs_out:
  assumes "managepeer_step ssl rand now Closed cn sv = (sv', cn', reply)" "session_token cn \<noteq> []" "session_user cn \<noteq> []"
  shows "(\<forall>later. authenticates (sv_sessions sv') later (session_token cn) = None) \<and>
    (\<forall>later t. t \<noteq> session_token cn \<longrightarrow> authenticates (sv_sessions sv') later t = authenticates (sv_sessions sv) later t) \<and>
    peer_line (sv_state sv') (session_user cn) = [] \<and>
    (\<forall>u. u \<noteq> session_user cn \<longrightarrow> peer_line (sv_state sv') u = peer_line (sv_state sv) u) \<and>
    facts (sv_state sv') = facts (sv_state sv) \<and> cn' = None"
proof -
  have sv': "sv' = sv\<lparr>sv_sessions := fst (session_destroy (session_token cn) (sv_sessions sv)),
      sv_state := handle_disconnect (session_user cn) (sv_state sv)\<rparr>" and "cn' = None"
    using assms by (simp_all add: managepeer_step_def Let_def)
  moreover have "facts (handle_disconnect u st) = facts st" for u st
    using implements_disconnect [of u st] by (auto simp: implements_def elim: policy_DisconnectE)
  moreover have "peer_line (handle_disconnect u st) v = (if v = u \<and> u \<noteq> [] then [] else peer_line st v)" for u v st
    by (auto simp: handle_disconnect_def peer_line_def peer_logout_def split: option.splits)
  ultimately show ?thesis using sm.auth_revoke assms(3) by simp
qed

theorem dropped_connection_logs_out_witness:
  "peer_line (sv_state (fst (managepeer_step demo_ssl demo_rand 7 Closed
     \<lparr>cn_peer_ip = ''10.0.0.1'', session_user = ''alice'', session_token = ''t1''\<rparr> demo_server))) ''alice'' = []"
  using dropped_connection_logs_out [of demo_ssl demo_rand 7
      "\<lparr>cn_peer_ip = ''10.0.0.1'', session_user = ''alice'', session_token = ''t1''\<rparr>" demo_server]
  by (cases "managepeer_step demo_ssl demo_rand 7 Closed
     \<lparr>cn_peer_ip = ''10.0.0.1'', session_user = ''alice'', session_token = ''t1''\<rparr> demo_server") simp

end
