(* ===== verification/Replication_Guarantees.thy ===== *)
theory Replication_Guarantees imports Examples
begin

text \<open>
  What the tracker promises about its snapshots and about the link to the other tracker.
\<close>

section \<open>Snapshots\<close>

text \<open>
  C8: For every state a tracker can reach, from any snapshot file it was booted with and through any
  commands and replication messages of any connections, a successful save followed by a load restores
  exactly its accounts, groups, files and listings, with every peer offline. (The lists are of
  representable length, and no group owner is called \<open>-\<close>.)
\<close>

theorem snapshot_restores_reachable:
  assumes "st = sv_state (wd_server (fold (world_step ssl) events (booted fs0 path0)))"
    and "sizes_ok st" "no_dash_owner st"
    and "save_snapshot io path st fs = (trace, True)"
  shows "load_snapshot (last trace) path st0 = ((offline st)\<lparr>st_version := st_version st0\<rparr>, True)"
proof -
  have "stored_ok st" using assms(1) reachable_stored_ok by simp
  then show ?thesis
    using load_saved [OF stored_ok_wire_ok assms(2) stored_ok_restorable [OF _ assms(3)]]
      save_trace(2) [OF assms(4)] by blast
qed

definition demo_events :: "world_event list" where
  "demo_events = [Accept 1 ''10.0.0.1'', Input demo_rand 7 1 (Received (demo_command [''create_user'', ''alice'', ''pw'']))]"

lemma demo_events_boot:
  "sv_state (wd_server (fold (world_step demo_ssl) demo_events (booted (\<lambda>p. None) path))) =
   fst (create_user demo_ssl demo_rand ''alice'' ''pw'' empty_state)"
proof -
  have s: "split_args (demo_command [''create_user'', ''alice'', ''pw'']) = [''create_user'', ''alice'', ''pw'']"
    by (rule split_demo_command) (simp_all add: is_word_def isspace_def)
  show ?thesis
    by (simp add: demo_events_def booted_def fresh_world_def load_snapshot_def managepeer_step_def Let_def s
        dispatch_def reply_with_def del: split_args.simps split: prod.split)
qed

theorem snapshot_restores_reachable_witness:
  "\<exists>st. user_exists_locked st ''alice'' \<and>
     snd (load_snapshot (last (fst (save_snapshot \<lparr>open_ok = True, write_error = None, rename_ok = True\<rparr> ''db'' st (\<lambda>p. None)))) ''db'' empty_state)"
proof -
  let ?st = "fst (create_user demo_ssl demo_rand ''alice'' ''pw'' empty_state)"
  let ?io = "\<lparr>open_ok = True, write_error = None, rename_ok = True\<rparr>"
  let ?tr = "fst (save_snapshot ?io ''db'' ?st (\<lambda>p. None))"
  have "sizes_ok ?st" "no_dash_owner ?st"
    by (simp_all add: create_user_def Let_def lookup_defs empty_state_def put_defs sizes_ok_def records_of_def
        user_item_def no_dash_owner_def)
  moreover have save: "save_snapshot ?io ''db'' ?st (\<lambda>p. None) = (?tr, True)"
    by (simp add: save_snapshot_def Let_def)
  ultimately have "load_snapshot (last ?tr) ''db'' empty_state = ((offline ?st)\<lparr>st_version := st_version empty_state\<rparr>, True)"
    by (rule snapshot_restores_reachable [OF demo_events_boot [symmetric]])
  moreover have "user_exists_locked ?st ''alice''"
    by (simp add: create_user_def lookup_defs empty_state_def Let_def hash_password_def random_hex_def demo_rand_def
        kSaltBytes_def sha256_hex_def digest_hex_def demo_ssl_def)
  ultimately show ?thesis by (intro exI [of _ ?st]) simp
qed

text \<open>
  A save is atomic: at every point where it can be interrupted the snapshot path holds either what
  it held before or the complete new text; when the save reports failure it holds what it held before;
  and no file other than the snapshot and its temporary is touched.
\<close>

lemma save_is_atomic:
  assumes "save_snapshot io path st fs = (trace, ok)" "f \<in> set trace"
  shows "(f path = fs path \<or> f path = Some (Readable (serialize st))) \<and>
    last trace path = (if ok then Some (Readable (serialize st)) else fs path) \<and>
    (\<forall>other. other \<noteq> path \<longrightarrow> other \<noteq> path @ ''.tmp'' \<longrightarrow> f other = fs other)"
  using save_trace [OF assms(1)] assms(2) by auto

section \<open>Replication\<close>

text \<open>
  C11: Merging the serialised state of another tracker is exact set union on the facts the two share
  (users, groups, membership, requests, ownedness, files, seeders, listings); the merge is accepted, and
  the version moves precisely when something was new.
\<close>

theorem merge_is_union:
  assumes "replica_ok other" "merge_from (serialize other) st = (st', ok)"
  shows "ok \<and> shared_facts st' = shared_facts st \<union> shared_facts other \<and>
    (st_version st' = st_version st \<longleftrightarrow> shared_facts other \<subseteq> shared_facts st)"
  using merge_serialized [OF assms(1), of st] assms(2) by auto

theorem merge_is_union_witness:
  "holds (fst (merge_from (serialize demo_state) empty_state)) (Member ''g1'' ''carol'')"
proof -
  obtain st' ok where m: "merge_from (serialize demo_state) empty_state = (st', ok)" by fastforce
  have "Member ''g1'' ''carol'' \<in> shared_facts demo_state" by (simp add: demo_defs partofgroup_def)
  then have "Member ''g1'' ''carol'' \<in> shared_facts st'" using merge_is_union [OF demo_replica_ok m] by blast
  then show ?thesis by (simp add: m)
qed

text \<open>
  Two trackers that have exchanged their states agree on every shared fact, and from then on no
  further push of either moves the other's version: replication goes quiet.
\<close>

lemma replication_converges_and_stops:
  assumes "replica_ok a" "replica_ok b"
    and "fst (merge_from (serialize a) b) = b'" "fst (merge_from (serialize b) a) = a'"
    and "replica_ok a'" "replica_ok b'"
  shows "shared_facts a' = shared_facts b' \<and>
    st_version (fst (merge_from (serialize a') b')) = st_version b' \<and>
    st_version (fst (merge_from (serialize b') a')) = st_version a'"
  using trackers.exchange [OF assms(1,2)] trackers.quiet [OF assms(1,2) assms(3) [symmetric] assms(4) [symmetric] assms(5,6)]
    assms(3,4) by auto

lemma demo_exchange:
  "replica_ok empty_state"
  "fst (merge_from (serialize empty_state) demo_state) = demo_state"
  "replica_ok (fst (merge_from (serialize demo_state) empty_state))"
proof -
  show e: "replica_ok empty_state"
    by (simp add: replica_ok_def wire_ok_def sizes_ok_def restorable_def records_of_def empty_state_def)
  show "fst (merge_from (serialize empty_state) demo_state) = demo_state"
    using e by (simp add: merge_from_def apply_serialize replica_ok_def)
       (simp add: records_of_def empty_state_def)
  let ?b = "fst (merge_from (serialize demo_state) empty_state)"
  have run: "?b = (case fold (apply_record False) (records_of demo_state) (empty_state, False) of
      (st, c) \<Rightarrow> if c then bump st else st)"
    using demo_replica_ok by (auto simp: merge_from_def apply_serialize replica_ok_def split: prod.split)
  have "sizes_ok ?b" "no_dash_owner ?b" unfolding run
    by (simp_all add: records_of_def item_defs demo_defs empty_state_def lookup_defs put_defs new_group_def
        uset_insert_def index_or_def sizes_ok_def no_dash_owner_def count_ok_def LLONG_MAX_def)
  moreover have "stored_ok ?b" by (rule stored_ok_merge_from) (rule stored_ok_empty)
  ultimately show "replica_ok ?b" by (simp add: replica_ok_def stored_ok_wire_ok stored_ok_restorable)
qed

text \<open>
  However often and in whatever order states of other trackers arrive, a tracker's shared facts end
  up being the union of its own and all of theirs: duplicates, reordering and repetition do not matter.
\<close>

lemma gossip_order_irrelevant:
  assumes "\<forall>a \<in> set others. replica_ok a"
  shows "shared_facts (fold (\<lambda>a st. fst (merge_from (serialize a) st)) others st) =
    shared_facts st \<union> (\<Union>a \<in> set others. shared_facts a)"
  using assms by (rule trackers.gossip)

text \<open>
  C20: Nothing another tracker (or anybody reaching the replication port) sends, well-formed or not, can
  replace an account and its password, take over an owned group, or alter a known file's size and hashes.
\<close>

theorem merge_never_overwrites:
  "(\<forall>n p. map_of (st_peers st) n = Some p \<longrightarrow> map_of (st_peers (fst (merge_from data st))) n = Some p) \<and>
   (\<forall>g u. holds st (Owner g u) \<longrightarrow> holds (fst (merge_from data st)) (Owner g u)) \<and>
   (\<forall>k f. map_of (st_files st) k = Some f \<longrightarrow>
      (\<exists>f'. map_of (st_files (fst (merge_from data st))) k = Some f' \<and> fm_size f' = fm_size f \<and>
         fullhash f' = fullhash f \<and> num_pieces f' = num_pieces f \<and> piece_hashes f' = piece_hashes f))"
proof -
  note k = keeps_local_merge [of st data, unfolded keeps_local_def]
  have meta: "f'\<lparr>fm_peers := []\<rparr> = f\<lparr>fm_peers := []\<rparr> \<Longrightarrow> fm_size f' = fm_size f \<and>
      fullhash f' = fullhash f \<and> num_pieces f' = num_pieces f \<and> piece_hashes f' = piece_hashes f" for f f' :: file_meta
    by (cases f; cases f') simp
  have "holds st (Owner g u) \<Longrightarrow> holds (fst (merge_from data st)) (Owner g u)" for g u
    using k by (fastforce split: option.splits)
  then show ?thesis using k meta by blast
qed

theorem merge_never_overwrites_witness:
  "holds (fst (merge_from (demo_command [''GROUP'', ''g1'', ''bob'', ''1'', ''bob'', ''0'']) demo_state)) (Owner ''g1'' ''alice'')"
proof -
  have "holds demo_state (Owner ''g1'' ''alice'')" by (simp add: demo_defs)
  then show ?thesis using merge_never_overwrites [of demo_state] by blast
qed

end
