(* ===== verification/Tracker_Client.thy ===== *)
theory Tracker_Client imports Config
begin

text \<open>
  Models \<^verbatim>\<open>src/client/tracker_client.cpp\<close> and the client's tracker failover: the connection to a tracker,
  one request and one reply at a time (the mutex is held for the whole exchange).

  What happens to a command once it is framed and sent is the link, a parameter: from the state of the
  other side it gives the new state and the reply, or \<open>None\<close> when sending or receiving fails. How the
  operating system answers \<open>socket\<close>, \<open>inet_pton\<close> and \<open>connect\<close> is the record \<open>dialer\<close>.
\<close>

type_synonym 'w link = "string \<Rightarrow> 'w \<Rightarrow> 'w \<times> string option"

record dialer =
  os_socket :: bool
  os_inet_pton :: "string \<Rightarrow> bool"
  os_connect :: "string \<Rightarrow> int \<Rightarrow> bool"

record tracker_client =
  tc_open :: bool
  tc_token :: string

definition connect_to :: "dialer \<Rightarrow> string \<Rightarrow> string \<Rightarrow> tracker_client \<Rightarrow> tracker_client \<times> bool" where
  "connect_to os ip port c =
     (if \<not> os_socket os then (c, False)
      else (case parse_int port of None \<Rightarrow> (c, False)
        | Some p \<Rightarrow>
            if p \<le> 0 \<or> 65535 < p then (c, False)
            else if \<not> os_inet_pton os ip then (c, False)
            else if \<not> os_connect os ip p then (c, False)
            else (c\<lparr>tc_open := True\<rparr>, True)))"

definition tc_disconnect :: "tracker_client \<Rightarrow> tracker_client" where
  "tc_disconnect c = c\<lparr>tc_open := False\<rparr>"

definition tc_send :: "'w link \<Rightarrow> string \<Rightarrow> tracker_client \<Rightarrow> 'w \<Rightarrow> 'w \<times> string" where
  "tc_send link cmd c w =
     (if \<not> tc_open c then (w, '''')
      else (case link cmd w of (w', None) \<Rightarrow> (w', '''') | (w', Some resp) \<Rightarrow> (w', resp)))"

definition set_token :: "string \<Rightarrow> tracker_client \<Rightarrow> tracker_client" where
  "set_token t c = c\<lparr>tc_token := t\<rparr>"

definition clear_token :: "tracker_client \<Rightarrow> tracker_client" where
  "clear_token c = c\<lparr>tc_token := ''''\<rparr>"

text \<open>The failover loop of the client's \<open>main\<close>: the trackers are tried in the order of the file.\<close>

fun connect_first :: "dialer \<Rightarrow> endpoint list \<Rightarrow> tracker_client \<Rightarrow> tracker_client \<times> endpoint option" where
  "connect_first os [] c = (c, None)"
| "connect_first os (e # es) c =
     (case connect_to os (ep_ip e) (ep_port e) c of
        (c', True) \<Rightarrow> (c', Some e)
      | (c', False) \<Rightarrow> connect_first os es c')"

definition reachable :: "dialer \<Rightarrow> endpoint \<Rightarrow> bool" where
  "reachable os e \<longleftrightarrow> os_socket os \<and> valid_port (ep_port e) \<and> os_inet_pton os (ep_ip e) \<and>
     os_connect os (ep_ip e) (the (parse_int (ep_port e)))"

lemma connect_to_reachable: "connect_to os (ep_ip e) (ep_port e) c = (if reachable os e then (c\<lparr>tc_open := True\<rparr>, True) else (c, False))"
  by (auto simp: connect_to_def reachable_def valid_port_def split: option.splits)

lemma connect_first_finds:
  "connect_first os es c =
     (case find (reachable os) es of None \<Rightarrow> (c, None) | Some e \<Rightarrow> (c\<lparr>tc_open := True\<rparr>, Some e))"
  by (induction es arbitrary: c) (auto simp: connect_to_reachable)

end
