(* ===== verification/Download_Reply.thy ===== *)
theory Download_Reply imports Wire_Text
begin

text \<open>
  Models how \<^verbatim>\<open>src/client/downloader.cpp\<close> reads the tracker's answer to \<open>download_file\<close>: a scan of a
  \<open>stringstream\<close> for the metadata keywords, and a second scan of the \<open>PEERS\<close> block. A stream is the
  text left in it, or \<open>None\<close> once it has failed.
\<close>

section \<open>Extraction from a stream\<close>

text \<open>
  \<open>stream >> n\<close> for a \<open>long long\<close>: the value stored, if one is, and the stream afterwards. At the end of
  the text nothing is stored; without digits 0 is, and out of range the bound is, and the stream fails.
\<close>

definition extract_ll :: "string \<Rightarrow> int option \<times> string option" where
  "extract_ll s =
     (let s1 = dropWhile isspace s;
          neg = (s1 \<noteq> [] \<and> hd s1 = CHR ''-'');
          s2 = (if s1 \<noteq> [] \<and> (hd s1 = CHR ''-'' \<or> hd s1 = CHR ''+'') then tl s1 else s1);
          ds = takeWhile isdigit s2;
          v = (if neg then - int (dec_value ds) else int (dec_value ds))
      in if s1 = [] then (None, None)
         else if ds = [] then (Some 0, None)
         else if LLONG_MAX < v then (Some LLONG_MAX, None)
         else if v < LLONG_MIN then (Some LLONG_MIN, None)
         else (Some v, Some (dropWhile isdigit s2)))"

record reply_meta =
  rm_size :: int
  rm_fullhash :: string
  rm_pieces :: int

definition stored :: "'a option \<Rightarrow> 'a \<Rightarrow> 'a" where
  "stored v old = (case v of None \<Rightarrow> old | Some x \<Rightarrow> x)"

lemma extract_ll_shorter: "extract_ll s = (v, Some s') \<Longrightarrow> length s' < length s"
proof -
  assume a: "extract_ll s = (v, Some s')"
  define s1 where "s1 = dropWhile isspace s"
  define s2 where "s2 = (if s1 \<noteq> [] \<and> (hd s1 = CHR ''-'' \<or> hd s1 = CHR ''+'') then tl s1 else s1)"
  have "takeWhile isdigit s2 \<noteq> []" "s' = dropWhile isdigit s2"
    using a by (auto simp: extract_ll_def Let_def s1_def s2_def split: if_splits)
  then have "length s' < length s2"
    using arg_cong [OF takeWhile_dropWhile_id [of isdigit s2], of length] by (cases "takeWhile isdigit s2") auto
  also have "\<dots> \<le> length s1" by (simp add: s2_def)
  also have "\<dots> \<le> length s" by (simp add: s1_def length_dropWhile_le)
  finally show ?thesis .
qed

text \<open>The loop \<open>while (s >> word)\<close> over the metadata; it returns the stream where it stopped.\<close>

function scan_meta :: "string \<Rightarrow> reply_meta \<Rightarrow> reply_meta \<times> string option" where
  "scan_meta s m =
     (case read_word s of None \<Rightarrow> (m, None)
      | Some (word, s') \<Rightarrow>
          if word = ''SIZE'' then
            (case extract_ll s' of
               (v, None) \<Rightarrow> (m\<lparr>rm_size := stored v (rm_size m)\<rparr>, None)
             | (v, Some s'') \<Rightarrow> scan_meta s'' (m\<lparr>rm_size := stored v (rm_size m)\<rparr>))
          else if word = ''HASH'' then
            (case read_word s' of None \<Rightarrow> (m, None)
             | Some (h, s'') \<Rightarrow> scan_meta s'' (m\<lparr>rm_fullhash := h\<rparr>))
          else if word = ''PIECES'' then
            (case extract_ll s' of
               (v, None) \<Rightarrow> (m\<lparr>rm_pieces := stored v (rm_pieces m)\<rparr>, None)
             | (v, Some s'') \<Rightarrow> scan_meta s'' (m\<lparr>rm_pieces := stored v (rm_pieces m)\<rparr>))
          else if word = ''PIECE_HASHES'' then (m, Some s')
          else scan_meta s' m)"
  by pat_completeness auto
termination
  by (relation "measure (\<lambda>(s, m). length s)")
    (auto dest!: read_word_shorter extract_ll_shorter [OF sym] intro: less_trans)

declare scan_meta.simps [simp del]

fun read_hashes :: "nat \<Rightarrow> string option \<Rightarrow> string list" where
  "read_hashes 0 s = []"
| "read_hashes (Suc n) None = '''' # read_hashes n None"
| "read_hashes (Suc n) (Some s) =
     (case read_word s of None \<Rightarrow> '''' # read_hashes n None
      | Some (w, s') \<Rightarrow> w # read_hashes n (Some s'))"

definition no_meta :: reply_meta where
  "no_meta = \<lparr>rm_size = 0, rm_fullhash = '''', rm_pieces = 0\<rparr>"

text \<open>
  \<open>None\<close> is the uncaught \<open>std::length_error\<close> of \<open>piece_hashes.resize\<close> on a negative piece count, which
  terminates the process.
\<close>

definition parse_meta :: "string \<Rightarrow> (reply_meta \<times> string list) option" where
  "parse_meta r =
     (case scan_meta r no_meta of (m, s) \<Rightarrow>
        if rm_pieces m < 0 then None else Some (m, read_hashes (nat (rm_pieces m)) s))"

section \<open>The peer list\<close>

text \<open>What follows the first occurrence of a pattern (\<open>find\<close> and \<open>substr\<close>).\<close>

fun after_sub :: "string \<Rightarrow> string \<Rightarrow> string option" where
  "after_sub pat [] = (if pat = [] then Some [] else None)"
| "after_sub pat (c # cs) =
     (if take (length pat) (c # cs) = pat then Some (drop (length pat) (c # cs)) else after_sub pat cs)"

fun triples :: "'a list \<Rightarrow> ('a \<times> 'a \<times> 'a) list" where
  "triples (a # b # c # rest) = (a, b, c) # triples rest"
| "triples _ = []"

definition parse_peers :: "string \<Rightarrow> (string \<times> string \<times> string) list" where
  "parse_peers r =
     (case after_sub (newline # ''PEERS'' @ [newline]) r of None \<Rightarrow> []
      | Some block \<Rightarrow> triples (split_args block))"

section \<open>Reading what is written\<close>

lemma read_word_spaced: "is_word w \<Longrightarrow> ends_word s \<Longrightarrow> read_word (CHR '' '' # w @ s) = Some (w, s)"
  by (simp add: read_word_word)

lemma extract_ll_printed:
  assumes "0 \<le> n" "n \<le> LLONG_MAX" "ends_word s"
  shows "extract_ll (CHR '' '' # to_string n @ s) = (Some n, Some s)"
proof -
  have d: "\<forall>c \<in> set (show_nat (nat n)). isdigit c" using show_nat_digits by blast
  obtain c cs where sn: "show_nat (nat n) = c # cs" using show_nat_not_Nil by (cases "show_nat (nat n)") blast+
  have c: "\<not> isspace c" "c \<noteq> CHR ''-''" "c \<noteq> CHR ''+''" using d isdigit_not_special by (auto simp: sn)
  have "\<not> isdigit x" if "isspace x" for x using that isdigit_not_special by blast
  then have s: "takeWhile isdigit s = []" "dropWhile isdigit s = s" using assms(3) by (cases s; simp)+
  have t: "to_string n = c # cs" using assms(1) sn by (simp add: to_string_def)
  have w: "takeWhile isdigit (c # cs @ s) = c # cs" "dropWhile isdigit (c # cs @ s) = s"
    using d s takeWhile_append2 [of "c # cs" isdigit s] dropWhile_append2 [of "c # cs" isdigit s] by (auto simp: sn)
  have "dec_value (c # cs) = nat n" using dec_value_show_nat [of "nat n"] by (simp add: sn)
  then show ?thesis
    using c w assms(1,2) by (simp add: extract_ll_def Let_def t LLONG_MIN_def)
qed

lemma scan_meta_word:
  assumes "is_word w" "ends_word s" "w \<notin> {''SIZE'', ''HASH'', ''PIECES'', ''PIECE_HASHES''}"
  shows "scan_meta (w @ s) m = scan_meta s m"
  using assms by (simp add: scan_meta.simps [of "w @ s"] read_word_word)

lemma scan_meta_space: "isspace c \<Longrightarrow> scan_meta (c # s) m = scan_meta s m"
  by (simp add: scan_meta.simps [of "c # s"] scan_meta.simps [of s])

lemma keyword_words: "is_word ''FILE''" "is_word ''SIZE''" "is_word ''HASH''" "is_word ''PIECES''" "is_word ''PIECE_HASHES''"
  by (simp_all add: is_word_def isspace_def)

lemma read_hashes_spaced: "words_ok = (\<forall>w \<in> set ws. is_word w) \<Longrightarrow> words_ok \<Longrightarrow> ends_word s \<Longrightarrow>
   read_hashes (length ws) (Some (spaced ws @ s)) = ws"
  by (induction ws) (auto simp: read_word_word)

lemma scan_size:
  assumes "w = ''SIZE''" "0 \<le> n" "n \<le> LLONG_MAX" "ends_word s"
  shows "scan_meta (CHR '' '' # w @ CHR '' '' # to_string n @ s) m = scan_meta s (m\<lparr>rm_size := n\<rparr>)"
proof -
  have r: "read_word (CHR '' '' # w @ CHR '' '' # to_string n @ s) = Some (w, CHR '' '' # to_string n @ s)"
    by (rule read_word_spaced) (simp_all add: assms(1) keyword_words)
  show ?thesis
    unfolding scan_meta.simps [of "CHR '' '' # w @ CHR '' '' # to_string n @ s"] r
    using extract_ll_printed [OF assms(2-4)] by (simp add: assms(1) stored_def)
qed

lemma scan_pieces:
  assumes "w = ''PIECES''" "0 \<le> n" "n \<le> LLONG_MAX" "ends_word s"
  shows "scan_meta (CHR '' '' # w @ CHR '' '' # to_string n @ s) m = scan_meta s (m\<lparr>rm_pieces := n\<rparr>)"
proof -
  have r: "read_word (CHR '' '' # w @ CHR '' '' # to_string n @ s) = Some (w, CHR '' '' # to_string n @ s)"
    by (rule read_word_spaced) (simp_all add: assms(1) keyword_words)
  show ?thesis
    unfolding scan_meta.simps [of "CHR '' '' # w @ CHR '' '' # to_string n @ s"] r
    using extract_ll_printed [OF assms(2-4)] by (simp add: assms(1) stored_def)
qed

lemma scan_hash:
  assumes "w = ''HASH''" "is_word h" "ends_word s"
  shows "scan_meta (CHR '' '' # w @ CHR '' '' # h @ s) m = scan_meta s (m\<lparr>rm_fullhash := h\<rparr>)"
proof -
  have r: "read_word (CHR '' '' # w @ CHR '' '' # h @ s) = Some (w, CHR '' '' # h @ s)"
    by (rule read_word_spaced) (simp_all add: assms(1) keyword_words)
  show ?thesis
    unfolding scan_meta.simps [of "CHR '' '' # w @ CHR '' '' # h @ s"] r
    using read_word_spaced [OF assms(2,3)] by (simp add: assms(1))
qed

lemma scan_end:
  assumes "w = ''PIECE_HASHES''" "ends_word s"
  shows "scan_meta (CHR '' '' # w @ s) m = (m, Some s)"
proof -
  have r: "read_word (CHR '' '' # w @ s) = Some (w, s)"
    by (rule read_word_spaced) (simp_all add: assms keyword_words)
  show ?thesis
    unfolding scan_meta.simps [of "CHR '' '' # w @ s"] r by (simp add: assms(1))
qed

text \<open>The metadata part of a reply, as the tracker writes it.\<close>

definition reply_header :: "string \<Rightarrow> int \<Rightarrow> string \<Rightarrow> int \<Rightarrow> string" where
  "reply_header fname n h k = ''FILE '' @ fname @ '' SIZE '' @ to_string n @ '' HASH '' @ h @ '' PIECES '' @
     to_string k @ '' PIECE_HASHES''"

definition reply_words :: "string set" where
  "reply_words = {''SIZE'', ''HASH'', ''PIECES'', ''PIECE_HASHES''}"

lemma scan_header:
  assumes "is_word fname" "fname \<notin> reply_words" "0 \<le> n" "n \<le> LLONG_MAX" "is_word h" "0 \<le> k" "k \<le> LLONG_MAX" "ends_word t"
  shows "scan_meta (reply_header fname n h k @ t) no_meta = (\<lparr>rm_size = n, rm_fullhash = h, rm_pieces = k\<rparr>, Some t)"
proof -
  let ?sp = "CHR '' ''"
  obtain F S H P E where kw: "F = ''FILE''" "S = ''SIZE''" "H = ''HASH''" "P = ''PIECES''" "E = ''PIECE_HASHES''" by blast
  define s7 where "s7 = ?sp # E @ t"
  define s6 where "s6 = ?sp # P @ ?sp # to_string k @ s7"
  define s5 where "s5 = ?sp # H @ ?sp # h @ s6"
  define s4 where "s4 = ?sp # S @ ?sp # to_string n @ s5"
  have ends: "ends_word s7" "ends_word s6" "ends_word s5" "ends_word s4"
    by (simp_all add: s7_def s6_def s5_def s4_def)
  have "reply_header fname n h k @ t = F @ ?sp # fname @ s4"
    by (simp add: reply_header_def kw s7_def s6_def s5_def s4_def)
  moreover have "scan_meta (F @ ?sp # fname @ s4) m = scan_meta (?sp # fname @ s4) m" for m
    by (rule scan_meta_word) (simp_all add: kw keyword_words)
  moreover have "scan_meta (fname @ s4) m = scan_meta s4 m" for m
    by (rule scan_meta_word) (use assms(1,2) ends in \<open>simp_all add: reply_words_def\<close>)
  moreover have "scan_meta s4 m = scan_meta s5 (m\<lparr>rm_size := n\<rparr>)" for m
    unfolding s4_def by (rule scan_size [OF kw(2) assms(3,4) ends(3)])
  moreover have "scan_meta s5 m = scan_meta s6 (m\<lparr>rm_fullhash := h\<rparr>)" for m
    unfolding s5_def by (rule scan_hash [OF kw(3) assms(5) ends(2)])
  moreover have "scan_meta s6 m = scan_meta s7 (m\<lparr>rm_pieces := k\<rparr>)" for m
    unfolding s6_def by (rule scan_pieces [OF kw(4) assms(6,7) ends(1)])
  moreover have "scan_meta s7 m = (m, Some t)" for m
    unfolding s7_def by (rule scan_end [OF kw(5) assms(8)])
  ultimately show ?thesis by (simp add: scan_meta_space no_meta_def)
qed

text \<open>The peers block: the first line feed of a reply ends the metadata line.\<close>

lemma after_sub_at:
  assumes "c \<notin> set s"
  shows "after_sub (c # pat) (s @ c # pat @ rest) = Some rest"
  using assms by (induction s) auto

lemma triples_concat: "triples (concat (map (\<lambda>(a, b, c). [a, b, c]) ps)) = ps"
  by (induction ps) auto

lemma split_args_unlines:
  assumes "\<forall>ws \<in> set wss. ws \<noteq> [] \<and> (\<forall>w \<in> set ws. is_word w)" "\<forall>c \<in> set tail. isspace c"
  shows "split_args (unlines (map (\<lambda>ws. hd ws @ spaced (tl ws)) wss) @ tail) = concat wss"
  using assms(1)
proof (induction wss)
  case Nil
  have "\<forall>c \<in> set tail. isspace c \<Longrightarrow> split_args tail = []" for tail by (induction tail) auto
  then show ?case using assms(2) by simp
next
  case (Cons ws wss)
  obtain v vs where ws: "ws = v # vs" using Cons.prems by (cases ws) auto
  let ?rest = "newline # unlines (map (\<lambda>ws. hd ws @ spaced (tl ws)) wss) @ tail"
  have "split_args (v @ spaced vs @ ?rest) = v # split_args (spaced vs @ ?rest)"
    using Cons.prems by (intro split_args_word) (simp_all add: ws)
  also have "split_args (spaced vs @ ?rest) = vs @ split_args ?rest"
    using Cons.prems by (intro split_args_spaced) (simp_all add: ws)
  also have "split_args ?rest = concat wss" using Cons by simp
  finally show ?case by (simp add: ws)
qed

text \<open>A whole reply is read back: metadata, hashes and peers.\<close>

lemma parse_printed_reply:
  assumes "is_word fname" "fname \<notin> reply_words" "0 \<le> n" "n \<le> LLONG_MAX" "is_word h"
    and "\<forall>w \<in> set hs. is_word w" "int (length hs) \<le> LLONG_MAX"
    and "\<forall>(a, b, c) \<in> set ps. is_word a \<and> is_word b \<and> is_word c"
    and "r = reply_header fname n h (int (length hs)) @ spaced hs @ newline # ''PEERS'' @ newline #
      unlines (map (\<lambda>(a, b, c). a @ spaced [b, c]) ps) @ [newline]"
  shows "parse_meta r = Some (\<lparr>rm_size = n, rm_fullhash = h, rm_pieces = int (length hs)\<rparr>, hs)"
    and "parse_peers r = ps"
proof -
  let ?tail = "newline # ''PEERS'' @ newline # unlines (map (\<lambda>(a, b, c). a @ spaced [b, c]) ps) @ [newline]"
  let ?block = "unlines (map (\<lambda>(a, b, c). a @ spaced [b, c]) ps) @ [newline]"
  have "ends_word (spaced hs @ ?tail)" by (rule ends_word_spaced) simp
  then have "scan_meta r no_meta = (\<lparr>rm_size = n, rm_fullhash = h, rm_pieces = int (length hs)\<rparr>, Some (spaced hs @ ?tail))"
    unfolding assms(9) using assms by (intro scan_header) simp_all
  moreover have "read_hashes (length hs) (Some (spaced hs @ ?tail)) = hs"
    using assms(6) by (intro read_hashes_spaced [OF refl]) simp_all
  ultimately show "parse_meta r = Some (\<lparr>rm_size = n, rm_fullhash = h, rm_pieces = int (length hs)\<rparr>, hs)"
    by (simp add: parse_meta_def)
  have "newline \<notin> set (reply_header fname n h (int (length hs)))"
    using is_word_no_newline [OF assms(1)] is_word_no_newline [OF assms(5)] is_word_no_newline [OF to_string_word]
    by (auto simp: reply_header_def newline_def)
  then have "newline \<notin> set (reply_header fname n h (int (length hs)) @ spaced hs)"
    using spaced_no_newline [OF assms(6)] by simp
  from after_sub_at [OF this, of "''PEERS'' @ [newline]" ?block]
  have "after_sub (newline # ''PEERS'' @ [newline]) r = Some ?block" by (simp add: assms(9))
  moreover have "split_args ?block = concat (map (\<lambda>(a, b, c). [a, b, c]) ps)"
  proof -
    have eq: "map (\<lambda>(a, b, c). a @ spaced [b, c]) ps = map (\<lambda>ws. hd ws @ spaced (tl ws)) (map (\<lambda>(a, b, c). [a, b, c]) ps)"
      by (induction ps) auto
    have w: "\<forall>ws \<in> set (map (\<lambda>(a, b, c). [a, b, c]) ps). ws \<noteq> [] \<and> (\<forall>w \<in> set ws. is_word w)"
      using assms(8) by auto
    have nl: "\<forall>c \<in> set [newline]. isspace c" by simp
    show ?thesis unfolding eq by (rule split_args_unlines [OF w nl])
  qed
  ultimately show "parse_peers r = ps" by (simp add: parse_peers_def triples_concat)
qed

end
