(* ===== verification/Upload_Registry.thy ===== *)
theory Upload_Registry imports Prelude
begin

text \<open>
  Models \<^verbatim>\<open>src/client/upload_registry.cpp\<close>: the files this client serves, by file name, each under its own
  path. Every operation holds the registry's mutex, so each is one atomic step.
\<close>

type_synonym registry = "string umap"

definition registry_add :: "string \<Rightarrow> string \<Rightarrow> registry \<Rightarrow> registry" where
  "registry_add filename path fs = AList.update filename path fs"

definition registry_remove :: "string \<Rightarrow> registry \<Rightarrow> registry" where
  "registry_remove filename fs = AList.delete filename fs"

definition registry_path_for :: "string \<Rightarrow> registry \<Rightarrow> string option" where
  "registry_path_for filename fs = map_of fs filename"

definition registry_contains :: "string \<Rightarrow> registry \<Rightarrow> bool" where
  "registry_contains filename fs \<longleftrightarrow> map_of fs filename \<noteq> None"

text \<open>What the peer server and the commands rely on: a table from names to paths.\<close>

locale name_table =
  fixes put :: "'k \<Rightarrow> 'v \<Rightarrow> 't \<Rightarrow> 't"
    and del :: "'k \<Rightarrow> 't \<Rightarrow> 't"
    and find :: "'k \<Rightarrow> 't \<Rightarrow> 'v option"
    and has :: "'k \<Rightarrow> 't \<Rightarrow> bool"
  assumes find_put: "find k (put k' v t) = (if k = k' then Some v else find k t)"
    and find_del: "find k (del k' t) = (if k = k' then None else find k t)"
    and has_find: "has k t \<longleftrightarrow> find k t \<noteq> None"
begin

lemma has_put: "has k (put k' v t) \<longleftrightarrow> k = k' \<or> has k t"
  by (simp add: has_find find_put)

lemma has_del: "has k (del k' t) \<longleftrightarrow> k \<noteq> k' \<and> has k t"
  by (simp add: has_find find_del)

lemma find_put_del: "find k (del k (put k v t)) = None"
  by (simp add: find_del)

text \<open>The last of several registrations under one name wins.\<close>

lemma find_puts: "find k (fold (\<lambda>(k, v). put k v) kvs t) = (case map_of (rev kvs) k of None \<Rightarrow> find k t | Some v \<Rightarrow> Some v)"
proof (induction kvs rule: rev_induct)
  case (snoc kv kvs)
  then show ?case by (cases kv) (simp add: find_put)
qed simp

end

interpretation registry: name_table registry_add registry_remove registry_path_for registry_contains
  by unfold_locales
    (simp_all add: registry_add_def registry_remove_def registry_path_for_def registry_contains_def)

end
