(* ===== verification/Downloader.thy ===== *)
theory Downloader imports Tracker_Client Download_Reply Upload_Registry
begin

text \<open>
  Models \<^verbatim>\<open>src/client/downloader.cpp\<close>: the table of downloads (\<open>start\<close>, \<open>mark_inactive\<close>, \<open>snapshot\<close>,
  \<open>report\<close>) and the stages of \<open>run\<close>: the metadata request, the allocation of the output file, the
  resume state, the worker's loop over peers and attempts for one piece, and the final verification.

  The network is a parameter: what a peer at an address answers to a request in a round of attempts
  (\<open>None\<close> for any failure to connect, send or receive); the disk answers each write with a
  \<open>disk_result\<close>. The state file is the list of the \<open>int\<close> values it holds.
\<close>

section \<open>The table of downloads\<close>

record download_info =
  di_group_id :: string
  di_filename :: string
  di_dest_path :: string
  di_total_size :: int
  di_total_pieces :: int
  di_completed :: int
  di_status :: "int list"
  di_hashes :: "string list"
  di_full_hash :: string
  di_active :: bool

type_synonym downloads = "download_info umap"

definition new_download :: download_info where
  "new_download = \<lparr>di_group_id = '''', di_filename = '''', di_dest_path = '''', di_total_size = 0,
     di_total_pieces = 0, di_completed = 0, di_status = [], di_hashes = [], di_full_hash = '''', di_active = False\<rparr>"

text \<open>\<open>start\<close> claims the slot; the result \<open>True\<close> means that the caller's thread runs the download.\<close>

definition start_download :: "string \<Rightarrow> string \<Rightarrow> downloads \<Rightarrow> downloads \<times> bool" where
  "start_download gid fname ds =
     (if (case map_of ds fname of None \<Rightarrow> False | Some di \<Rightarrow> di_active di) then (ds, False)
      else (AList.update fname (new_download\<lparr>di_group_id := gid, di_filename := fname, di_active := True\<rparr>) ds, True))"

definition mark_inactive :: "string \<Rightarrow> downloads \<Rightarrow> downloads" where
  "mark_inactive fname ds =
     (case map_of ds fname of None \<Rightarrow> ds | Some di \<Rightarrow> AList.update fname (di\<lparr>di_active := False\<rparr>) ds)"

definition snapshot :: "downloads \<Rightarrow> download_info list" where
  "snapshot ds = map snd ds"

definition count_status :: "int \<Rightarrow> int list \<Rightarrow> int" where
  "count_status v st = int (length (filter (\<lambda>s. s = v) st))"

definition is_completed :: "download_info \<Rightarrow> bool" where
  "is_completed di \<longleftrightarrow> di_status di \<noteq> [] \<and> (\<forall>s \<in> set (di_status di). s = 2)"

definition status_line :: "download_info \<Rightarrow> string" where
  "status_line di =
     (if di_status di = [] then ''PREPARING (fetching metadata)''
      else if is_completed di then ''COMPLETED''
      else to_string (count_status 0 (di_status di)) @ '' pending, '' @
           to_string (count_status 1 (di_status di)) @ '' downloading, '' @
           to_string (count_status 2 (di_status di)) @ '' completed, '' @
           to_string (count_status 3 (di_status di)) @ '' failed'')"

definition download_report :: "download_info \<Rightarrow> string" where
  "download_report di =
     ''File: '' @ di_filename di @ [newline] @
     ''  Group: '' @ di_group_id di @ [newline] @
     ''  Size: '' @ to_string (di_total_size di) @ '' bytes'' @ [newline] @
     ''  Progress: '' @ to_string (di_completed di) @ ''/'' @ to_string (di_total_pieces di) @ '' pieces ('' @
       to_string (if 0 < di_total_pieces di then (di_completed di * 100) div di_total_pieces di else 0) @ ''%)'' @ [newline] @
     ''  Status: '' @ status_line di @ [newline] @
     ''----------------------------------------'' @ [newline]"

definition shown :: "download_info \<Rightarrow> bool" where
  "shown di \<longleftrightarrow> di_active di \<or> is_completed di"

definition report :: "downloads \<Rightarrow> string" where
  "report ds =
     ''========== Downloads =========='' @ [newline] @
     concat (map download_report (filter shown (snapshot ds))) @
     (if filter shown (snapshot ds) = [] then ''No downloads found.'' @ [newline] else '''')"

section \<open>The output file\<close>

definition dest_file :: "string \<Rightarrow> string \<Rightarrow> string" where
  "dest_file destpath fname = (if last destpath = CHR ''/'' then destpath else destpath @ ''/'') @ fname"

text \<open>
  Opening without truncation (\<open>rb+\<close>, else \<open>wb+\<close>), then one zero byte at \<open>size - 1\<close>.
\<close>

definition preallocate :: "int \<Rightarrow> string option \<Rightarrow> string" where
  "preallocate sz old =
     (let f = (case old of None \<Rightarrow> [] | Some c \<Rightarrow> c) in
      if 0 < sz then write_at (nat (sz - 1)) [CHR 0x00] f else f)"

text \<open>The resume state: entries the state file does not have are pending.\<close>

definition load_status :: "nat \<Rightarrow> int list option \<Rightarrow> int list" where
  "load_status n statefile =
     (case statefile of None \<Rightarrow> replicate n 0
      | Some st \<Rightarrow> map (\<lambda>i. if i < length st then st ! i else 0) [0..<n])"

definition pending_pieces :: "int list \<Rightarrow> nat list" where
  "pending_pieces status = filter (\<lambda>i. status ! i \<noteq> 2) [0..<length status]"

section \<open>The worker's loop for one piece\<close>

datatype disk_result = Cannot_open | Cannot_seek | Short_write nat | Flush_fails nat | Written

type_synonym network = "nat \<Rightarrow> string \<Rightarrow> int \<Rightarrow> string \<Rightarrow> string option"
type_synonym peer_entry = "string \<times> string \<times> string"

definition MAX_RETRIES :: nat where "MAX_RETRIES = 5"

definition peer_order :: "nat \<Rightarrow> nat \<Rightarrow> nat list" where
  "peer_order worker_id peers = rotate (worker_id mod peers) [0..<peers]"

text \<open>One peer asked for one piece; an answer of more than \<open>kPieceSize\<close> bytes is no answer.\<close>

definition ask_peer :: "network \<Rightarrow> nat \<Rightarrow> string \<Rightarrow> nat \<Rightarrow> peer_entry \<Rightarrow> string option" where
  "ask_peer net round fname piece p =
     (case p of (pname, pip, pport) \<Rightarrow>
       (case parse_int pport of None \<Rightarrow> None
        | Some port \<Rightarrow>
            if port \<le> 0 \<or> 65535 < port then None
            else (case net round pip port (''GET_PIECE '' @ fname @ '' '' @ to_string (int piece)) of
                None \<Rightarrow> None
              | Some payload \<Rightarrow> if kPieceSize < length payload then None else Some payload)))"

text \<open>The \<open>for\<close> loop over the peers: the file, the attempts used, and whether the piece is done.\<close>

fun try_peers ::
  "openssl \<Rightarrow> string \<Rightarrow> nat \<Rightarrow> (nat \<Rightarrow> string option) \<Rightarrow> (nat \<Rightarrow> disk_result) \<Rightarrow> nat list \<Rightarrow> string \<Rightarrow> nat \<Rightarrow>
   string \<times> nat \<times> bool" where
  "try_peers ssl expected off ask disk [] f attempt = (f, attempt, False)"
| "try_peers ssl expected off ask disk (p # ps) f attempt =
     (case ask p of
        None \<Rightarrow> try_peers ssl expected off ask disk ps f attempt
      | Some data \<Rightarrow>
          if sha1_hex ssl data \<noteq> expected then try_peers ssl expected off ask disk ps f (attempt + 1)
          else (case disk p of
              Cannot_open \<Rightarrow> try_peers ssl expected off ask disk ps f (attempt + 1)
            | Cannot_seek \<Rightarrow> try_peers ssl expected off ask disk ps f (attempt + 1)
            | Short_write n \<Rightarrow> try_peers ssl expected off ask disk ps (write_at off (take n data) f) (attempt + 1)
            | Flush_fails n \<Rightarrow> try_peers ssl expected off ask disk ps (write_at off (take n data) f) (attempt + 1)
            | Written \<Rightarrow> (write_at off data f, attempt, True)))"

lemma try_peers_attempts: "try_peers ssl e off ask disk ps f a = (f', a', ok) \<Longrightarrow> a \<le> a'"
  by (induction ps arbitrary: f a) (fastforce split: option.splits if_splits disk_result.splits)+

text \<open>\<open>while (attempt < MAX_RETRIES && !success)\<close>; the first argument counts the rounds.\<close>

function fetch_piece ::
  "nat \<Rightarrow> openssl \<Rightarrow> string \<Rightarrow> nat \<Rightarrow> (nat \<Rightarrow> nat \<Rightarrow> string option) \<Rightarrow> (nat \<Rightarrow> nat \<Rightarrow> disk_result) \<Rightarrow> nat list \<Rightarrow>
   string \<Rightarrow> nat \<Rightarrow> string \<times> bool" where
  "fetch_piece round ssl expected off ask disk order f attempt =
     (if attempt < MAX_RETRIES then
        (case try_peers ssl expected off (ask round) (disk round) order f attempt of
           (f', attempt', success) \<Rightarrow>
             if success then (f', True)
             else fetch_piece (round + 1) ssl expected off ask disk order f' (attempt' + 1))
      else (f, False))"
  by pat_completeness auto
termination
  by (relation "measure (\<lambda>(r, ssl, e, off, ask, disk, ps, f, attempt). MAX_RETRIES - attempt)")
    (auto dest: try_peers_attempts [OF sym])

declare fetch_piece.simps [simp del]

text \<open>
  A worker's loop: the pieces it pops from the shared queue, in order. The answers of the network and
  the disk are given per piece. It records each piece as downloading, completed or failed.
\<close>

fun work ::
  "openssl \<Rightarrow> string list \<Rightarrow> (nat \<Rightarrow> nat \<Rightarrow> nat \<Rightarrow> string option) \<Rightarrow> (nat \<Rightarrow> nat \<Rightarrow> nat \<Rightarrow> disk_result) \<Rightarrow>
   nat list \<Rightarrow> nat list \<Rightarrow> string \<times> int list \<Rightarrow> string \<times> int list" where
  "work ssl hashes ask disk order [] (f, status) = (f, status)"
| "work ssl hashes ask disk order (p # ps) (f, status) =
     (case fetch_piece 0 ssl (hashes ! p) (p * kPieceSize) (ask p) (disk p) order f 0 of
        (f', success) \<Rightarrow> work ssl hashes ask disk order ps (f', status[p := (if success then 2 else 3)]))"

section \<open>The stages before the workers\<close>

record output_io =
  out_opens :: bool
  out_seeks :: bool
  out_puts :: bool

datatype preparation = Stopped | Crashed | Ready download_info "peer_entry list"

text \<open>
  From the tracker's reply to the entry in the table. Every early return marks the download inactive
  (the guard object); an uncaught exception ends the process. A failing \<open>fflush\<close> of the reserved byte is only
  printed by the code; here the byte is taken to be written. An old file that opens for writing but cannot be
  read counts as empty.
\<close>

definition prepare_run ::
  "'w link \<Rightarrow> output_io \<Rightarrow> string \<Rightarrow> string \<Rightarrow> string \<Rightarrow> (string \<Rightarrow> int list option) \<Rightarrow>
   tracker_client \<Rightarrow> 'w \<Rightarrow> downloads \<Rightarrow> filesystem \<Rightarrow> 'w \<times> downloads \<times> filesystem \<times> preparation" where
  "prepare_run link io gid fname destpath statefiles tc w ds fs =
     (case tc_send link (''download_file '' @ tc_token tc @ '' '' @ gid @ '' '' @ fname) tc w of (w', r) \<Rightarrow>
        let inactive = mark_inactive fname ds; fullout = dest_file destpath fname;
            old = (case fs fullout of Some (Readable c) \<Rightarrow> Some c | _ \<Rightarrow> None)
        in if take 5 r \<noteq> ''FILE '' then (w', inactive, fs, Stopped)
           else (case parse_meta r of None \<Rightarrow> (w', ds, fs, Crashed)
             | Some (m, hashes) \<Rightarrow>
                 if parse_peers r = [] then (w', inactive, fs, Stopped)
                 else if \<not> out_opens io then (w', inactive, fs, Stopped)
                 else if 0 < rm_size m \<and> \<not> (out_seeks io \<and> out_puts io) then
                   (w', inactive, fs(fullout \<mapsto> Readable (case old of None \<Rightarrow> [] | Some c \<Rightarrow> c)), Stopped)
                 else
                   let info = \<lparr>di_group_id = gid, di_filename = fname, di_dest_path = fullout,
                         di_total_size = rm_size m, di_total_pieces = rm_pieces m, di_completed = 0,
                         di_status = load_status (nat (rm_pieces m)) (statefiles (fullout @ ''.downloading'')),
                         di_hashes = hashes, di_full_hash = rm_fullhash m, di_active = True\<rparr>
                   in (w', AList.update fname info ds, fs(fullout \<mapsto> Readable (preallocate (rm_size m) old)),
                       Ready info (parse_peers r))))"

section \<open>The state file\<close>

type_synonym statefiles = "string \<Rightarrow> int list option"

text \<open>\<open>save_state\<close>: nothing happens when the file cannot be opened.\<close>

definition save_state :: "bool \<Rightarrow> string \<Rightarrow> int list \<Rightarrow> statefiles \<Rightarrow> statefiles" where
  "save_state opens statefile status sf = (if opens then sf(statefile \<mapsto> status) else sf)"

lemma load_saved_state: "length status = n \<Longrightarrow> load_status n (save_state True p status sf p) = status"
  by (simp add: load_status_def save_state_def list_eq_iff_nth_eq)

section \<open>The final verification\<close>

datatype verdict = Incomplete | Mismatch | Complete

text \<open>
  What a run works on: the table of downloads, the file system, the state files, the registry and the
  other end of the tracker connection.
\<close>

record 'w run_env =
  re_downloads :: downloads
  re_fs :: filesystem
  re_statefiles :: statefiles
  re_registry :: registry
  re_link :: 'w

text \<open>
  The verdict over the recorded piece states; a complete file is registered for serving and announced
  to the tracker with \<open>file_downloaded\<close>, and its state file is removed.
\<close>

definition all_completed :: "string \<Rightarrow> nat \<Rightarrow> downloads \<Rightarrow> bool" where
  "all_completed fname n ds \<longleftrightarrow>
     (case map_of ds fname of None \<Rightarrow> True | Some di \<Rightarrow> (\<forall>i < n. di_status di ! i = 2))"

definition finish_run ::
  "openssl \<Rightarrow> 'w link \<Rightarrow> bool \<Rightarrow> string \<Rightarrow> string \<Rightarrow> string \<Rightarrow> string \<Rightarrow> int list \<Rightarrow>
   tracker_client \<Rightarrow> 'w run_env \<Rightarrow> 'w run_env \<times> verdict" where
  "finish_run ssl link opens gid fname fullout fullhash status tc e =
     (let statefile = fullout @ ''.downloading'';
          e' = e\<lparr>re_downloads := mark_inactive fname (re_downloads e)\<rparr>;
          saved = e'\<lparr>re_statefiles := save_state opens statefile status (re_statefiles e)\<rparr>
      in if \<not> all_completed fname (length status) (re_downloads e) then (saved, Incomplete)
         else if sha1_file_hex ssl (re_fs e) fullout = fullhash then
           (e'\<lparr>re_registry := registry_add fname fullout (re_registry e),
               re_link := fst (tc_send link (''file_downloaded '' @ tc_token tc @ '' '' @ gid @ '' '' @ fname) tc (re_link e)),
               re_statefiles := (re_statefiles e)(statefile := None)\<rparr>, Complete)
         else (saved, Mismatch))"

section \<open>The whole run\<close>

text \<open>
  \<open>workers\<close> is what the pool of worker threads makes of the file and the piece states, whatever the
  scheduling, the peers and the disk do; \<open>work\<close> is one such pool. The table receives the states of the
  pieces and the number newly completed.
\<close>

type_synonym workers = "string list \<Rightarrow> peer_entry list \<Rightarrow> string \<times> int list \<Rightarrow> string \<times> int list"

definition record_status :: "string \<Rightarrow> int list \<Rightarrow> downloads \<Rightarrow> downloads" where
  "record_status fname status ds =
     (case map_of ds fname of None \<Rightarrow> ds
      | Some di \<Rightarrow> AList.update fname
          (di\<lparr>di_status := status, di_completed := di_completed di + (count_status 2 status - count_status 2 (di_status di))\<rparr>) ds)"

datatype outcome = Crash | Gave_up | Ended verdict

definition content_of :: "filesystem \<Rightarrow> string \<Rightarrow> string" where
  "content_of fs path = (case fs path of Some (Readable c) \<Rightarrow> c | _ \<Rightarrow> [])"

definition run ::
  "openssl \<Rightarrow> 'w link \<Rightarrow> output_io \<Rightarrow> bool \<Rightarrow> workers \<Rightarrow> string \<Rightarrow> string \<Rightarrow> string \<Rightarrow> tracker_client \<Rightarrow>
   'w run_env \<Rightarrow> 'w run_env \<times> outcome" where
  "run ssl link io opens pool gid fname destpath tc e =
     (case prepare_run link io gid fname destpath (re_statefiles e) tc (re_link e) (re_downloads e) (re_fs e) of
        (w, ds, fs, Stopped) \<Rightarrow> (e\<lparr>re_link := w, re_downloads := ds, re_fs := fs\<rparr>, Gave_up)
      | (w, ds, fs, Crashed) \<Rightarrow> (e\<lparr>re_link := w, re_downloads := ds, re_fs := fs\<rparr>, Crash)
      | (w, ds, fs, Ready info peers) \<Rightarrow>
          let fullout = di_dest_path info; statefile = fullout @ ''.downloading'' in
          (case pool (di_hashes info) peers (content_of fs fullout, di_status info) of (f, status) \<Rightarrow>
             (case finish_run ssl link opens gid fname fullout (di_full_hash info) status tc
                 (e\<lparr>re_link := w, re_downloads := record_status fname status ds, re_fs := fs(fullout \<mapsto> Readable f),
                    re_statefiles := (if pending_pieces (di_status info) = [] then re_statefiles e
                      else save_state opens statefile status (re_statefiles e))\<rparr>) of
                (e', v) \<Rightarrow> (e', Ended v))))"

end
