(* ===== verification/Peer_Server.thy ===== *)
theory Peer_Server imports Upload_Registry Hash Socket_IO
begin

text \<open>
  Models \<^verbatim>\<open>src/client/peer_server.cpp\<close>: \<open>serve_one\<close>, which answers one \<open>GET_PIECE\<close> request, and the queue
  of accepted connections that \<open>accept_loop\<close> fills, \<open>worker_loop\<close> drains and \<open>stop\<close> shuts down. Serving a connection is one step, which includes that \<open>serve_one\<close> closes
  the descriptor on each of its paths.
\<close>

section \<open>serve_one\<close>

text \<open>\<open>pread(fd, buf, count, offset)\<close> on a file; \<open>None\<close> is an error.\<close>

definition pread :: "disk_file \<Rightarrow> nat \<Rightarrow> nat \<Rightarrow> string option" where
  "pread f count offset =
     (case f of Readable content \<Rightarrow> Some (take count (drop offset content)) | Unreadable n \<Rightarrow> None)"

text \<open>
  The argument is what \<open>recv_framed\<close> delivered; the result is the payload handed to \<open>send_framed\<close>, or
  \<open>None\<close> when the connection is closed without an answer.
\<close>

definition serve_one :: "registry \<Rightarrow> filesystem \<Rightarrow> string option \<Rightarrow> string option" where
  "serve_one reg fs req =
     (case req of None \<Rightarrow> None
      | Some request \<Rightarrow>
          let args = split_args request in
          if args = [] \<or> args ! 0 \<noteq> ''GET_PIECE'' \<or> length args < 3 then None
          else (case parse_int (args ! 2) of None \<Rightarrow> None
            | Some index \<Rightarrow>
                if index < 0 then None
                else (case registry_path_for (args ! 1) reg of None \<Rightarrow> None
                  | Some fullpath \<Rightarrow> (case fs fullpath of None \<Rightarrow> None
                    | Some fd \<Rightarrow> (case pread fd kPieceSize (nat index * kPieceSize) of None \<Rightarrow> None
                      | Some buf \<Rightarrow> if buf = [] then None else Some buf)))))"

lemma serve_one_answer:
  "serve_one reg fs (Some request) = Some payload \<longleftrightarrow>
   (\<exists>index fullpath content. 3 \<le> length (split_args request) \<and> split_args request ! 0 = ''GET_PIECE'' \<and>
      parse_int (split_args request ! 2) = Some index \<and> 0 \<le> index \<and>
      registry_path_for (split_args request ! 1) reg = Some fullpath \<and> fs fullpath = Some (Readable content) \<and>
      payload = piece_at content (nat index) \<and> payload \<noteq> [])"
proof -
  have len: "3 \<le> length ws \<Longrightarrow> ws \<noteq> []" for ws :: "string list" by auto
  have nz: "(kPieceSize = 0) = False" by (simp add: kPieceSize_def)
  show ?thesis
    using len [of "split_args request"]
    by (auto simp: nz serve_one_def Let_def pread_def piece_at_def not_less split: option.splits disk_file.splits if_splits)
qed

text \<open>A request for a piece of a registered file is answered with that piece; it fits one frame.\<close>

lemma split_piece_request:
  assumes "is_word fname" "0 \<le> i"
  shows "split_args (''GET_PIECE '' @ fname @ '' '' @ to_string i) = [''GET_PIECE'', fname, to_string i]"
proof -
  have "is_word ''GET_PIECE''" by (simp add: is_word_def isspace_def)
  then show ?thesis
    using split_args_command [of "''GET_PIECE''" "[fname, to_string i]"] assms by (simp add: to_string_word)
qed

lemma serve_piece:
  assumes "is_word fname" "0 \<le> i" "i \<le> INT_MAX" "registry_path_for fname reg = Some p"
    "fs p = Some (Readable content)" "piece_at content (nat i) \<noteq> []"
  shows "serve_one reg fs (Some (''GET_PIECE '' @ fname @ '' '' @ to_string i)) = Some (piece_at content (nat i))"
proof -
  have "parse_int (to_string i) = Some i" using assms(2,3) by (simp add: parse_int_to_string INT_MIN_def)
  then show ?thesis using assms unfolding serve_one_answer split_piece_request [OF assms(1,2)] by simp
qed

lemma piece_at_length: "length (piece_at content i) \<le> kPieceSize"
  by (simp add: piece_at_def)

section \<open>The connection queue\<close>

text \<open>
  \<open>accepting\<close> is true until the accept thread returns, \<open>workers\<close> counts the worker threads still
  running, \<open>serving\<close> holds the connections workers have taken, \<open>finished\<close> those closed. Every step is
  one critical section under \<open>mtx_\<close>, or one whole \<open>serve_one\<close>.
\<close>

record peer_server =
  accepting :: bool
  workers :: nat
  pending :: "nat list"
  serving :: "nat list"
  finished :: "nat list"
  stopping :: bool

definition started :: "nat \<Rightarrow> peer_server" where
  "started num_workers = \<lparr>accepting = True, workers = num_workers, pending = [], serving = [], finished = [], stopping = False\<rparr>"

definition peer_server_start :: "listen_os \<Rightarrow> nat \<Rightarrow> string \<Rightarrow> string \<Rightarrow> peer_server option" where
  "peer_server_start os num_workers ip port =
     (if \<not> ls_socket os then None
      else if \<not> ls_setsockopt os then None
      else if \<not> ls_inet_pton os ip then None
      else (case parse_int port of None \<Rightarrow> None
        | Some listen_port \<Rightarrow>
            if listen_port \<le> 0 \<or> 65535 < listen_port then None
            else if \<not> ls_bind os ip listen_port then None
            else if \<not> ls_listen os then None
            else Some (started num_workers)))"

text \<open>
  The accept loop's turn once \<open>accept\<close> has returned: a connection that arrives after \<open>stop\<close> is closed
  at once and ends the thread. A worker's turns: taking a connection, finishing it, leaving. \<open>stop\<close>: its
  first critical section, and the loop that closes what is left once every thread is joined.
\<close>

definition accept_turn :: "nat option \<Rightarrow> peer_server \<Rightarrow> peer_server" where
  "accept_turn accepted s =
     (if stopping s then s\<lparr>accepting := False, finished := finished s @ (case accepted of None \<Rightarrow> [] | Some fd \<Rightarrow> [fd])\<rparr>
      else (case accepted of None \<Rightarrow> s | Some fd \<Rightarrow> s\<lparr>pending := pending s @ [fd]\<rparr>))"

definition worker_turn :: "peer_server \<Rightarrow> peer_server" where
  "worker_turn s =
     (case pending s of
        [] \<Rightarrow> if stopping s then s\<lparr>workers := workers s - 1\<rparr> else s
      | fd # rest \<Rightarrow> s\<lparr>pending := rest, serving := serving s @ [fd]\<rparr>)"

definition served :: "nat \<Rightarrow> peer_server \<Rightarrow> peer_server" where
  "served fd s = s\<lparr>serving := remove1 fd (serving s), finished := finished s @ [fd]\<rparr>"

definition stop_begin :: "peer_server \<Rightarrow> peer_server" where
  "stop_begin s = s\<lparr>stopping := True\<rparr>"

text \<open>The joins of \<open>stop\<close>: the accept thread has returned, and so has every worker.\<close>

definition joined :: "peer_server \<Rightarrow> bool" where
  "joined s \<longleftrightarrow> \<not> accepting s \<and> workers s = 0"

definition stop_drain :: "peer_server \<Rightarrow> peer_server" where
  "stop_drain s = s\<lparr>pending := [], finished := finished s @ pending s\<rparr>"

lemmas turn_defs = accept_turn_def worker_turn_def served_def stop_begin_def stop_drain_def joined_def

inductive server_step :: "peer_server \<Rightarrow> peer_server \<Rightarrow> bool" where
  accept: "accepting s \<Longrightarrow> (\<forall>fd. accepted = Some fd \<longrightarrow> fd \<notin> set (pending s @ serving s @ finished s)) \<Longrightarrow>
    server_step s (accept_turn accepted s)"
| worker: "length (serving s) < workers s \<Longrightarrow> server_step s (worker_turn s)"
| closed: "fd \<in> set (serving s) \<Longrightarrow> server_step s (served fd s)"
| stop: "server_step s (stop_begin s)"
| drain: "stopping s \<Longrightarrow> joined s \<Longrightarrow> server_step s (stop_drain s)"

inductive_cases server_stepE: "server_step s s'"

text \<open>
  Every connection is in one place only; a worker serves one connection at a time; workers leave only
  once there is nothing left to serve.
\<close>

definition server_inv :: "nat \<Rightarrow> peer_server \<Rightarrow> bool" where
  "server_inv n s \<longleftrightarrow> distinct (pending s @ serving s @ finished s) \<and> length (serving s) \<le> workers s \<and>
     workers s \<le> n \<and> (workers s < n \<longrightarrow> stopping s \<and> pending s = []) \<and> (\<not> accepting s \<longrightarrow> stopping s)"

lemma server_inv_start: "server_inv n (started n)"
  by (simp add: server_inv_def started_def)

lemma server_inv_step: "server_inv n s \<Longrightarrow> server_step s s' \<Longrightarrow> server_inv n s'"
  by (erule server_stepE) (auto simp: server_inv_def turn_defs distinct_remove1 length_remove1
    dest: set_remove1_subset [THEN subsetD] split: option.splits list.splits)

lemma server_inv_reachable: "server_step\<^sup>*\<^sup>* (started n) s \<Longrightarrow> server_inv n s"
  by (induction rule: rtranclp_induct) (auto intro: server_inv_start server_inv_step)

text \<open>The connections accepted so far, wherever they are now.\<close>

definition accepted_fds :: "peer_server \<Rightarrow> nat set" where
  "accepted_fds s = set (pending s) \<union> set (serving s) \<union> set (finished s)"

lemma accepted_fds_step: "server_inv n s \<Longrightarrow> server_step s s' \<Longrightarrow> accepted_fds s \<subseteq> accepted_fds s'"
  by (erule server_stepE) (auto simp: accepted_fds_def server_inv_def turn_defs split: option.splits list.splits)

text \<open>After \<open>stop\<close>, once the threads are gone nothing accepted is left unserved.\<close>

lemma stopped_all_finished:
  assumes "0 < n" "server_step\<^sup>*\<^sup>* (started n) s" "workers s = 0"
  shows "pending s = [] \<and> serving s = [] \<and> accepted_fds s = set (finished s)"
  using server_inv_reachable [OF assms(2)] assms(1,3) by (auto simp: server_inv_def accepted_fds_def)

end
