(* ===== verification/Download_Guarantees.thy ===== *)
theory Download_Guarantees imports Downloader Peer_Server
begin

text \<open>
  What the downloader guarantees: whatever the peers send and however the workers interleave, a piece
  recorded as completed is on disk with its published hash; retries are bounded and one honest peer is
  enough; a file is served and announced only when its full hash matches.
\<close>

section \<open>Writing at an offset\<close>

lemma nth_write_at:
  assumes "i < length (write_at off d f)"
  shows "write_at off d f ! i =
    (if off \<le> i \<and> i < off + length d then d ! (i - off) else if i < length f then f ! i else CHR 0x00)"
proof (cases "d = []")
  case False
  define pre where "pre = take off (f @ replicate (off - length f) (CHR 0x00))"
  have len: "length pre = off" by (simp add: pre_def)
  have w: "write_at off d f = pre @ d @ drop (off + length d) f" using False by (simp add: write_at_def pre_def)
  have "i < off \<Longrightarrow> pre ! i = (if i < length f then f ! i else CHR 0x00)"
    by (auto simp: pre_def nth_append)
  moreover have "off + length d \<le> i \<Longrightarrow> i < length f"
    using assms False by (simp add: length_write_at max_def split: if_splits)
  ultimately show ?thesis
    unfolding w by (auto simp: nth_append len)
qed (use assms in \<open>auto simp: write_at_def\<close>)

text \<open>The bytes at an offset.\<close>

definition holds_at :: "string \<Rightarrow> nat \<Rightarrow> string \<Rightarrow> bool" where
  "holds_at f off d \<longleftrightarrow> (d \<noteq> [] \<longrightarrow> off + length d \<le> length f) \<and> (\<forall>i < length d. f ! (off + i) = d ! i)"

lemma holds_at_write: "holds_at (write_at off d f) off d"
proof (cases "d = []")
  case False
  then show ?thesis by (simp add: holds_at_def length_write_at nth_write_at)
qed (simp add: holds_at_def)

lemma holds_at_write_disjoint:
  assumes "holds_at f off d" "off + length d \<le> off' \<or> off' + length d' \<le> off"
  shows "holds_at (write_at off' d' f) off d"
  using assms by (auto simp: holds_at_def length_write_at nth_write_at)

lemma holds_at_take: "holds_at f off d \<Longrightarrow> take (length d) (drop off f) = d"
  by (cases "d = []") (auto simp: holds_at_def intro!: nth_equalityI)

section \<open>Interleaved workers\<close>

text \<open>
  All workers of one download. \<open>busy\<close> holds the pieces workers have popped. Every write of a worker is
  at its piece's offset and comes from a payload with the piece's hash; it may reach the disk only in
  part. (\<open>holds\<close> of the queue mutex, one write call and one status update are the atomic steps.)
\<close>

record transfer =
  tr_file :: string
  tr_status :: "int list"
  tr_queue :: "nat list"
  tr_busy :: "nat list"

definition verified :: "openssl \<Rightarrow> string list \<Rightarrow> nat \<Rightarrow> string \<Rightarrow> bool" where
  "verified ssl hashes p data \<longleftrightarrow> sha1_hex ssl data = hashes ! p \<and> length data \<le> kPieceSize"

inductive transfer_step :: "openssl \<Rightarrow> string list \<Rightarrow> transfer \<Rightarrow> transfer \<Rightarrow> bool"
  for ssl hashes where
  pop: "tr_queue t = p # q \<Longrightarrow>
    transfer_step ssl hashes t (t\<lparr>tr_queue := q, tr_busy := p # tr_busy t, tr_status := (tr_status t)[p := 1]\<rparr>)"
| partial_write: "p \<in> set (tr_busy t) \<Longrightarrow> verified ssl hashes p data \<Longrightarrow>
    transfer_step ssl hashes t (t\<lparr>tr_file := write_at (p * kPieceSize) (take n data) (tr_file t)\<rparr>)"
| complete: "p \<in> set (tr_busy t) \<Longrightarrow> verified ssl hashes p data \<Longrightarrow>
    transfer_step ssl hashes t (t\<lparr>tr_file := write_at (p * kPieceSize) data (tr_file t),
      tr_busy := remove1 p (tr_busy t), tr_status := (tr_status t)[p := 2]\<rparr>)"
| give_up: "p \<in> set (tr_busy t) \<Longrightarrow>
    transfer_step ssl hashes t (t\<lparr>tr_busy := remove1 p (tr_busy t), tr_status := (tr_status t)[p := 3]\<rparr>)"

inductive_cases transfer_stepE: "transfer_step ssl hashes t t'"

definition fresh_transfer :: "string \<Rightarrow> nat \<Rightarrow> transfer" where
  "fresh_transfer f n = \<lparr>tr_file = f, tr_status = replicate n 0, tr_queue = pending_pieces (replicate n 0), tr_busy = []\<rparr>"

definition on_disk :: "openssl \<Rightarrow> string list \<Rightarrow> string \<Rightarrow> nat \<Rightarrow> bool" where
  "on_disk ssl hashes f p \<longleftrightarrow> (\<exists>data. verified ssl hashes p data \<and> holds_at f (p * kPieceSize) data)"

definition transfer_inv :: "openssl \<Rightarrow> string list \<Rightarrow> nat \<Rightarrow> transfer \<Rightarrow> bool" where
  "transfer_inv ssl hashes n t \<longleftrightarrow> length (tr_status t) = n \<and> distinct (tr_queue t @ tr_busy t) \<and>
     (\<forall>p \<in> set (tr_queue t @ tr_busy t). p < n \<and> tr_status t ! p \<noteq> 2) \<and>
     (\<forall>p < n. tr_status t ! p = 2 \<longrightarrow> on_disk ssl hashes (tr_file t) p)"

lemma transfer_inv_fresh: "transfer_inv ssl hashes n (fresh_transfer f n)"
  by (auto simp: transfer_inv_def fresh_transfer_def pending_pieces_def)

lemma pieces_disjoint:
  assumes "length d \<le> kPieceSize" "length d' \<le> kPieceSize" "p \<noteq> q"
  shows "p * kPieceSize + length d \<le> q * kPieceSize \<or> q * kPieceSize + length d' \<le> p * kPieceSize"
proof (cases "p < q")
  case True
  then have "Suc p * kPieceSize \<le> q * kPieceSize" by (intro mult_le_mono1) simp
  then show ?thesis using assms(1) by simp
next
  case False
  then have "Suc q * kPieceSize \<le> p * kPieceSize" using assms(3) by (intro mult_le_mono1) simp
  then show ?thesis using assms(2) by simp
qed

lemma on_disk_other_write:
  assumes "on_disk ssl hashes f q" "length d \<le> kPieceSize" "p \<noteq> q"
  shows "on_disk ssl hashes (write_at (p * kPieceSize) d f) q"
proof -
  obtain data where v: "verified ssl hashes q data" "holds_at f (q * kPieceSize) data"
    using assms(1) by (auto simp: on_disk_def)
  then have "holds_at (write_at (p * kPieceSize) d f) (q * kPieceSize) data"
    using pieces_disjoint [of data d q p] assms(2,3) by (intro holds_at_write_disjoint) (auto simp: verified_def)
  then show ?thesis using v by (auto simp: on_disk_def)
qed

lemma transfer_inv_step:
  assumes "transfer_inv ssl hashes n t" "transfer_step ssl hashes t t'"
  shows "transfer_inv ssl hashes n t'"
  using assms(2)
proof (cases rule: transfer_step.cases)
  case (pop p q)
  then show ?thesis using assms(1) by (auto simp: transfer_inv_def nth_list_update)
next
  case (partial_write p data k)
  then have "tr_status t ! p \<noteq> 2" "length (take k data) \<le> kPieceSize"
    using assms(1) by (auto simp: transfer_inv_def verified_def)
  then have "q < n \<Longrightarrow> tr_status t ! q = 2 \<Longrightarrow> on_disk ssl hashes (write_at (p * kPieceSize) (take k data) (tr_file t)) q" for q
    using assms(1) on_disk_other_write [of ssl hashes "tr_file t" q "take k data" p] by (auto simp: transfer_inv_def)
  then show ?thesis using assms(1) partial_write by (simp add: transfer_inv_def)
next
  case (complete p data)
  have p: "p < n" "tr_status t ! p \<noteq> 2" "p \<notin> set (tr_queue t)" "p \<notin> set (remove1 p (tr_busy t))"
    and len: "length data \<le> kPieceSize"
    using assms(1) complete by (auto simp: transfer_inv_def verified_def)
  have "on_disk ssl hashes (write_at (p * kPieceSize) data (tr_file t)) p"
    using complete holds_at_write by (auto simp: on_disk_def)
  moreover have "q < n \<Longrightarrow> q \<noteq> p \<Longrightarrow> tr_status t ! q = 2 \<Longrightarrow> on_disk ssl hashes (write_at (p * kPieceSize) data (tr_file t)) q" for q
    using assms(1) len on_disk_other_write by (auto simp: transfer_inv_def)
  ultimately show ?thesis using assms(1) complete p
    by (auto simp: transfer_inv_def nth_list_update dest: set_remove1_subset [THEN subsetD])
next
  case (give_up p)
  have "p \<notin> set (tr_queue t)" "p \<notin> set (remove1 p (tr_busy t))"
    using assms(1) give_up by (auto simp: transfer_inv_def)
  then show ?thesis using assms(1) give_up
    by (auto simp: transfer_inv_def nth_list_update dest: set_remove1_subset [THEN subsetD])
qed

lemma transfer_inv_reachable:
  "(transfer_step ssl hashes)\<^sup>*\<^sup>* (fresh_transfer f n) t \<Longrightarrow> transfer_inv ssl hashes n t"
  by (induction rule: rtranclp_induct) (auto intro: transfer_inv_fresh transfer_inv_step)

section \<open>The worker's loop is such a sequence of steps\<close>

lemma try_peers_steps:
  assumes "\<forall>q data. ask q = Some data \<longrightarrow> length data \<le> kPieceSize" "p \<in> set (tr_busy t)"
    and "try_peers ssl (hashes ! p) (p * kPieceSize) ask disk ps (tr_file t) a = (f', a', ok)"
  shows "(transfer_step ssl hashes)\<^sup>*\<^sup>* t (if ok then t\<lparr>tr_file := f', tr_busy := remove1 p (tr_busy t), tr_status := (tr_status t)[p := 2]\<rparr>
    else t\<lparr>tr_file := f'\<rparr>)"
  using assms(2,3)
proof (induction ps arbitrary: t a)
  case (Cons q ps)
  show ?case
  proof (cases "\<exists>data. ask q = Some data \<and> sha1_hex ssl data = hashes ! p")
    case False
    then show ?thesis using Cons by (auto split: option.splits if_splits)
  next
    case True
    then obtain data where d: "ask q = Some data" "sha1_hex ssl data = hashes ! p" by blast
    then have v: "verified ssl hashes p data" using assms(1) by (simp add: verified_def)
    have part: ?thesis
      if "try_peers ssl (hashes ! p) (p * kPieceSize) ask disk ps (write_at (p * kPieceSize) (take k data) (tr_file t)) (a + 1) = (f', a', ok)" for k
    proof -
      let ?t = "t\<lparr>tr_file := write_at (p * kPieceSize) (take k data) (tr_file t)\<rparr>"
      have "transfer_step ssl hashes t ?t" by (rule transfer_step.partial_write [OF Cons.prems(1) v])
      moreover have "(transfer_step ssl hashes)\<^sup>*\<^sup>* ?t (if ok then ?t\<lparr>tr_file := f', tr_busy := remove1 p (tr_busy ?t), tr_status := (tr_status ?t)[p := 2]\<rparr>
          else ?t\<lparr>tr_file := f'\<rparr>)"
        using Cons.prems(1) that by (intro Cons.IH [of ?t "a + 1"]) simp_all
      ultimately show ?thesis by (simp split: if_splits)
    qed
    show ?thesis
    proof (cases "disk q")
      case Written
      then show ?thesis using Cons.prems d transfer_step.complete [OF Cons.prems(1) v] by auto
    next
      case (Short_write k)
      then show ?thesis using Cons.prems(2) d part [of k] by simp
    next
      case (Flush_fails k)
      then show ?thesis using Cons.prems(2) d part [of k] by simp
    qed (use Cons d in auto)
  qed
qed auto

lemma fetch_piece_steps:
  assumes "\<forall>r q data. ask r q = Some data \<longrightarrow> length data \<le> kPieceSize" "p \<in> set (tr_busy t)"
    and "fetch_piece r ssl (hashes ! p) (p * kPieceSize) ask disk order (tr_file t) a = (f', ok)"
  shows "(transfer_step ssl hashes)\<^sup>*\<^sup>* t
    (t\<lparr>tr_file := f', tr_busy := remove1 p (tr_busy t), tr_status := (tr_status t)[p := (if ok then 2 else 3)]\<rparr>)"
  using assms(2,3)
proof (induction "MAX_RETRIES - a" arbitrary: r t a rule: less_induct)
  case less
  show ?case
  proof (cases "a < MAX_RETRIES")
    case False
    then have "f' = tr_file t \<and> \<not> ok" using less.prems(2) by (simp add: fetch_piece.simps [of r])
    then show ?thesis using transfer_step.give_up [OF less.prems(1), of ssl hashes] by auto
  next
    case True
    obtain f1 a1 ok1 where t1: "try_peers ssl (hashes ! p) (p * kPieceSize) (ask r) (disk r) order (tr_file t) a = (f1, a1, ok1)"
      by (cases "try_peers ssl (hashes ! p) (p * kPieceSize) (ask r) (disk r) order (tr_file t) a") auto
    have steps: "(transfer_step ssl hashes)\<^sup>*\<^sup>* t (if ok1 then t\<lparr>tr_file := f1, tr_busy := remove1 p (tr_busy t), tr_status := (tr_status t)[p := 2]\<rparr>
        else t\<lparr>tr_file := f1\<rparr>)"
      using assms(1) by (intro try_peers_steps [OF _ less.prems(1) t1]) blast
    show ?thesis
    proof (cases ok1)
      case ok1: True
      then show ?thesis using steps less.prems(2) True t1 by (simp add: fetch_piece.simps [of r])
    next
      case False
      let ?t = "t\<lparr>tr_file := f1\<rparr>"
      have next_round: "fetch_piece (r + 1) ssl (hashes ! p) (p * kPieceSize) ask disk order (tr_file ?t) (a1 + 1) = (f', ok)"
        using less.prems(2) True t1 False by (simp add: fetch_piece.simps [of r])
      have "MAX_RETRIES - (a1 + 1) < MAX_RETRIES - a" using try_peers_attempts [OF t1] True by linarith
      from less.hyps [OF this _ next_round] less.prems(1)
      have "(transfer_step ssl hashes)\<^sup>*\<^sup>* ?t
        (?t\<lparr>tr_file := f', tr_busy := remove1 p (tr_busy ?t), tr_status := (tr_status ?t)[p := (if ok then 2 else 3)]\<rparr>)"
        by simp
      with steps False show ?thesis by simp
    qed
  qed
qed

text \<open>One worker emptying the queue is a run of the transfer.\<close>

lemma work_steps:
  assumes "\<forall>p r q data. ask p r q = Some data \<longrightarrow> length data \<le> kPieceSize"
    and "work ssl hashes ask disk order (tr_queue t) (tr_file t, tr_status t) = (f', st')" "tr_busy t = []"
  shows "(transfer_step ssl hashes)\<^sup>*\<^sup>* t (t\<lparr>tr_file := f', tr_status := st', tr_queue := []\<rparr>)"
  using assms(2,3)
proof (induction "tr_queue t" arbitrary: t)
  case Nil
  then show ?case by (cases t) simp
next
  case (Cons p ps)
  obtain f1 ok where f: "fetch_piece 0 ssl (hashes ! p) (p * kPieceSize) (ask p) (disk p) order (tr_file t) 0 = (f1, ok)"
    by (cases "fetch_piece 0 ssl (hashes ! p) (p * kPieceSize) (ask p) (disk p) order (tr_file t) 0") auto
  let ?t1 = "t\<lparr>tr_queue := ps, tr_busy := [p], tr_status := (tr_status t)[p := 1]\<rparr>"
  let ?t2 = "t\<lparr>tr_file := f1, tr_queue := ps, tr_status := (tr_status t)[p := (if ok then 2 else 3)]\<rparr>"
  have q: "tr_queue t = p # ps" using Cons.hyps(2) by simp
  have "transfer_step ssl hashes t ?t1"
    using transfer_step.pop [OF q, of ssl hashes] Cons.prems(2) by simp
  moreover have "(transfer_step ssl hashes)\<^sup>*\<^sup>* ?t1 ?t2"
  proof -
    have "\<forall>r q data. ask p r q = Some data \<longrightarrow> length data \<le> kPieceSize" using assms(1) by blast
    from fetch_piece_steps [OF this, of p ?t1 0 ssl hashes "disk p" order 0 f1 ok] f
    have "(transfer_step ssl hashes)\<^sup>*\<^sup>* ?t1
      (?t1\<lparr>tr_file := f1, tr_busy := remove1 p (tr_busy ?t1), tr_status := (tr_status ?t1)[p := (if ok then 2 else 3)]\<rparr>)"
      by simp
    also have "?t1\<lparr>tr_file := f1, tr_busy := remove1 p (tr_busy ?t1), tr_status := (tr_status ?t1)[p := (if ok then 2 else 3)]\<rparr> = ?t2"
      using Cons.prems(2) by (cases t) simp
    finally show ?thesis .
  qed
  moreover have "(transfer_step ssl hashes)\<^sup>*\<^sup>* ?t2 (?t2\<lparr>tr_file := f', tr_status := st', tr_queue := []\<rparr>)"
    using Cons.prems f q by (intro Cons.hyps(1)) simp_all
  ultimately show ?case by simp
qed

section \<open>What is delivered\<close>

lemma length_piece_at: "length (piece_at c p) = min kPieceSize (length c - p * kPieceSize)"
  by (simp add: piece_at_def min.commute)

definition piece_list :: "openssl \<Rightarrow> string \<Rightarrow> string list" where
  "piece_list ssl c = map (\<lambda>i. sha1_hex ssl (piece_at c i)) [0..<piece_count (length c)]"

text \<open>No other data of piece size has the hash of one of the file's pieces.\<close>

definition collision_free :: "openssl \<Rightarrow> string \<Rightarrow> bool" where
  "collision_free ssl c \<longleftrightarrow> (\<forall>i < piece_count (length c). \<forall>d. length d \<le> kPieceSize \<longrightarrow>
     sha1_hex ssl d = sha1_hex ssl (piece_at c i) \<longrightarrow> d = piece_at c i)"

lemma verified_piece:
  "collision_free ssl c \<Longrightarrow> p < piece_count (length c) \<Longrightarrow> verified ssl (piece_list ssl c) p d \<Longrightarrow> d = piece_at c p"
  by (simp add: collision_free_def verified_def piece_list_def)

lemma transfer_length_step:
  assumes "collision_free ssl c" "transfer_inv ssl (piece_list ssl c) (piece_count (length c)) t"
    and "length (tr_file t) = length c" "transfer_step ssl (piece_list ssl c) t t'"
  shows "length (tr_file t') = length c"
proof -
  have wr: "length (write_at (p * kPieceSize) (take k d) (tr_file t)) = length c"
    if "p \<in> set (tr_busy t)" "verified ssl (piece_list ssl c) p d" for p d k
  proof -
    have p: "p < piece_count (length c)" using that(1) assms(2) by (auto simp: transfer_inv_def)
    then have "p * kPieceSize + length d \<le> length c"
      using verified_piece [OF assms(1) p that(2)] by (simp add: length_piece_at piece_count_iff)
    then show ?thesis using assms(3) by (auto simp: length_write_at)
  qed
  show ?thesis using assms(4)
  proof (cases rule: transfer_step.cases)
    case (complete p d)
    then show ?thesis using wr [of p d "length d"] by simp
  qed (use assms(3) wr in auto)
qed

lemma transfer_length_reachable:
  assumes "collision_free ssl c" "length f0 = length c"
    and "(transfer_step ssl (piece_list ssl c))\<^sup>*\<^sup>* (fresh_transfer f0 (piece_count (length c))) t"
  shows "length (tr_file t) = length c"
  using assms(3)
proof (induction rule: rtranclp_induct)
  case base
  then show ?case by (simp add: fresh_transfer_def assms(2))
next
  case (step t t')
  then show ?case using transfer_length_step [OF assms(1) transfer_inv_reachable] by blast
qed

lemma all_on_disk_content:
  assumes "collision_free ssl c" "length f = length c"
    and "\<forall>p < piece_count (length c). on_disk ssl (piece_list ssl c) f p"
  shows "f = c"
proof (rule nth_equalityI)
  fix i assume i: "i < length f"
  define p where "p = i div kPieceSize"
  have pi: "p * kPieceSize \<le> i" "i < p * kPieceSize + kPieceSize"
    using div_mult_mod_eq [of i kPieceSize] mod_less_divisor [OF kPieceSize_pos, of i] unfolding p_def by linarith+
  then have p: "p < piece_count (length c)" using i assms(2) by (simp add: piece_count_iff)
  then have h: "holds_at f (p * kPieceSize) (piece_at c p)"
    using assms(3) verified_piece [OF assms(1) p] by (auto simp: on_disk_def)
  have j: "i - p * kPieceSize < length (piece_at c p)" using pi i assms(2) unfolding length_piece_at by linarith
  then have "f ! i = piece_at c p ! (i - p * kPieceSize)" using h pi by (auto simp: holds_at_def)
  also have "\<dots> = c ! i" using j pi i assms(2) by (simp add: piece_at_def nth_drop)
  finally show "f ! i = c ! i" .
qed (rule assms(2))

lemma work_length: "work ssl hs ask disk order ps (f, st) = (f', st') \<Longrightarrow> length st' = length st"
  by (induction ps arbitrary: f st) (auto split: prod.splits)

lemma length_preallocate_new: "length (preallocate (int n) None) = n"
  by (cases n) (simp_all add: preallocate_def length_write_at)

section \<open>Properties\<close>

text \<open>
  However the workers interleave and whatever the peers answer, at every moment of a new download
  each piece recorded as completed is on disk, at its offset, as data with the piece's published SHA-1.
\<close>

lemma completed_pieces_are_verified:
  assumes "(transfer_step ssl hashes)\<^sup>*\<^sup>* (fresh_transfer f0 n) t" "p < n" "tr_status t ! p = 2"
  shows "\<exists>data. sha1_hex ssl data = hashes ! p \<and> take (length data) (drop (p * kPieceSize) (tr_file t)) = data"
  using transfer_inv_reachable [OF assms(1)] assms(2,3) holds_at_take
  by (fastforce simp: transfer_inv_def on_disk_def verified_def)

definition demo_sha :: openssl where
  "demo_sha = \<lparr>evp_sha1 = (\<lambda>d. Some (map (\<lambda>c. of_nat (of_char c)) d)), evp_sha256 = (\<lambda>d. None)\<rparr>"

text \<open>
  Retries are bounded: what a worker does for a piece depends on the answers of at most five rounds
  over the peers, so no peer can keep it busy for ever.
\<close>

lemma retries_are_bounded:
  assumes "\<forall>r < MAX_RETRIES. \<forall>q. ask r q = ask' r q \<and> disk r q = disk' r q"
  shows "fetch_piece 0 ssl expected off ask disk order f 0 = fetch_piece 0 ssl expected off ask' disk' order f 0"
proof -
  have "r \<le> a \<Longrightarrow> fetch_piece r ssl expected off ask disk order f a = fetch_piece r ssl expected off ask' disk' order f a" for r a f
  proof (induction "MAX_RETRIES - a" arbitrary: r a f rule: less_induct)
    case less
    show ?case
    proof (cases "a < MAX_RETRIES")
      case True
      then have "ask r = ask' r" "disk r = disk' r" using assms less.prems by (auto simp: fun_eq_iff)
      moreover obtain f1 a1 ok where t: "try_peers ssl expected off (ask r) (disk r) order f a = (f1, a1, ok)"
        by (cases "try_peers ssl expected off (ask r) (disk r) order f a") auto
      moreover have "a \<le> a1" using try_peers_attempts [OF t] .
      then have "fetch_piece (r + 1) ssl expected off ask disk order f1 (a1 + 1) = fetch_piece (r + 1) ssl expected off ask' disk' order f1 (a1 + 1)"
        using less.prems True by (intro less.hyps) linarith+
      ultimately show ?thesis
        by (simp add: fetch_piece.simps [of r])
    qed (simp add: fetch_piece.simps [of r])
  qed
  then show ?thesis by blast
qed

lemma try_peers_good:
  assumes "p \<in> set ps" "ask p = Some data" "sha1_hex ssl data = expected" "disk p = Written"
    and "try_peers ssl expected off ask disk ps f a = (f', a', ok)"
  shows "ok"
  using assms(1,5)
  by (induction ps arbitrary: f a) (auto simp: assms(2-4) split: option.splits if_splits disk_result.splits)

text \<open>
  One honest peer is enough: if any peer of the list answers the first request with data of the
  right hash and the disk takes it, the piece is completed, whatever the other peers do.
\<close>

lemma one_honest_peer_suffices:
  assumes "q \<in> set order" "ask 0 q = Some data" "sha1_hex ssl data = expected" "disk 0 q = Written"
  shows "snd (fetch_piece 0 ssl expected off ask disk order f 0)"
proof -
  obtain f1 a1 ok where t: "try_peers ssl expected off (ask 0) (disk 0) order f 0 = (f1, a1, ok)"
    by (cases "try_peers ssl expected off (ask 0) (disk 0) order f 0") auto
  then have "ok" using try_peers_good [OF assms(1), of "ask 0"] assms(2-4) by blast
  then show ?thesis using t by (simp add: fetch_piece.simps [of 0] MAX_RETRIES_def)
qed

text \<open>
  A new download of a published file delivers it: once every piece is recorded as completed, in
  whatever order and with whatever failed or partial attempts in between, the file on disk is the
  publisher's, byte for byte. (The published piece hashes belong to no other data.)
\<close>

lemma download_delivers_the_file:
  assumes "collision_free ssl c"
    and "(transfer_step ssl (piece_list ssl c))\<^sup>*\<^sup>*
      (fresh_transfer (preallocate (int (length c)) None) (piece_count (length c))) t"
    and "\<forall>s \<in> set (tr_status t). s = 2"
  shows "tr_file t = c"
proof -
  have len0: "length (preallocate (int (length c)) None) = length c" by (rule length_preallocate_new)
  have inv: "transfer_inv ssl (piece_list ssl c) (piece_count (length c)) t"
    by (rule transfer_inv_reachable [OF assms(2)])
  then have "\<forall>p < piece_count (length c). on_disk ssl (piece_list ssl c) (tr_file t) p"
    using assms(3) by (auto simp: transfer_inv_def)
  then show ?thesis
    by (rule all_on_disk_content [OF assms(1) transfer_length_reachable [OF assms(1) len0 assms(2)]])
qed

lemma bytes_inj:
  assumes "map (\<lambda>c. of_nat (of_char c) :: 8 word) d = map (\<lambda>c. of_nat (of_char c)) d'"
  shows "d = d'"
proof -
  from assms have "map (\<lambda>x. unat (x :: 8 word)) (map (\<lambda>c. of_nat (of_char c)) d) = map unat (map (\<lambda>c. of_nat (of_char c) :: 8 word) d')"
    by (simp only:)
  moreover have "unat (of_nat (of_char c) :: 8 word) = (of_char c :: nat)" for c :: char
  proof -
    have "(of_char c :: nat) mod 256 = of_char c" using of_char_of [of "of_char c :: nat"] by simp
    then show ?thesis by (simp add: unat_of_nat del: of_nat_of_char)
  qed
  ultimately have "map (of_char :: char \<Rightarrow> nat) d = map of_char d'"
    by (simp add: comp_def del: of_nat_of_char)
  then show ?thesis by (simp add: inj_map_eq_map inj_def)
qed

lemma demo_sha_inj: "sha1_hex demo_sha d = sha1_hex demo_sha d' \<Longrightarrow> d = d'"
  by (intro bytes_inj) (auto simp: sha1_hex_def digest_hex_def demo_sha_def dest: to_hex_inj)

lemma demo_pieces: "piece_count 2 = 1" "piece_list demo_sha ''ab'' = [sha1_hex demo_sha ''ab'']" "collision_free demo_sha ''ab''"
proof -
  show n: "piece_count 2 = 1" by (simp add: piece_count_def kPieceSize_def)
  have "piece_at ''ab'' 0 = ''ab''" by (simp add: piece_at_def kPieceSize_def)
  then show "piece_list demo_sha ''ab'' = [sha1_hex demo_sha ''ab'']"
    using n by (simp add: piece_list_def numeral_2_eq_2)
  show "collision_free demo_sha ''ab''" using demo_sha_inj by (simp add: collision_free_def)
qed

section \<open>The end of a run\<close>

lemma sha1_file_readable: "fs path = Some (Readable c) \<Longrightarrow> sha1_file_hex ssl fs path = sha1_hex ssl c"
  by (simp add: sha1_file_hex_def sha1_hex_def)

definition active_download :: "downloads \<Rightarrow> string \<Rightarrow> bool" where
  "active_download ds fname \<longleftrightarrow> (case map_of ds fname of None \<Rightarrow> False | Some di \<Rightarrow> di_active di)"

lemma mark_inactive_inactive [simp]: "\<not> active_download (mark_inactive fname ds) fname"
  by (auto simp: active_download_def mark_inactive_def update_conv' split: option.splits)

lemma finish_run_inactive: "\<not> active_download (re_downloads (fst (finish_run ssl link opens gid fname fullout h status tc e))) fname"
  by (simp add: finish_run_def Let_def)

lemma start_download_free: "snd (start_download gid fname ds) \<longleftrightarrow> \<not> active_download ds fname"
  by (simp add: start_download_def active_download_def)

lemma prepared:
  assumes "prepare_run link io gid fname destpath sfs tc w ds fs = (w', ds', fs', Ready info peers)"
  shows "map_of ds' fname = Some info" "di_dest_path info = dest_file destpath fname" "di_active info" "peers \<noteq> []"
    "length (di_status info) = nat (di_total_pieces info)"
  using assms by (auto simp: prepare_run_def Let_def update_conv' load_status_def split: prod.splits option.splits if_splits)

text \<open>
  C26: Only verified files are shared: whatever the tracker replies, the peers send and the workers do, a
  run that ends as complete has a file on disk with the published full SHA-1, every piece of it recorded
  as completed, and registers exactly that file; a run that ends in any other way (no such file, no
  peers, disk errors, missing pieces, wrong hash) leaves the registry as it was.
\<close>

theorem only_verified_files_are_shared:
  assumes "run ssl link io opens pool gid fname destpath tc e = (e', out)"
  shows "if out = Ended Complete then
      (\<exists>di. map_of (re_downloads e') fname = Some di \<and> di_dest_path di = dest_file destpath fname \<and>
         sha1_file_hex ssl (re_fs e') (di_dest_path di) = di_full_hash di \<and> (\<forall>s \<in> set (di_status di). s = 2) \<and>
         re_registry e' = registry_add fname (di_dest_path di) (re_registry e))
    else re_registry e' = re_registry e"
proof (cases "prepare_run link io gid fname destpath (re_statefiles e) tc (re_link e) (re_downloads e) (re_fs e)")
  case (fields w ds fs r)
  show ?thesis
  proof (cases r)
    case (Ready info peers)
    note prep = prepared [OF fields [unfolded Ready]]
    obtain f status where p: "pool (di_hashes info) peers (content_of fs (di_dest_path info), di_status info) = (f, status)"
      by fastforce
    then show ?thesis
      using assms fields Ready prep
      by (auto simp: run_def Let_def finish_run_def all_completed_def record_status_def mark_inactive_def update_conv'
          all_set_conv_all_nth split: if_splits)
  qed (use assms fields in \<open>auto simp: run_def\<close>)
qed

text \<open>
  However a run ends (short of the crash on a negative piece count), the download is no longer marked
  active, so the same file can be requested again.
\<close>

lemma run_always_releases:
  assumes "run ssl link io opens pool gid fname destpath tc e = (e', out)" "out \<noteq> Crash"
  shows "snd (start_download gid' fname (re_downloads e'))"
proof (cases "prepare_run link io gid fname destpath (re_statefiles e) tc (re_link e) (re_downloads e) (re_fs e)")
  case (fields w ds fs r)
  have "\<not> active_download (re_downloads e') fname"
  proof (cases r)
    case Stopped
    then have "\<not> active_download ds fname"
      using fields by (auto simp: prepare_run_def Let_def split: prod.splits option.splits if_splits)
    then show ?thesis using assms fields Stopped by (auto simp: run_def)
  next
    case (Ready info peers)
    then show ?thesis using assms fields
      by (auto simp: run_def Let_def finish_run_inactive dest!: arg_cong [of _ _ fst] split: prod.splits)
  qed (use assms fields in \<open>auto simp: run_def\<close>)
  then show ?thesis by (simp add: start_download_free)
qed

text \<open>A pool of workers that completes every piece of a published file makes a run that succeeds.\<close>

lemma completing_run:
  assumes "tc_open tc" "link (''download_file '' @ tc_token tc @ '' '' @ gid @ '' '' @ fname) (re_link e) = (w, Some reply)"
    and "take 5 reply = ''FILE ''" "parse_peers reply \<noteq> []"
    and "parse_meta reply = Some (\<lparr>rm_size = int (length c), rm_fullhash = sha1_hex ssl c,
           rm_pieces = int (piece_count (length c))\<rparr>, piece_list ssl c)"
    and "out_opens io" "out_seeks io" "out_puts io"
    and "re_fs e (dest_file destpath fname) = None" "re_statefiles e (dest_file destpath fname @ ''.downloading'') = None"
    and "pool (piece_list ssl c) (parse_peers reply) (preallocate (int (length c)) None, replicate (piece_count (length c)) 0) = (c, status)"
    and len: "length status = piece_count (length c)" and good: "\<forall>s \<in> set status. s = 2"
  shows "\<exists>e'. run ssl link io opens pool gid fname destpath tc e
      = (e', Ended Complete) \<and>
    re_fs e' (dest_file destpath fname) = Some (Readable c) \<and>
    registry_path_for fname (re_registry e') = Some (dest_file destpath fname) \<and>
    re_link e' = fst (tc_send link (''file_downloaded '' @ tc_token tc @ '' '' @ gid @ '' '' @ fname) tc w)"
proof -
  let ?n = "piece_count (length c)" and ?out = "dest_file destpath fname"
  have tc: "tc_send link (''download_file '' @ tc_token tc @ '' '' @ gid @ '' '' @ fname) tc (re_link e) = (w, reply)"
    unfolding tc_send_def using assms(1) by (simp only: assms(2) if_False not_not prod.case option.case simp_thms)
  define info where "info = \<lparr>di_group_id = gid, di_filename = fname, di_dest_path = ?out,
      di_total_size = int (length c), di_total_pieces = int ?n, di_completed = 0, di_status = replicate ?n 0,
      di_hashes = piece_list ssl c, di_full_hash = sha1_hex ssl c, di_active = True\<rparr>"
  have "prepare_run link io gid fname destpath (re_statefiles e) tc (re_link e) (re_downloads e) (re_fs e) =
      (w, AList.update fname info (re_downloads e),
       (re_fs e)(?out \<mapsto> Readable (preallocate (int (length c)) None)), Ready info (parse_peers reply))"
    unfolding prepare_run_def tc using assms(3-10) by (simp add: Let_def load_status_def info_def)
  moreover have "all_completed fname (length status) (record_status fname status (AList.update fname info ds))" for ds
    using good by (simp add: all_completed_def record_status_def update_conv')
  moreover have "sha1_file_hex ssl (fs(?out \<mapsto> Readable c)) ?out = sha1_hex ssl c" for fs
    by (simp add: sha1_file_readable)
  ultimately show ?thesis
    using assms(11) unfolding run_def
    by (simp add: info_def content_of_def finish_run_def Let_def registry.find_put)
qed

section \<open>A run on concrete input\<close>

definition demo_reply :: string where
  "demo_reply = ''FILE f SIZE 2 HASH 6162 PIECES 1 PIECE_HASHES 6162'' @ [newline] @ ''PEERS'' @ [newline] @ ''bob 10.0.0.2 5000'' @ [newline]"

definition demo_link :: "nat link" where
  "demo_link msg n = (n + 1, Some demo_reply)"

definition demo_env :: "nat run_env" where
  "demo_env = \<lparr>re_downloads = [], re_fs = Map.empty, re_statefiles = Map.empty, re_registry = [], re_link = 0\<rparr>"

definition demo_io :: output_io where
  "demo_io = \<lparr>out_opens = True, out_seeks = True, out_puts = True\<rparr>"

lemma demo_hex: "sha1_hex demo_sha ''ab'' = ''6162''"
  by code_simp

lemma demo_reply_facts: "take 5 demo_reply = ''FILE ''" "parse_peers demo_reply = [(''bob'', ''10.0.0.2'', ''5000'')]"
  "parse_meta demo_reply = Some (\<lparr>rm_size = 2, rm_fullhash = ''6162'', rm_pieces = 1\<rparr>, [''6162''])"
  by code_simp+

abbreviation demo_pool :: workers where
  "demo_pool \<equiv> \<lambda>hs peers s. work demo_sha hs (\<lambda>p r q. Some (piece_at ''ab'' p)) (\<lambda>p r q. Written) [0] (pending_pieces (snd s)) s"

lemma demo_meta:
  "parse_meta demo_reply = Some (\<lparr>rm_size = int (length ''ab''), rm_fullhash = sha1_hex demo_sha ''ab'',
     rm_pieces = int (piece_count (length ''ab''))\<rparr>, piece_list demo_sha ''ab'')"
  unfolding demo_reply_facts(3) demo_pieces(2) demo_hex using demo_pieces(1) by (simp add: numeral_2_eq_2)

lemma demo_completes:
  "\<exists>e'. run demo_sha demo_link demo_io True demo_pool ''g'' ''f'' ''/d'' \<lparr>tc_open = True, tc_token = ''t''\<rparr> demo_env = (e', Ended Complete) \<and>
     re_fs e' ''/d/f'' = Some (Readable ''ab'')"
proof -
  have dest: "dest_file ''/d'' ''f'' = ''/d/f''" by (simp add: dest_file_def)
  have one: "piece_count (length ''ab'') = 1" using demo_pieces(1) by (simp add: numeral_2_eq_2)
  have "fetch_piece 0 demo_sha (sha1_hex demo_sha ''ab'') 0 (\<lambda>r q. Some (piece_at ''ab'' 0)) (\<lambda>r q. Written) [0] (preallocate 2 None) 0 = (''ab'', True)"
    by (simp add: fetch_piece.simps [of 0] MAX_RETRIES_def write_at_def preallocate_def piece_at_def kPieceSize_def)
  then have pool: "demo_pool (piece_list demo_sha ''ab'') (parse_peers demo_reply) (preallocate (int (length ''ab'')) None, replicate (piece_count (length ''ab'')) 0) = (''ab'', [2])"
    unfolding one demo_pieces(2) by (simp add: pending_pieces_def)
  have l: "demo_link (''download_file '' @ tc_token \<lparr>tc_open = True, tc_token = ''t''\<rparr> @ '' '' @ ''g'' @ '' '' @ ''f'') (re_link demo_env) = (1, Some demo_reply)"
    by (simp add: demo_link_def demo_env_def)
  have p: "parse_peers demo_reply \<noteq> []" by (simp add: demo_reply_facts(2))
  show ?thesis
    using completing_run [where link = demo_link and gid = "''g''" and fname = "''f''" and ssl = demo_sha and c = "''ab''" and pool = demo_pool and e = demo_env and io = demo_io and destpath = "''/d''"
        and opens = True and tc = "\<lparr>tc_open = True, tc_token = ''t''\<rparr>", OF _ l demo_reply_facts(1) p demo_meta _ _ _ _ _ pool]
    unfolding one by (simp add: demo_io_def demo_env_def dest) blast
qed

theorem only_verified_files_are_shared_witness:
  "\<exists>e' di. run demo_sha demo_link demo_io True demo_pool ''g'' ''f'' ''/d'' \<lparr>tc_open = True, tc_token = ''t''\<rparr> demo_env = (e', Ended Complete) \<and>
     map_of (re_downloads e') ''f'' = Some di \<and> sha1_file_hex demo_sha (re_fs e') ''/d/f'' = di_full_hash di \<and>
     (\<forall>s \<in> set (di_status di). s = 2) \<and> re_registry e' = registry_add ''f'' ''/d/f'' []"
proof -
  obtain e' where r: "run demo_sha demo_link demo_io True demo_pool ''g'' ''f'' ''/d'' \<lparr>tc_open = True, tc_token = ''t''\<rparr> demo_env = (e', Ended Complete)"
    using demo_completes by blast
  have dest: "dest_file ''/d'' ''f'' = ''/d/f''" by (simp add: dest_file_def)
  from only_verified_files_are_shared [OF r] obtain di where "map_of (re_downloads e') ''f'' = Some di"
      "di_dest_path di = ''/d/f''" "sha1_file_hex demo_sha (re_fs e') (di_dest_path di) = di_full_hash di"
      "\<forall>s \<in> set (di_status di). s = 2" "re_registry e' = registry_add ''f'' (di_dest_path di) (re_registry demo_env)"
    unfolding dest by auto
  then show ?thesis using r by (intro exI [of _ e'] exI [of _ di]) (simp add: demo_env_def)
qed

section \<open>Resuming\<close>

lemma preallocate_existing: "c \<noteq> [] \<Longrightarrow> preallocate (int (length c)) (Some c) = butlast c @ [CHR 0x00]"
  by (cases c rule: rev_cases) (simp_all add: preallocate_def write_at_def)

lemma load_complete: "load_status n (Some (replicate n 2)) = replicate n 2"
  by (simp add: load_status_def list_eq_iff_nth_eq)

text \<open>
  C31: Resuming overwrites good data: a run on an output file that is already the publisher's, with a
  state file that says so, first zeroes its last byte (reserving the size), then fetches nothing, and
  ends as a mismatch with the damaged file on disk.
\<close>

theorem resume_damages_a_complete_file:
  assumes "c \<noteq> []" "sha1_hex ssl (butlast c @ [CHR 0x00]) \<noteq> sha1_hex ssl c"
    and "\<forall>hs peers f st. pending_pieces st = [] \<longrightarrow> pool hs peers (f, st) = (f, st)"
    and "tc_open tc" "link (''download_file '' @ tc_token tc @ '' '' @ gid @ '' '' @ fname) (re_link e) = (w, Some reply)"
    and "take 5 reply = ''FILE ''" "parse_peers reply \<noteq> []"
    and "parse_meta reply = Some (\<lparr>rm_size = int (length c), rm_fullhash = sha1_hex ssl c,
           rm_pieces = int (piece_count (length c))\<rparr>, hs)"
    and "out_opens io" "out_seeks io" "out_puts io"
    and "re_fs e (dest_file destpath fname) = Some (Readable c)"
    and "re_statefiles e (dest_file destpath fname @ ''.downloading'') = Some (replicate (piece_count (length c)) 2)"
  shows "\<exists>e'. run ssl link io opens pool gid fname destpath tc e = (e', Ended Mismatch) \<and>
    re_fs e' (dest_file destpath fname) = Some (Readable (butlast c @ [CHR 0x00])) \<and> re_registry e' = re_registry e"
proof -
  let ?n = "piece_count (length c)" and ?out = "dest_file destpath fname" and ?c = "butlast c @ [CHR 0x00]"
  have tc: "tc_send link (''download_file '' @ tc_token tc @ '' '' @ gid @ '' '' @ fname) tc (re_link e) = (w, reply)"
    unfolding tc_send_def using assms(4) by (simp only: assms(5) if_False not_not prod.case option.case simp_thms)
  define info where "info = \<lparr>di_group_id = gid, di_filename = fname, di_dest_path = ?out,
      di_total_size = int (length c), di_total_pieces = int ?n, di_completed = 0, di_status = replicate ?n 2,
      di_hashes = hs, di_full_hash = sha1_hex ssl c, di_active = True\<rparr>"
  have "prepare_run link io gid fname destpath (re_statefiles e) tc (re_link e) (re_downloads e) (re_fs e) =
      (w, AList.update fname info (re_downloads e), (re_fs e)(?out \<mapsto> Readable ?c), Ready info (parse_peers reply))"
    unfolding prepare_run_def tc using assms(6-13)
    by (simp add: Let_def load_complete preallocate_existing [OF assms(1)] info_def)
  moreover have "pool hs (parse_peers reply) (?c, replicate ?n 2) = (?c, replicate ?n 2)"
    using assms(3) by (simp add: pending_pieces_def)
  moreover have "sha1_file_hex ssl (fs(?out \<mapsto> Readable ?c)) ?out = sha1_hex ssl ?c" for fs
    by (simp add: sha1_file_readable)
  moreover have "all_completed fname ?n (record_status fname (replicate ?n 2) (AList.update fname info ds))" for ds
    by (simp add: all_completed_def record_status_def update_conv')
  ultimately show ?thesis
    using assms(2) unfolding run_def by (simp add: info_def content_of_def finish_run_def Let_def)
qed

theorem resume_damages_a_complete_file_witness:
  "\<exists>e'. run demo_sha demo_link demo_io True (\<lambda>hs peers s. s) ''g'' ''f'' ''/d'' \<lparr>tc_open = True, tc_token = ''t''\<rparr>
      (demo_env\<lparr>re_fs := [''/d/f'' \<mapsto> Readable ''ab''], re_statefiles := [''/d/f.downloading'' \<mapsto> [2]]\<rparr>) = (e', Ended Mismatch) \<and>
    re_fs e' ''/d/f'' = Some (Readable [CHR ''a'', CHR 0x00])"
proof -
  let ?e = "demo_env\<lparr>re_fs := [''/d/f'' \<mapsto> Readable ''ab''], re_statefiles := [''/d/f.downloading'' \<mapsto> [2]]\<rparr>"
  have dest: "dest_file ''/d'' ''f'' = ''/d/f''" by (simp add: dest_file_def)
  have n: "piece_count (length ''ab'') = 1" using demo_pieces(1) by (simp add: numeral_2_eq_2)
  have m: "parse_meta demo_reply = Some (\<lparr>rm_size = int (length ''ab''), rm_fullhash = sha1_hex demo_sha ''ab'',
      rm_pieces = int (piece_count (length ''ab''))\<rparr>, [''6162''])"
    unfolding demo_reply_facts(3) demo_hex n by simp
  have l: "demo_link (''download_file '' @ tc_token \<lparr>tc_open = True, tc_token = ''t''\<rparr> @ '' '' @ ''g'' @ '' '' @ ''f'') (re_link ?e) = (1, Some demo_reply)"
    by (simp add: demo_link_def demo_env_def)
  have p: "parse_peers demo_reply \<noteq> []" by (simp add: demo_reply_facts(2))
  have h: "sha1_hex demo_sha (butlast ''ab'' @ [CHR 0x00]) \<noteq> sha1_hex demo_sha ''ab''"
  proof
    assume "sha1_hex demo_sha (butlast ''ab'' @ [CHR 0x00]) = sha1_hex demo_sha ''ab''"
    then have "butlast ''ab'' @ [CHR 0x00] = ''ab''" by (rule demo_sha_inj)
    then show False by simp
  qed
  have sf: "re_statefiles ?e (dest_file ''/d'' ''f'' @ ''.downloading'') = Some (replicate (piece_count (length ''ab'')) 2)"
    unfolding dest n by simp
  show ?thesis
    using resume_damages_a_complete_file [where c = "''ab''" and ssl = demo_sha and pool = "\<lambda>hs peers s. s"
        and tc = "\<lparr>tc_open = True, tc_token = ''t''\<rparr>" and link = demo_link and gid = "''g''" and fname = "''f''"
        and e = ?e and io = demo_io and destpath = "''/d''" and opens = True, OF _ h _ _ l demo_reply_facts(1) p m _ _ _ _ sf]
    by (simp add: demo_io_def dest) blast
qed

end
