(* ===== verification/Commands.thy ===== *)
theory Commands imports Downloader
begin

text \<open>
  Models \<^verbatim>\<open>src/client/commands.cpp\<close>: the session of the client (\<open>set_session\<close>, \<open>clear_session\<close>,
  \<open>require_login\<close>) and \<open>execute\<close>, the one place where a command of the user is interpreted, for the
  prompt and for the web page alike. \<open>execute\<close> works on the client's collaborators (the tracker client,
  the registry, the table of downloads) and on the other end of the tracker connection, given as a
  \<open>link\<close>. A download started here runs on a thread of its own: its stages are in \<open>Downloader\<close>. The size of a
  file to upload is its length: an \<open>lseek\<close> that fails on a file that could be opened is not modelled.
\<close>

record client =
  cl_tracker :: tracker_client
  cl_registry :: registry
  cl_downloads :: downloads
  cl_host_port :: string
  cl_peername :: string
  cl_connected :: bool

definition set_session :: "string \<Rightarrow> string \<Rightarrow> client \<Rightarrow> client" where
  "set_session user token c =
     c\<lparr>cl_peername := user, cl_connected := True, cl_tracker := set_token token (cl_tracker c)\<rparr>"

definition clear_session :: "client \<Rightarrow> client" where
  "clear_session c = c\<lparr>cl_peername := '''', cl_connected := False, cl_tracker := clear_token (cl_tracker c)\<rparr>"

definition require_login :: "client \<Rightarrow> string option" where
  "require_login c =
     (if cl_connected c then None else Some (''------- You must log in first. ---------'' @ [newline]))"

definition help_text :: string where
  "help_text = [newline] @ ''==================== Available Commands ===================='' @ [newline] @
     ''create_user <username> <password>'' @ [newline] @
     ''login <username> <password>'' @ [newline] @
     ''logout'' @ [newline] @
     ''create_group <groupid>'' @ [newline] @
     ''join_group <groupid>'' @ [newline] @
     ''leave_group <groupid>'' @ [newline] @
     ''list_requests <groupid>'' @ [newline] @
     ''accept_request <groupid> <username>'' @ [newline] @
     ''reject_request <groupid> <username>'' @ [newline] @
     ''list_groups'' @ [newline] @
     ''list_files <groupid>'' @ [newline] @
     ''upload_file <groupid> <filepath>'' @ [newline] @
     ''download_file <groupid> <filename> <dest_path>'' @ [newline] @
     ''stop_share <groupid> <filename>'' @ [newline] @
     ''show_downloads'' @ [newline] @
     ''commands'' @ [newline] @
     ''exit'' @ [newline] @
     ''============================================================'' @ [newline, newline]"

definition usage :: "string \<Rightarrow> string" where
  "usage s = ''Usage: '' @ s @ [newline]"

text \<open>\<open>tracker_.send(msg) + newline\<close>.\<close>

definition relay :: "'w link \<Rightarrow> string \<Rightarrow> client \<Rightarrow> 'w \<Rightarrow> (client \<times> 'w) \<times> string" where
  "relay link msg c w = (case tc_send link msg (cl_tracker c) w of (w', r) \<Rightarrow> ((c, w'), r @ [newline]))"

definition do_login :: "'w link \<Rightarrow> string list \<Rightarrow> client \<Rightarrow> 'w \<Rightarrow> (client \<times> 'w) \<times> string" where
  "do_login link args c w =
     (if length args \<noteq> 3 then ((c, w), usage ''login <user> <pass>'')
      else if cl_connected c then ((c, w), ''-------- User session already active --------'' @ [newline])
      else (case tc_send link (''login '' @ args ! 1 @ '' '' @ args ! 2 @ '' '' @ cl_host_port c) (cl_tracker c) w of
          (w', r) \<Rightarrow>
            if take 3 r = ''OK '' then
              ((set_session (args ! 1) (drop 3 r) (clear_session c), w'),
               ''********* You are now logged in *********'' @ [newline])
            else ((c, w'), r @ [newline])))"

text \<open>The words of a path, joined again with one space between them.\<close>

fun join_words :: "string list \<Rightarrow> string" where
  "join_words [] = ''''"
| "join_words [w] = w"
| "join_words (w # ws) = w @ CHR '' '' # join_words ws"

text \<open>What follows the last \<open>/\<close> of a path (\<open>find_last_of\<close> and \<open>substr\<close>).\<close>

definition basename :: "string \<Rightarrow> string" where
  "basename path = rev (takeWhile (\<lambda>c. c \<noteq> CHR ''/'') (rev path))"

definition upload_message :: "string \<Rightarrow> string \<Rightarrow> string \<Rightarrow> nat \<Rightarrow> string \<Rightarrow> nat \<Rightarrow> string list \<Rightarrow> string" where
  "upload_message token gid fname fsize fullhash num_pieces piece_hashes =
     ''upload_file '' @ token @ '' '' @ gid @ '' '' @ fname @ '' '' @ to_string (int fsize) @ '' '' @ fullhash @
     '' '' @ to_string (int num_pieces) @ spaced piece_hashes"

definition do_upload ::
  "openssl \<Rightarrow> filesystem \<Rightarrow> 'w link \<Rightarrow> string list \<Rightarrow> client \<Rightarrow> 'w \<Rightarrow> (client \<times> 'w) \<times> string" where
  "do_upload ssl fs link args c w =
     (if length args < 3 then ((c, w), usage ''upload_file <groupid> <filepath>'')
      else let fpath = join_words (drop 2 args) in
        (case fs fpath of
           None \<Rightarrow> ((c, w), ''File not found: '' @ fpath @ [newline])
         | Some f \<Rightarrow>
             if file_size f = 0 then ((c, w), ''Cannot upload empty file: '' @ fpath @ [newline])
             else (case sha1_file_pieces ssl fs fpath of (piece_hashes, num_pieces) \<Rightarrow>
               let fname = basename fpath; c' = c\<lparr>cl_registry := registry_add fname fpath (cl_registry c)\<rparr>
               in relay link (upload_message (tc_token (cl_tracker c)) (args ! 1) fname (file_size f)
                    (sha1_file_hex ssl fs fpath) num_pieces piece_hashes) c' w)))"

definition do_download :: "string list \<Rightarrow> client \<Rightarrow> 'w \<Rightarrow> (client \<times> 'w) \<times> string" where
  "do_download args c w =
     (if length args < 4 then ((c, w), usage ''download_file <groupid> <filename> <dest_path>'')
      else (case start_download (args ! 1) (args ! 2) (cl_downloads c) of (ds, ok) \<Rightarrow>
        ((c\<lparr>cl_downloads := ds\<rparr>, w),
         if ok then ''Download started in background. Use show_downloads for progress.'' @ [newline] else '''')))"

definition do_stop_share :: "'w link \<Rightarrow> string list \<Rightarrow> client \<Rightarrow> 'w \<Rightarrow> (client \<times> 'w) \<times> string" where
  "do_stop_share link args c w =
     (if length args \<noteq> 3 then ((c, w), usage ''stop_share <groupid> <filename>'')
      else
        let gid = args ! 1; fname = args ! 2; had = registry_contains fname (cl_registry c);
            c' = (if had then c\<lparr>cl_registry := registry_remove fname (cl_registry c)\<rparr> else c);
            out = (if had then ''Stopped sharing file: '' @ fname @ '' in group '' @ gid @ [newline]
                   else ''File '' @ fname @ '' is not being shared by you.'' @ [newline])
        in (case relay link (''stop_share '' @ tc_token (cl_tracker c) @ '' '' @ gid @ '' '' @ fname) c' w of
              (cw, r) \<Rightarrow> (cw, out @ r)))"

text \<open>The commands that need a session.\<close>

definition execute_session ::
  "openssl \<Rightarrow> filesystem \<Rightarrow> 'w link \<Rightarrow> string list \<Rightarrow> client \<Rightarrow> 'w \<Rightarrow> (client \<times> 'w) \<times> string" where
  "execute_session ssl fs link args c w =
     (let cmd = args ! 0; n = length args; tok = tc_token (cl_tracker c) in
      if cmd = ''logout'' then
        (case tc_send link (''logout '' @ tok) (cl_tracker c) w of (w', r) \<Rightarrow> ((clear_session c, w'), r @ [newline]))
      else if cmd = ''create_group'' then
        (if n \<noteq> 2 then ((c, w), usage ''create_group <groupid>'')
         else relay link (''create_group '' @ tok @ '' '' @ args ! 1) c w)
      else if cmd = ''join_group'' then
        (if n \<noteq> 2 then ((c, w), usage ''join_group <groupid>'')
         else relay link (''join_group '' @ tok @ '' '' @ args ! 1) c w)
      else if cmd = ''leave_group'' then
        (if n \<noteq> 2 then ((c, w), usage ''leave_group <groupid>'')
         else relay link (''leave_group '' @ tok @ '' '' @ args ! 1) c w)
      else if cmd = ''list_requests'' then
        (if n \<noteq> 2 then ((c, w), usage ''list_requests <groupid>'')
         else relay link (''list_requests '' @ tok @ '' '' @ args ! 1) c w)
      else if cmd = ''accept_request'' then
        (if n \<noteq> 3 then ((c, w), usage ''accept_request <groupid> <user>'')
         else relay link (''accept_request '' @ tok @ '' '' @ args ! 1 @ '' '' @ args ! 2) c w)
      else if cmd = ''reject_request'' then
        (if n \<noteq> 3 then ((c, w), usage ''reject_request <groupid> <user>'')
         else relay link (''reject_request '' @ tok @ '' '' @ args ! 1 @ '' '' @ args ! 2) c w)
      else if cmd = ''list_groups'' then relay link (''list_groups '' @ tok) c w
      else if cmd = ''list_files'' then
        (if n \<noteq> 2 then ((c, w), usage ''list_files <groupid>'')
         else relay link (''list_files '' @ tok @ '' '' @ args ! 1) c w)
      else if cmd = ''upload_file'' then do_upload ssl fs link args c w
      else if cmd = ''download_file'' then do_download args c w
      else if cmd = ''stop_share'' then do_stop_share link args c w
      else if cmd = ''show_downloads'' then ((c, w), report (cl_downloads c))
      else ((c, w), ''------- Invalid Command --------'' @ [newline]))"

definition execute ::
  "openssl \<Rightarrow> filesystem \<Rightarrow> 'w link \<Rightarrow> string list \<Rightarrow> client \<Rightarrow> 'w \<Rightarrow> (client \<times> 'w) \<times> string" where
  "execute ssl fs link args c w =
     (if args = [] then
        ((c, w), ''-------- Unrecognized command. Enter a valid command. --------'' @ [newline])
      else
        let cmd = args ! 0; n = length args in
        if cmd = ''commands'' then ((c, w), help_text)
        else if cmd = ''create_user'' then
          (if n \<noteq> 3 then ((c, w), usage ''create_user <user> <pass>'')
           else relay link (''create_user '' @ args ! 1 @ '' '' @ args ! 2) c w)
        else if cmd = ''login'' then do_login link args c w
        else (case require_login c of
            Some err \<Rightarrow> ((c, w), err)
          | None \<Rightarrow> execute_session ssl fs link args c w))"

end
