(* ===== verification/Http_Server.thy ===== *)
theory Http_Server imports Hash Socket_IO
begin

text \<open>
  Models \<^verbatim>\<open>src/client/http_server.cpp\<close>, the loopback server behind the web page: \<open>json_escape\<close>, reading a
  request (\<open>read_headers\<close> with its cap, the request line, \<open>Content-Length\<close>, the body), the route table and
  the response \<open>serve\<close> sends. An incoming stream is a list of chunks as in \<open>Socket_IO\<close>. A handler takes
  and returns the state of the program behind it.
\<close>

definition kMaxHeader :: nat where "kMaxHeader = 16 * 1024"
definition kMaxBody :: nat where "kMaxBody = 1 * 1024 * 1024"

definition status_text :: "int \<Rightarrow> string" where
  "status_text code =
     (if code = 200 then ''OK''
      else if code = 400 then ''Bad Request''
      else if code = 404 then ''Not Found''
      else if code = 413 then ''Payload Too Large''
      else ''Error'')"

section \<open>json_escape\<close>

text \<open>The lower-case hexadecimal digits of a byte below 0x20, as \<open>%04x\<close> prints it.\<close>

definition hex4 :: "nat \<Rightarrow> string" where
  "hex4 n = [CHR ''0'', CHR ''0'', hex_digits ! (n div 16), hex_digits ! (n mod 16)]"

definition json_char :: "char \<Rightarrow> string" where
  "json_char c =
     (if c = CHR 0x22 then [CHR 0x5C, CHR 0x22]
      else if c = CHR 0x5C then [CHR 0x5C, CHR 0x5C]
      else if c = CHR 0x0A then [CHR 0x5C, CHR ''n'']
      else if c = CHR 0x0D then [CHR 0x5C, CHR ''r'']
      else if c = CHR 0x09 then [CHR 0x5C, CHR ''t'']
      else if (of_char c :: nat) < 32 then [CHR 0x5C, CHR ''u''] @ hex4 (of_char c)
      else [c])"

definition json_escape :: "string \<Rightarrow> string" where
  "json_escape s = concat (map json_char s)"

section \<open>Reading the request\<close>

definition crlf2 :: string where "crlf2 = [CHR 0x0D, CHR 0x0A, CHR 0x0D, CHR 0x0A]"

text \<open>\<open>read(fd, &c, 1)\<close>: the next byte of the stream.\<close>

fun read_byte :: "string list \<Rightarrow> (char \<times> string list) option" where
  "read_byte ((c # d) # cs) = Some (c, if d = [] then cs else d # cs)"
| "read_byte _ = None"

text \<open>\<open>read_headers\<close>: one byte at a time, up to the blank line; \<open>None\<close> at the end of the stream or the cap.\<close>

function read_headers :: "string \<Rightarrow> string list \<Rightarrow> (string \<times> string list) option" where
  "read_headers out s =
     (if length out < kMaxHeader then
        (case read_byte s of None \<Rightarrow> None
         | Some (c, s') \<Rightarrow>
             let out' = out @ [c] in
             if 4 \<le> length out' \<and> drop (length out' - 4) out' = crlf2 then Some (out', s')
             else read_headers out' s')
      else None)"
  by pat_completeness auto
termination
  by (relation "measure (\<lambda>(out, s). kMaxHeader - length out)") auto

declare read_headers.simps [simp del]

text \<open>The loop that completes the body: it ends early when the stream does.\<close>

fun read_more :: "nat \<Rightarrow> string list \<Rightarrow> string \<times> string list" where
  "read_more n [] = ([], [])"
| "read_more n (c # cs) =
     (if n = 0 then ([], c # cs)
      else if c = [] then ([], cs)
      else if n < length c then (take n c, drop n c # cs)
      else (case read_more (n - length c) cs of (d, rest) \<Rightarrow> (c @ d, rest)))"

definition to_lower :: "char \<Rightarrow> char" where
  "to_lower c = (if 65 \<le> (of_char c :: nat) \<and> (of_char c :: nat) \<le> 90 then char_of (of_char c + 32 :: nat) else c)"

text \<open>\<open>strtoul(s, nullptr, 10)\<close> for a 64-bit \<open>unsigned long\<close>: a sign wraps the value, overflow saturates.\<close>

definition strtoul :: "string \<Rightarrow> nat" where
  "strtoul s =
     (let s1 = dropWhile isspace s;
          neg = (s1 \<noteq> [] \<and> hd s1 = CHR ''-'');
          s2 = (if s1 \<noteq> [] \<and> (hd s1 = CHR ''-'' \<or> hd s1 = CHR ''+'') then tl s1 else s1);
          v = dec_value (takeWhile isdigit s2)
      in if 2 ^ 64 \<le> v then 2 ^ 64 - 1 else if neg then (2 ^ 64 - v) mod 2 ^ 64 else v)"

text \<open>The header lines up to the blank one; a later \<open>Content-Length\<close> replaces an earlier one.\<close>

fun content_length :: "nat \<Rightarrow> string list \<Rightarrow> nat" where
  "content_length n [] = n"
| "content_length n (l # ls) =
     (if l = [CHR 0x0D] then n
      else content_length
        (if 15 < length l \<and> map to_lower (take 15 l) = ''content-length:'' then strtoul (drop 15 l) else n) ls)"

text \<open>
  \<open>head >> method >> path >> version\<close>, then the rest of the request line, then the header lines; a failed
  extraction leaves no lines to read.
\<close>

definition request_line :: "string \<Rightarrow> string \<times> string \<times> nat" where
  "request_line raw =
     (case read_word raw of None \<Rightarrow> ('''', '''', 0)
      | Some (meth, s1) \<Rightarrow> (case read_word s1 of None \<Rightarrow> (meth, '''', 0)
        | Some (path, s2) \<Rightarrow> (case read_word s2 of None \<Rightarrow> (meth, path, 0)
          | Some (version, s3) \<Rightarrow> (meth, path, content_length 0 (drop 1 (getlines s3))))))"

section \<open>serve\<close>

record http_request =
  rq_method :: string
  rq_path :: string
  rq_body :: string

record http_response =
  rs_status :: int
  rs_content_type :: string
  rs_body :: string

definition plain_response :: "int \<Rightarrow> string \<Rightarrow> http_response" where
  "plain_response code body = \<lparr>rs_status = code, rs_content_type = ''text/plain'', rs_body = body\<rparr>"

type_synonym 's handler = "http_request \<Rightarrow> 's \<Rightarrow> 's \<times> http_response"
type_synonym 's routes = "'s handler umap"

definition route :: "string \<Rightarrow> string \<Rightarrow> 's handler \<Rightarrow> 's routes \<Rightarrow> 's routes" where
  "route meth path h rs = AList.update (meth @ '' '' @ path) h rs"

definition http_eol :: string where "http_eol = [CHR 0x0D, CHR 0x0A]"

definition response_text :: "http_response \<Rightarrow> string" where
  "response_text res =
     ''HTTP/1.1 '' @ to_string (rs_status res) @ '' '' @ status_text (rs_status res) @ http_eol @
     ''Content-Type: '' @ rs_content_type res @ http_eol @
     ''Content-Length: '' @ to_string (int (length (rs_body res))) @ http_eol @
     ''Cache-Control: no-store'' @ http_eol @
     ''Connection: close'' @ http_eol @ http_eol @
     rs_body res"

text \<open>
  \<open>raw\<close> ends at its first blank line, so no body byte is in it yet (\<open>already\<close> is 0 in the code).
\<close>

definition serve :: "'s routes \<Rightarrow> string list \<Rightarrow> 's \<Rightarrow> 's \<times> string option" where
  "serve routes stream s =
     (case read_headers [] stream of None \<Rightarrow> (s, None)
      | Some (raw, rest) \<Rightarrow>
          (case request_line raw of (meth, path, clen) \<Rightarrow>
             if meth = [] \<or> path = [] then (s, None)
             else if kMaxBody < clen then
               (s, Some (response_text (plain_response 413 ''request body too large'')))
             else
               let req = \<lparr>rq_method = meth, rq_path = takeWhile (\<lambda>c. c \<noteq> CHR ''?'') path,
                          rq_body = (if 0 < clen then fst (read_more clen rest) else [])\<rparr>
               in (case map_of routes (rq_method req @ '' '' @ rq_path req) of
                     None \<Rightarrow> (s, Some (response_text (plain_response 404 ''not found'')))
                   | Some h \<Rightarrow> (case h req s of (s', res) \<Rightarrow> (s', Some (response_text res))))))"

section \<open>The server's thread\<close>

record http_server =
  hs_port :: int
  hs_listening :: bool
  hs_stopping :: bool

definition new_http_server :: http_server where
  "new_http_server = \<lparr>hs_port = 0, hs_listening = False, hs_stopping = False\<rparr>"

text \<open>
  \<open>start\<close> binds the loopback address only; the result of \<open>setsockopt\<close> is ignored, the port is cut to its
  16 bits for the system call and stored as given.
\<close>

definition http_start :: "listen_os \<Rightarrow> int \<Rightarrow> http_server \<Rightarrow> http_server \<times> bool" where
  "http_start os port hs =
     (if \<not> ls_socket os then (hs, False)
      else if \<not> ls_bind os ''127.0.0.1'' (uint (word_of_int port :: 16 word)) \<or> \<not> ls_listen os then (hs, False)
      else (hs\<lparr>hs_listening := True, hs_port := port\<rparr>, True))"

text \<open>
  \<open>accept_loop\<close>: each entry is one return of \<open>accept\<close>, with the value of \<open>stopping_\<close> the thread then reads
  and the incoming stream of the new connection (\<open>None\<close>: the call failed). Requests are served one after
  the other. The result is what each connection was answered and whether the thread still runs.
\<close>

fun http_accept_loop ::
  "'s routes \<Rightarrow> (bool \<times> string list option) list \<Rightarrow> 's \<Rightarrow> 's \<times> string option list \<times> bool" where
  "http_accept_loop routes [] s = (s, [], True)"
| "http_accept_loop routes ((stop, conn) # es) s =
     (if stop then (s, [], False)
      else (case conn of None \<Rightarrow> http_accept_loop routes es s
        | Some stream \<Rightarrow>
            (case serve routes stream s of (s1, reply) \<Rightarrow>
               (case http_accept_loop routes es s1 of (s', replies, running) \<Rightarrow> (s', reply # replies, running)))))"

definition http_stop :: "http_server \<Rightarrow> http_server" where
  "http_stop hs = (if hs_stopping hs then hs else hs\<lparr>hs_stopping := True, hs_listening := False\<rparr>)"

end
