(* ===== verification/Web_UI.thy ===== *)
theory Web_UI imports Commands Http_Server
begin

text \<open>
  Models \<^verbatim>\<open>src/client/web_ui.cpp\<close>: reading the arguments out of a request body (\<open>parse_args\<close>), the
  list of groups and the status document, and the three routes. The state behind the routes is the
  client with the other end of its tracker connection; the page itself (\<^verbatim>\<open>web_assets.h\<close>) is a parameter.
\<close>

section \<open>parse_args\<close>

text \<open>\<open>body.find(c, i)\<close>.\<close>

definition find_from :: "char \<Rightarrow> nat \<Rightarrow> string \<Rightarrow> nat option" where
  "find_from c i s =
     (let k = i + length (takeWhile (\<lambda>x. x \<noteq> c) (drop i s)) in if k < length s then Some k else None)"

text \<open>\<open>body.find(pat)\<close>.\<close>

definition find_sub :: "string \<Rightarrow> string \<Rightarrow> nat option" where
  "find_sub pat s =
     (case after_sub pat s of None \<Rightarrow> None | Some rest \<Rightarrow> Some (length s - length rest - length pat))"

definition unescape_char :: "char \<Rightarrow> char" where
  "unescape_char c =
     (if c = CHR ''n'' then CHR 0x0A else if c = CHR ''t'' then CHR 0x09 else if c = CHR ''r'' then CHR 0x0D else c)"

text \<open>The inner loop: the value up to the next quote that is not escaped, and the text from that quote on.\<close>

fun unquote :: "string \<Rightarrow> string \<times> string" where
  "unquote [] = ([], [])"
| "unquote [c] = (if c = CHR 0x22 then ([], [c]) else ([c], []))"
| "unquote (c # d # cs) =
     (if c = CHR 0x22 then ([], c # d # cs)
      else if c = CHR 0x5C then (case unquote cs of (v, rest) \<Rightarrow> (unescape_char d # v, rest))
      else (case unquote (d # cs) of (v, rest) \<Rightarrow> (c # v, rest)))"

lemma unquote_shorter: "unquote s = (v, rest) \<Longrightarrow> length rest \<le> length s"
  by (induction s arbitrary: v rest rule: unquote.induct) (fastforce split: if_splits prod.splits)+

lemma find_from_bounds: "find_from c i s = Some q \<Longrightarrow> i \<le> q \<and> q < length s"
  by (auto simp: find_from_def Let_def split: if_splits)

function args_loop :: "string \<Rightarrow> nat \<Rightarrow> nat \<Rightarrow> string list" where
  "args_loop body close i =
     (if i < close then
        (case find_from (CHR 0x22) i body of None \<Rightarrow> []
         | Some q \<Rightarrow>
             if close \<le> q then []
             else (case unquote (drop (q + 1) body) of
                 (val, rest) \<Rightarrow> val # args_loop body close (length body - length rest + 1)))
      else [])"
  by pat_completeness auto
termination
  by (relation "measure (\<lambda>(body, close, i). close - i)")
    (fastforce dest: find_from_bounds unquote_shorter [OF sym])+

declare args_loop.simps [simp del]

definition args_key :: string where "args_key = CHR 0x22 # ''args'' @ [CHR 0x22]"

definition parse_args :: "string \<Rightarrow> string list" where
  "parse_args body =
     (case find_sub args_key body of None \<Rightarrow> []
      | Some k \<Rightarrow>
          (case find_from (CHR ''['') k body of None \<Rightarrow> []
           | Some open_pos \<Rightarrow>
               (case find_from (CHR '']'') open_pos body of None \<Rightarrow> []
                | Some close \<Rightarrow> args_loop body close (open_pos + 1))))"

section \<open>The documents\<close>

definition quoted :: "string \<Rightarrow> string" where
  "quoted s = CHR 0x22 # json_escape s @ [CHR 0x22]"

definition commas :: "string list \<Rightarrow> string" where
  "commas xs = (case xs of [] \<Rightarrow> [] | y # ys \<Rightarrow> y @ concat (map (\<lambda>z. CHR '','' # z) ys))"

definition trim_right :: "string \<Rightarrow> string" where
  "trim_right l = rev (dropWhile (\<lambda>c. c = CHR 0x0D \<or> c = CHR '' '') (rev l))"

definition has_sub :: "string \<Rightarrow> string \<Rightarrow> bool" where
  "has_sub pat s \<longleftrightarrow> after_sub pat s \<noteq> None"

definition group_line :: "string \<Rightarrow> bool" where
  "group_line l \<longleftrightarrow> l \<noteq> [] \<and> CHR ''#'' \<notin> set l \<and> \<not> has_sub ''ERROR'' l \<and> \<not> has_sub ''---'' l"

definition groups_json ::
  "openssl \<Rightarrow> filesystem \<Rightarrow> 'w link \<Rightarrow> client \<times> 'w \<Rightarrow> (client \<times> 'w) \<times> string" where
  "groups_json ssl fs link s =
     (if \<not> cl_connected (fst s) then (s, ''[]'')
      else (case execute ssl fs link [''list_groups''] (fst s) (snd s) of (s', txt) \<Rightarrow>
        (s', CHR ''['' # commas (map quoted (filter group_line (map trim_right (getlines txt)))) @ '']'')))"

definition member :: "string \<Rightarrow> string \<Rightarrow> string" where
  "member name val = CHR 0x22 # name @ CHR 0x22 # CHR '':'' # val"

definition json_bool :: "bool \<Rightarrow> string" where
  "json_bool b = (if b then ''true'' else ''false'')"

definition download_json :: "download_info \<Rightarrow> string" where
  "download_json d =
     CHR ''{'' # commas
       [member ''filename'' (quoted (di_filename d)), member ''group'' (quoted (di_group_id d)),
        member ''total_size'' (to_string (di_total_size d)), member ''total_pieces'' (to_string (di_total_pieces d)),
        member ''completed_pieces'' (to_string (di_completed d)),
        member ''failed'' (to_string (count_status 3 (di_status d))), member ''active'' (json_bool (di_active d))] @ ''}''"

definition status_json :: "client \<Rightarrow> string \<Rightarrow> string \<Rightarrow> string" where
  "status_json c peer_port groups =
     CHR ''{'' # commas
       [member ''logged_in'' (json_bool (cl_connected c)), member ''username'' (quoted (cl_peername c)),
        member ''peer_port'' (quoted peer_port), member ''groups'' groups,
        member ''downloads'' (CHR ''['' # commas (map download_json (snapshot (cl_downloads c))) @ '']'')] @ ''}''"

section \<open>The routes\<close>

definition json_response :: "string \<Rightarrow> http_response" where
  "json_response body = \<lparr>rs_status = 200, rs_content_type = ''application/json'', rs_body = body\<rparr>"

definition page_handler :: "string \<Rightarrow> 's handler" where
  "page_handler page req s =
     (s, \<lparr>rs_status = 200, rs_content_type = ''text/html; charset=utf-8'', rs_body = page\<rparr>)"

definition status_handler :: "openssl \<Rightarrow> filesystem \<Rightarrow> 'w link \<Rightarrow> string \<Rightarrow> (client \<times> 'w) handler" where
  "status_handler ssl fs link peer_port req s =
     (case groups_json ssl fs link s of (s', groups) \<Rightarrow> (s', json_response (status_json (fst s) peer_port groups)))"

definition command_handler :: "openssl \<Rightarrow> filesystem \<Rightarrow> 'w link \<Rightarrow> (client \<times> 'w) handler" where
  "command_handler ssl fs link req s =
     (case execute ssl fs link (parse_args (rq_body req)) (fst s) (snd s) of
        (s', output) \<Rightarrow> (s', json_response (CHR ''{'' # member ''output'' (quoted output) @ ''}'')))"

definition register_web_ui ::
  "openssl \<Rightarrow> filesystem \<Rightarrow> 'w link \<Rightarrow> string \<Rightarrow> string \<Rightarrow> (client \<times> 'w) routes \<Rightarrow> (client \<times> 'w) routes" where
  "register_web_ui ssl fs link page peer_port rs =
     route ''POST'' ''/api/command'' (command_handler ssl fs link)
       (route ''GET'' ''/api/status'' (status_handler ssl fs link peer_port)
         (route ''GET'' ''/'' (page_handler page) rs))"

end
