(* ===== verification/Client_Main.thy ===== *)
theory Client_Main imports Web_UI Peer_Server
begin

text \<open>
  Models \<^verbatim>\<open>src/client/main.cpp\<close>: the command line, the choice of a tracker, and the prompt's loop. The
  interactive loop is a function of the lines typed, with the end of input as the end of the list.
\<close>

text \<open>
  The two loops over \<open>argv[1]\<close>. \<open>None\<close> is a text without a colon: the first loop then reads past the
  end of the argument, which C++ leaves undefined.
\<close>

definition split_address :: "string \<Rightarrow> (string \<times> string) option" where
  "split_address arg =
     (if CHR '':'' \<in> set arg
      then Some (takeWhile (\<lambda>c. c \<noteq> CHR '':'') arg, tl (dropWhile (\<lambda>c. c \<noteq> CHR '':'') arg))
      else None)"

definition web_port_of :: "string option \<Rightarrow> int option" where
  "web_port_of arg =
     (case arg of None \<Rightarrow> Some 0
      | Some a \<Rightarrow> (case parse_int a of None \<Rightarrow> None
          | Some p \<Rightarrow> if p < 1 \<or> 65535 < p then None else Some p))"

datatype startup =
    Usage_error
  | Bad_web_port
  | Undefined
  | No_trackers
  | Unreachable
  | No_peer_server tracker_client
  | Running client peer_server endpoint

text \<open>
  \<open>main\<close> up to its loop. The peer server has the default number of workers.
\<close>

definition default_workers :: nat where "default_workers = 4"

definition client_start ::
  "filesystem \<Rightarrow> dialer \<Rightarrow> listen_os \<Rightarrow> string list \<Rightarrow> startup" where
  "client_start fs os los args =
     (if length args < 2 \<or> 3 < length args then Usage_error
      else if web_port_of (if length args = 3 then Some (args ! 2) else None) = None then Bad_web_port
      else (case split_address (args ! 0) of None \<Rightarrow> Undefined
        | Some (hostip, hostport) \<Rightarrow>
            let trackers = load_endpoints fs (args ! 1) in
            if trackers = [] then No_trackers
            else (case connect_first os trackers \<lparr>tc_open = False, tc_token = ''''\<rparr> of
                (tc, None) \<Rightarrow> Unreachable
              | (tc, Some e) \<Rightarrow>
                  (case peer_server_start los default_workers hostip hostport of
                    None \<Rightarrow> No_peer_server (tc_disconnect tc)
                  | Some server \<Rightarrow> Running \<lparr>cl_tracker = tc, cl_registry = [], cl_downloads = [], cl_host_port = hostport,
                         cl_peername = '''', cl_connected = False\<rparr> server e))))"

text \<open>The loop of the prompt: what it prints for each line, until \<open>exit\<close> or the end of input.\<close>

fun repl :: "openssl \<Rightarrow> filesystem \<Rightarrow> 'w link \<Rightarrow> string list \<Rightarrow> client \<times> 'w \<Rightarrow> (client \<times> 'w) \<times> string list" where
  "repl ssl fs link [] s = (s, [])"
| "repl ssl fs link (line # ls) s =
     (let args = split_args line in
      if args = [] then
        (case repl ssl fs link ls s of (s', outs) \<Rightarrow>
          (s', (''-------- Unrecognized command. Enter a valid command. --------'' @ [newline]) # outs))
      else if args ! 0 = ''exit'' then (s, [])
      else (case execute ssl fs link args (fst s) (snd s) of (s1, out) \<Rightarrow>
        (case repl ssl fs link ls s1 of (s', outs) \<Rightarrow> (s', out # outs))))"

text \<open>
  The optional dashboard of \<open>main\<close>: off without a port, and a port that cannot be bound is reported and
  ignored. The end of \<open>main\<close>: the dashboard stops first, the peer server last, once the downloads have
  been waited for.
\<close>

definition dashboard ::
  "openssl \<Rightarrow> filesystem \<Rightarrow> 'w link \<Rightarrow> string \<Rightarrow> listen_os \<Rightarrow> string \<Rightarrow> int \<Rightarrow> http_server \<times> (client \<times> 'w) routes" where
  "dashboard ssl fs link page los hostport web_port =
     (if 0 < web_port
      then (fst (http_start los web_port new_http_server), register_web_ui ssl fs link page hostport [])
      else (new_http_server, []))"

definition client_exit :: "http_server \<Rightarrow> client \<Rightarrow> peer_server \<Rightarrow> http_server \<times> client \<times> peer_server" where
  "client_exit web c server =
     (http_stop web, c\<lparr>cl_tracker := tc_disconnect (cl_tracker c)\<rparr>, stop_begin server)"

end
