(* ===== verification/Client_Guarantees.thy ===== *)
theory Client_Guarantees imports Client_Main
begin

text \<open>
  What the client's own interfaces guarantee: the peer server hands out registered files only and
  accounts for every connection; no command acts without a session; the local web interface refuses
  oversized requests, hands requests over whole however they arrive, and quotes its output correctly.
\<close>

section \<open>JSON text\<close>

text \<open>A reader of JSON string literals, from behind the opening quote: the value and what follows the closing one.\<close>

definition hex_val :: "char \<Rightarrow> nat option" where
  "hex_val c = (case takeWhile (\<lambda>(d, i). d \<noteq> c) (zip hex_digits [0..<16]) of xs \<Rightarrow>
     if length xs < 16 then Some (length xs) else None)"

fun json_read :: "string \<Rightarrow> (string \<times> string) option" where
  "json_read [] = None"
| "json_read (c # s) =
     (if c = CHR 0x22 then Some ([], s)
      else if (of_char c :: nat) < 32 then None
      else if c \<noteq> CHR 0x5C then (case json_read s of None \<Rightarrow> None | Some (v, r) \<Rightarrow> Some (c # v, r))
      else (case s of
          [] \<Rightarrow> None
        | d # s' \<Rightarrow>
            if d = CHR ''u'' then
              (case s' of
                 a # b # x # y # s'' \<Rightarrow>
                   (case (hex_val a, hex_val b, hex_val x, hex_val y) of
                      (Some 0, Some 0, Some i, Some j) \<Rightarrow>
                        (case json_read s'' of None \<Rightarrow> None | Some (v, r) \<Rightarrow> Some (char_of (16 * i + j) # v, r))
                    | _ \<Rightarrow> None)
               | _ \<Rightarrow> None)
            else (case (if d = CHR ''n'' then Some (CHR 0x0A) else if d = CHR ''r'' then Some (CHR 0x0D)
                        else if d = CHR ''t'' then Some (CHR 0x09) else if d = CHR 0x22 then Some (CHR 0x22)
                        else if d = CHR 0x5C then Some (CHR 0x5C) else if d = CHR ''/'' then Some (CHR ''/'') else None) of
                    None \<Rightarrow> None
                  | Some e \<Rightarrow> (case json_read s' of None \<Rightarrow> None | Some (v, r) \<Rightarrow> Some (e # v, r)))))"

lemma hex_val_digit: "i < 16 \<Longrightarrow> hex_val (hex_digits ! i) = Some i"
proof -
  assume "i < 16"
  then have "i \<in> set [0..<16]" by simp
  moreover have "\<forall>i \<in> set [0..<16]. hex_val (hex_digits ! i) = Some i"
    unfolding hex_val_def hex_digits_def by code_simp
  ultimately show ?thesis by blast
qed

lemma json_read_char: "json_read (json_char c @ s) = (case json_read s of None \<Rightarrow> None | Some (v, r) \<Rightarrow> Some (c # v, r))"
proof (cases "(of_char c :: nat) < 32")
  case True
  then have "(of_char c :: nat) div 16 < 16" "(of_char c :: nat) mod 16 < 16"
    "hex_val (CHR ''0'') = Some 0" "char_of (16 * (of_char c div 16) + of_char c mod 16 :: nat) = c"
    using hex_val_digit [of 0] by (simp_all add: hex_digits_def)
  then show ?thesis using True hex_val_digit
    by (cases "json_read s") (auto simp: json_char_def hex4_def)
qed (cases "json_read s"; auto simp: json_char_def)

lemma hex_digit_printable: "i < 16 \<Longrightarrow> 32 \<le> (of_char (hex_digits ! i) :: nat)"
proof -
  assume "i < 16"
  moreover have "\<forall>i \<in> set [0..<16]. 32 \<le> (of_char (hex_digits ! i) :: nat)"
    unfolding hex_digits_def by code_simp
  ultimately show ?thesis by simp
qed

lemma json_char_printable: "d \<in> set (json_char c) \<Longrightarrow> 32 \<le> (of_char d :: nat)"
proof -
  assume d: "d \<in> set (json_char c)"
  show ?thesis
  proof (cases "(of_char c :: nat) < 32")
    case True
    then have "(of_char c :: nat) div 16 < 16" "(of_char c :: nat) mod 16 < 16" by simp_all
    with d show ?thesis using hex_digit_printable
      by (auto simp: json_char_def hex4_def split: if_splits)
  qed (use d in \<open>auto simp: json_char_def split: if_splits\<close>)
qed

lemma json_read_escape: "json_read (json_escape s @ CHR 0x22 # rest) = Some (s, rest)"
  by (induction s) (simp_all add: json_escape_def json_read_char)

text \<open>
  C32: What the web interface prints as a JSON string is one: a JSON reader gets the original bytes back
  and stops at the closing quote, whatever tracker, peers or file names put into the text, and no raw
  control character is in it.
\<close>

theorem json_strings_round_trip:
  "json_read (json_escape s @ CHR 0x22 # rest) = Some (s, rest) \<and>
   (\<forall>c \<in> set (json_escape s). 32 \<le> (of_char c :: nat))"
proof
  show "json_read (json_escape s @ CHR 0x22 # rest) = Some (s, rest)"
    by (rule json_read_escape)
  show "\<forall>c \<in> set (json_escape s). 32 \<le> (of_char c :: nat)"
    using json_char_printable by (auto simp: json_escape_def)
qed

theorem json_strings_round_trip_witness:
  "json_read (json_escape [CHR 0x22, CHR 0x0A, CHR 0x01, CHR ''x''] @ CHR 0x22 # ''}'') = Some ([CHR 0x22, CHR 0x0A, CHR 0x01, CHR ''x''], ''}'')"
  by (rule json_strings_round_trip [THEN conjunct1])

section \<open>The arguments of a command\<close>

text \<open>Text the reader of arguments understands: it knows the escapes of newline, return and tab only.\<close>

definition plain_text :: "string \<Rightarrow> bool" where
  "plain_text s \<longleftrightarrow> (\<forall>c \<in> set s. (32 \<le> (of_char c :: nat) \<or> c = CHR 0x0A \<or> c = CHR 0x0D \<or> c = CHR 0x09) \<and> c \<noteq> CHR '']'')"

text \<open>The request body the page builds: the arguments as a JSON object.\<close>

definition page_body :: "string list \<Rightarrow> string" where
  "page_body args = CHR ''{'' # member ''args'' (CHR ''['' # commas (map quoted args) @ '']'') @ ''}''"

lemma unquote_plain: "c \<noteq> CHR 0x22 \<Longrightarrow> c \<noteq> CHR 0x5C \<Longrightarrow> unquote (c # s) = (c # fst (unquote s), snd (unquote s))"
  by (cases s) (simp_all split: prod.split)

lemma unquote_char:
  assumes "32 \<le> (of_char c :: nat) \<or> c = CHR 0x0A \<or> c = CHR 0x0D \<or> c = CHR 0x09"
  shows "unquote (json_char c @ s) = (c # fst (unquote s), snd (unquote s))"
  using assms unquote_plain [of c s]
  by (auto simp: json_char_def unescape_char_def split: prod.split)

lemma unquote_escaped: "plain_text a \<Longrightarrow> unquote (json_escape a @ CHR 0x22 # s) = (a, CHR 0x22 # s)"
proof (induction a)
  case Nil
  then show ?case by (cases s) (simp_all add: json_escape_def)
next
  case (Cons c a)
  then show ?case using unquote_char [of c "json_escape a @ CHR 0x22 # s"] by (simp add: json_escape_def plain_text_def)
qed

lemma find_from_skip:
  assumes "c \<notin> set m"
  shows "find_from c (length pre) (pre @ m @ c # post) = Some (length pre + length m)"
proof -
  have "takeWhile (\<lambda>x. x \<noteq> c) (m @ c # post) = m" using assms by (induction m) auto
  then show ?thesis by (simp add: find_from_def)
qed

lemma args_loop_item:
  assumes "CHR 0x22 \<notin> set sep" "plain_text a" "length pre + length sep < close"
  shows "args_loop (pre @ sep @ quoted a @ post) close (length pre) =
    a # args_loop (pre @ sep @ quoted a @ post) close (length (pre @ sep @ quoted a))"
proof -
  let ?body = "pre @ sep @ quoted a @ post"
  have q: "find_from (CHR 0x22) (length pre) ?body = Some (length pre + length sep)"
    using find_from_skip [OF assms(1), of pre "json_escape a @ CHR 0x22 # post"] by (simp add: quoted_def)
  have d: "drop (length pre + length sep + 1) ?body = json_escape a @ CHR 0x22 # post"
    by (simp add: quoted_def)
  show ?thesis
    unfolding args_loop.simps [of ?body close "length pre"] q
    using assms(3) unquote_escaped [OF assms(2), of post] d by (simp add: quoted_def)
qed

lemma args_loop_items:
  assumes "\<forall>a \<in> set as. plain_text a"
    and "close = length pre + length (concat (map (\<lambda>a. CHR '','' # quoted a) as))"
  shows "args_loop (pre @ concat (map (\<lambda>a. CHR '','' # quoted a) as) @ post) close (length pre) = as"
  using assms
proof (induction as arbitrary: pre)
  case Nil
  then show ?case by (simp add: args_loop.simps)
next
  case (Cons a as)
  let ?post = "concat (map (\<lambda>a. CHR '','' # quoted a) as) @ post"
  have "args_loop (pre @ '','' @ quoted a @ ?post) close (length pre) =
      a # args_loop (pre @ '','' @ quoted a @ ?post) close (length (pre @ '','' @ quoted a))"
    using Cons.prems by (intro args_loop_item) (simp_all add: quoted_def)
  moreover have "args_loop ((pre @ '','' @ quoted a) @ ?post) close (length (pre @ '','' @ quoted a)) = as"
    using Cons.prems by (intro Cons.IH) simp_all
  ultimately show ?case by simp
qed

lemma commas_no_bracket:
  assumes "\<forall>a \<in> set as. plain_text a"
  shows "CHR '']'' \<notin> set (commas (map quoted as))"
proof -
  have "CHR '']'' \<notin> set (json_char c)" if "c \<noteq> CHR '']''" for c
    using that by (auto simp: json_char_def hex4_def hex_digits_def nth_Cons split: nat.splits)
  then have "CHR '']'' \<notin> set (quoted a)" if "plain_text a" for a
    using that by (auto simp: quoted_def json_escape_def plain_text_def)
  then show ?thesis using assms by (auto simp: commas_def split: list.splits)
qed

text \<open>
  The arguments a page sends arrive as they were typed: quotes, backslashes, newlines and non-ASCII bytes
  included. (Not covered, and not true: a closing bracket or another control character in an argument.)
\<close>

lemma read_page_args:
  assumes "\<forall>a \<in> set args. plain_text a"
  shows "parse_args (page_body args) = args"
proof -
  let ?pre = "CHR ''{'' # args_key @ '':''" and ?items = "commas (map quoted args)"
  have body: "page_body args = ?pre @ CHR ''['' # ?items @ '']}''"
    by (simp add: page_body_def member_def args_key_def)
  have "after_sub args_key (page_body args) = Some ('':['' @ ?items @ '']}'')"
    by (simp add: body args_key_def)
  then have k: "find_sub args_key (page_body args) = Some 1"
    by (simp add: find_sub_def body args_key_def)
  have b: "find_from (CHR ''['') 1 (page_body args) = Some 8"
    using find_from_skip [of "CHR ''[''" "args_key @ '':''" "''{''" "?items @ '']}''"]
    by (simp add: body args_key_def)
  have c: "find_from (CHR '']'') 8 (page_body args) = Some (9 + length ?items)"
    using find_from_skip [of "CHR '']''" "CHR ''['' # ?items" ?pre "''}''"] commas_no_bracket [OF assms]
    by (simp add: body args_key_def eval_nat_numeral)
  have "args_loop (page_body args) (9 + length ?items) 9 = args"
  proof (cases args)
    case Nil
    then show ?thesis by (simp add: commas_def args_loop.simps)
  next
    case (Cons a as)
    let ?rest = "concat (map (\<lambda>a. CHR '','' # quoted a) as)"
    have i: "?items = quoted a @ ?rest" by (simp add: Cons commas_def comp_def)
    have pa: "plain_text a" "\<forall>a \<in> set as. plain_text a" using assms Cons by simp_all
    have ne: "0 < length ?items" by (simp add: i quoted_def)
    have p: "length (?pre @ ''['') = 9" by (simp add: args_key_def)
    have "args_loop ((?pre @ ''['') @ [] @ quoted a @ ?rest @ '']}'') (9 + length ?items) (length (?pre @ ''['')) =
        a # args_loop ((?pre @ ''['') @ [] @ quoted a @ ?rest @ '']}'') (9 + length ?items) (length ((?pre @ ''['') @ [] @ quoted a))"
      using pa ne by (intro args_loop_item) (simp_all add: args_key_def)
    moreover have "args_loop ((?pre @ ''['' @ quoted a) @ ?rest @ '']}'') (9 + length ?items) (length (?pre @ ''['' @ quoted a)) = as"
      using pa by (intro args_loop_items) (simp_all add: i args_key_def)
    ultimately have "args_loop (page_body args) (9 + length ?items) (length (?pre @ ''['')) = a # as"
      by (simp add: body i)
    then show ?thesis by (simp only: p Cons)
  qed
  then show ?thesis using k b c by (simp add: parse_args_def)
qed

section \<open>Requests over any stream\<close>

definition ends_blank :: "string \<Rightarrow> bool" where
  "ends_blank out \<longleftrightarrow> 4 \<le> length out \<and> drop (length out - 4) out = crlf2"

lemma ends_blank_append: "ends_blank (out @ [a, b, c, d]) \<longleftrightarrow> [a, b, c, d] = crlf2"
  by (simp add: ends_blank_def)

lemma ends_blank_last: "c \<noteq> CHR 0x0A \<Longrightarrow> \<not> ends_blank (out @ [c])"
proof
  assume c: "c \<noteq> CHR 0x0A" and e: "ends_blank (out @ [c])"
  then have "last (drop (length (out @ [c]) - 4) (out @ [c])) = last crlf2" "length (out @ [c]) - 4 < length (out @ [c])"
    by (simp_all add: ends_blank_def)
  then have "last (out @ [c]) = CHR 0x0A" by (simp only: last_drop) (simp add: crlf2_def)
  then show False using c by simp
qed

lemma ends_blank_not_blank:
  assumes "c \<noteq> CHR 0x0A" shows "\<not> ends_blank (out @ [c, CHR 0x0D, CHR 0x0A])"
proof (cases out rule: rev_cases)
  case (snoc xs x)
  then show ?thesis using assms ends_blank_append [of xs x c "CHR 0x0D" "CHR 0x0A"] by (simp add: crlf2_def)
qed (simp add: ends_blank_def)

lemma read_headers_step:
  "read_headers out s = (if length out < kMaxHeader then
     (case read_byte s of None \<Rightarrow> None
      | Some (c, s') \<Rightarrow> if ends_blank (out @ [c]) then Some (out @ [c], s') else read_headers (out @ [c]) s') else None)"
  by (subst read_headers.simps) (simp only: ends_blank_def Let_def)

lemma read_headers_final:
  "read_byte s = Some (CHR 0x0A, s') \<Longrightarrow> length h + 1 < kMaxHeader \<Longrightarrow> ends_blank (h @ [CHR 0x0D, CHR 0x0A]) \<Longrightarrow>
   read_headers (h @ [CHR 0x0D]) s = Some (h @ [CHR 0x0D, CHR 0x0A], s')"
  by (simp add: read_headers_step [of "h @ [CHR 0x0D]" s])

lemma read_byte_cons:
  assumes "stream_open s" "concat s = c # w"
  shows "\<exists>s'. read_byte s = Some (c, s') \<and> concat s' = w \<and> stream_open s'"
  using assms by (cases s rule: read_byte.cases) (auto simp: stream_open_def)

text \<open>One more byte that does not complete the blank line.\<close>

lemma read_headers_byte:
  assumes "stream_open s" "concat s = c # w" "length out < kMaxHeader" "\<not> ends_blank (out @ [c])"
  shows "\<exists>s'. read_headers out s = read_headers (out @ [c]) s' \<and> concat s' = w \<and> stream_open s'"
proof -
  obtain s' where s': "read_byte s = Some (c, s')" "concat s' = w" "stream_open s'"
    using read_byte_cons [OF assms(1,2)] by blast
  then have "read_headers out s = read_headers (out @ [c]) s'"
    using assms(3,4) by (simp add: read_headers_step [of out s])
  then show ?thesis using s' by blast
qed

text \<open>A header line: not empty, without line breaks; the request line is one.\<close>

definition header_line :: "string \<Rightarrow> bool" where
  "header_line l \<longleftrightarrow> l \<noteq> [] \<and> (\<forall>c \<in> set l. c \<noteq> CHR 0x0A \<and> c \<noteq> CHR 0x0D)"

lemma read_headers_text:
  assumes "stream_open s" "concat s = l @ w" "length (out @ l) \<le> kMaxHeader" "\<forall>c \<in> set l. c \<noteq> CHR 0x0A"
  shows "\<exists>s'. read_headers out s = read_headers (out @ l) s' \<and> concat s' = w \<and> stream_open s'"
  using assms
proof (induction l arbitrary: out s)
  case (Cons c l)
  obtain s1 where s1: "read_headers out s = read_headers (out @ [c]) s1" "concat s1 = l @ w" "stream_open s1"
    using read_headers_byte [of s c "l @ w" out] Cons.prems ends_blank_last [of c out] by auto
  then show ?case using Cons.IH [of s1 "out @ [c]"] Cons.prems by auto
qed auto

lemma read_headers_line:
  assumes "stream_open s" "concat s = l @ http_eol @ w" "length (out @ l @ http_eol) \<le> kMaxHeader" "header_line l"
  shows "\<exists>s'. read_headers out s = read_headers (out @ l @ http_eol) s' \<and> concat s' = w \<and> stream_open s'"
proof -
  obtain xs c where l: "l = xs @ [c]" "c \<noteq> CHR 0x0A" using assms(4) by (cases l rule: rev_cases) (auto simp: header_line_def)
  obtain s1 where s1: "read_headers out s = read_headers (out @ l @ [CHR 0x0D]) s1" "concat s1 = CHR 0x0A # w" "stream_open s1"
    using read_headers_text [of s "l @ [CHR 0x0D]" "CHR 0x0A # w" out] assms by (auto simp: http_eol_def header_line_def)
  have "\<not> ends_blank ((out @ l @ [CHR 0x0D]) @ [CHR 0x0A])"
    using ends_blank_not_blank [OF l(2), of "out @ xs"] by (simp add: l(1))
  from read_headers_byte [OF s1(3,2) _ this] s1(1) assms(3) show ?thesis by (auto simp: http_eol_def)
qed

lemma read_headers_lines:
  assumes "stream_open s" "concat s = concat (map (\<lambda>l. l @ http_eol) ls) @ w" "\<forall>l \<in> set ls. header_line l"
    and "length (out @ concat (map (\<lambda>l. l @ http_eol) ls)) \<le> kMaxHeader"
  shows "\<exists>s'. read_headers out s = read_headers (out @ concat (map (\<lambda>l. l @ http_eol) ls)) s' \<and> concat s' = w \<and> stream_open s'"
  using assms
proof (induction ls arbitrary: out s)
  case (Cons l ls)
  obtain s1 where s1: "read_headers out s = read_headers (out @ l @ http_eol) s1"
      "concat s1 = concat (map (\<lambda>l. l @ http_eol) ls) @ w" "stream_open s1"
    using read_headers_line [of s l "concat (map (\<lambda>l. l @ http_eol) ls) @ w" out] Cons.prems by auto
  then show ?case using Cons.IH [of s1 "out @ l @ http_eol"] Cons.prems by auto
qed auto

definition request_head :: "string list \<Rightarrow> string" where
  "request_head ls = concat (map (\<lambda>l. l @ http_eol) ls) @ http_eol"

text \<open>The head of a request is read to its end and no further, however the stream is cut up.\<close>

lemma read_headers_head:
  assumes "stream_open s" "concat s = request_head ls @ w" "ls \<noteq> []" "\<forall>l \<in> set ls. header_line l"
    and "length (request_head ls) \<le> kMaxHeader"
  shows "\<exists>s'. read_headers [] s = Some (request_head ls, s') \<and> concat s' = w \<and> stream_open s'"
proof -
  let ?h = "concat (map (\<lambda>l. l @ http_eol) ls)"
  obtain s1 where s1: "read_headers [] s = read_headers ?h s1" "concat s1 = http_eol @ w" "stream_open s1"
    using read_headers_lines [of s ls "http_eol @ w" "[]"] assms by (auto simp: request_head_def)
  obtain s2 where s2: "read_headers ?h s1 = read_headers (?h @ [CHR 0x0D]) s2" "concat s2 = CHR 0x0A # w" "stream_open s2"
    using read_headers_text [of s1 "[CHR 0x0D]" "CHR 0x0A # w" ?h] s1 assms(5) by (auto simp: http_eol_def request_head_def)
  obtain s3 where s3: "read_byte s2 = Some (CHR 0x0A, s3)" "concat s3 = w" "stream_open s3"
    using read_byte_cons [OF s2(3,2)] by blast
  obtain ls' l where "ls = ls' @ [l]" using assms(3) by (cases ls rule: rev_cases) auto
  then have "?h @ [CHR 0x0D, CHR 0x0A] = (concat (map (\<lambda>l. l @ http_eol) ls') @ l) @ crlf2"
    by (simp add: http_eol_def crlf2_def)
  then have "ends_blank (?h @ [CHR 0x0D, CHR 0x0A])" by (simp add: ends_blank_def crlf2_def)
  then have "read_headers (?h @ [CHR 0x0D]) s2 = Some (request_head ls, s3)"
    using read_headers_final [OF s3(1), of ?h] assms(5) by (simp add: request_head_def) (simp add: http_eol_def)
  then show ?thesis using s1(1) s2(1) s3 by auto
qed

lemma read_more_exact:
  "stream_open s \<Longrightarrow> fst (read_more n s) = take n (concat s)"
  by (induction n s rule: read_more.induct) (auto simp: stream_open_def split: prod.splits)

lemma content_length_end: "\<forall>l \<in> set ls. l \<noteq> [CHR 0x0D] \<Longrightarrow> content_length n (ls @ [[CHR 0x0D]]) = content_length n ls"
  by (induction n ls rule: content_length.induct) auto

lemma request_line_head:
  assumes "is_word meth" "is_word path" "is_word version" "\<forall>l \<in> set hs. header_line l"
  shows "request_line (request_head ((meth @ spaced [path, version]) # hs)) =
    (meth, path, content_length 0 (map (\<lambda>l. l @ [CHR 0x0D]) hs))"
proof -
  let ?cr = "\<lambda>l. l @ [CHR 0x0D]"
  let ?s3 = "unlines ([CHR 0x0D] # map ?cr hs @ [[CHR 0x0D]])"
  have "unlines (map ?cr ls) = concat (map (\<lambda>l. l @ http_eol) ls)" for ls
    by (induction ls) (simp_all add: http_eol_def newline_def)
  then have raw: "request_head ((meth @ spaced [path, version]) # hs) = meth @ CHR '' '' # path @ CHR '' '' # version @ ?s3"
    by (simp add: request_head_def unlines_append) (simp add: http_eol_def newline_def)
  have ends: "ends_word ?s3" by (simp add: isspace_def)
  have "\<forall>l \<in> set ([CHR 0x0D] # map ?cr hs @ [[CHR 0x0D]]). newline \<notin> set l"
    using assms(4) by (auto simp: newline_def header_line_def)
  then have "getlines ?s3 = [CHR 0x0D] # map ?cr hs @ [[CHR 0x0D]]" by (rule getlines_unlines)
  moreover have "\<forall>l \<in> set (map ?cr hs). l \<noteq> [CHR 0x0D]" using assms(4) by (auto simp: header_line_def)
  ultimately have lines: "content_length 0 (drop 1 (getlines ?s3)) = content_length 0 (map ?cr hs)"
    by (simp add: content_length_end)
  show ?thesis unfolding raw request_line_def
    using read_word_word [OF assms(1), of "CHR '' '' # path @ CHR '' '' # version @ ?s3"]
      read_word_spaced [OF assms(2), of "CHR '' '' # version @ ?s3"] read_word_spaced [OF assms(3) ends] lines
    by (simp del: unlines_simps getlines_unlines)
qed

lemma serve_request:
  assumes "stream_open stream" "concat stream = request_head ((meth @ spaced [path, version]) # hs) @ w"
    and "is_word meth" "is_word path" "is_word version" "\<forall>l \<in> set hs. header_line l"
    and "length (request_head ((meth @ spaced [path, version]) # hs)) \<le> kMaxHeader"
    and "n = content_length 0 (map (\<lambda>l. l @ [CHR 0x0D]) hs)"
  shows "serve routes stream s =
    (if kMaxBody < n then (s, Some (response_text (plain_response 413 ''request body too large'')))
     else case map_of routes (meth @ '' '' @ takeWhile (\<lambda>c. c \<noteq> CHR ''?'') path) of
         None \<Rightarrow> (s, Some (response_text (plain_response 404 ''not found'')))
       | Some h \<Rightarrow> map_prod id (Some \<circ> response_text)
           (h \<lparr>rq_method = meth, rq_path = takeWhile (\<lambda>c. c \<noteq> CHR ''?'') path, rq_body = take n w\<rparr> s))"
proof -
  have "c \<in> set v \<Longrightarrow> is_word v \<Longrightarrow> c \<noteq> CHR 0x0A \<and> c \<noteq> CHR 0x0D" for c v
    by (auto simp: is_word_def isspace_def)
  then have "header_line (meth @ spaced [path, version])"
    using assms(3-5) by (auto simp: header_line_def)
  then obtain rest where h: "read_headers [] stream = Some (request_head ((meth @ spaced [path, version]) # hs), rest)"
      "concat rest = w" "stream_open rest"
    using read_headers_head [OF assms(1,2) _ _ assms(7)] assms(6) by auto
  have body: "(if 0 < n then fst (read_more n rest) else []) = take n w"
    using read_more_exact [OF h(3), of n] h(2) by simp
  have ne: "meth \<noteq> []" "path \<noteq> []" using assms(3,4) by (simp_all add: is_word_def)
  show ?thesis
    unfolding serve_def h(1) option.case prod.case request_line_head [OF assms(3-6)] assms(8) [symmetric] body Let_def
    using ne by (simp split: option.split prod.split)
qed

text \<open>
  C35: A request is handled whole and within bounds: for a head of at most 16 KiB, however the stream is
  cut up, the handler of the method and path (without its query) gets exactly the declared number of
  body bytes (fewer only when the stream ends), an unknown path answers 404, and a declared body above
  1 MiB is refused with 413 before any handler runs.
\<close>

theorem requests_are_handled_whole:
  assumes "stream_open stream" "concat stream = request_head ((meth @ spaced [path, version]) # hs) @ w"
    and "is_word meth" "is_word path" "is_word version" "\<forall>l \<in> set hs. header_line l"
    and "length (request_head ((meth @ spaced [path, version]) # hs)) \<le> kMaxHeader"
    and "n = content_length 0 (map (\<lambda>l. l @ [CHR 0x0D]) hs)"
  shows "serve routes stream s =
    (if kMaxBody < n then (s, Some (response_text (plain_response 413 ''request body too large'')))
     else case map_of routes (meth @ '' '' @ takeWhile (\<lambda>c. c \<noteq> CHR ''?'') path) of
         None \<Rightarrow> (s, Some (response_text (plain_response 404 ''not found'')))
       | Some h \<Rightarrow> map_prod id (Some \<circ> response_text)
           (h \<lparr>rq_method = meth, rq_path = takeWhile (\<lambda>c. c \<noteq> CHR ''?'') path, rq_body = take n w\<rparr> s))"
  by (rule serve_request [OF assms])

theorem requests_are_handled_whole_witness:
  "serve [(''POST /x'', \<lambda>req s. (rq_body req, plain_response 200 ''''))]
     [''POST /x?q HTT'', ''P/1.1'' @ http_eol @ ''Content-Length: 3'' @ [CHR 0x0D], [CHR 0x0A] @ http_eol @ ''a'', ''bcd''] '''' =
   (''abc'', Some (response_text (plain_response 200 '''')))"
proof -
  let ?s = "[''POST /x?q HTT'', ''P/1.1'' @ http_eol @ ''Content-Length: 3'' @ [CHR 0x0D], [CHR 0x0A] @ http_eol @ ''a'', ''bcd'']"
  let ?rs = "[(''POST /x'', \<lambda>req s. (rq_body req, plain_response 200 ''''))]"
  have o: "stream_open ?s" by (simp add: stream_open_def)
  have c: "concat ?s = request_head ((''POST'' @ spaced [''/x?q'', ''HTTP/1.1'']) # [''Content-Length: 3'']) @ ''abcd''"
    by (simp add: request_head_def http_eol_def)
  have w: "is_word ''POST''" "is_word ''/x?q''" "is_word ''HTTP/1.1''" by (simp_all add: is_word_def isspace_def)
  have h: "\<forall>l \<in> set [''Content-Length: 3'']. header_line l" by (simp add: header_line_def)
  have k: "length (request_head ((''POST'' @ spaced [''/x?q'', ''HTTP/1.1'']) # [''Content-Length: 3''])) \<le> kMaxHeader"
    by (simp add: request_head_def http_eol_def kMaxHeader_def)
  have n: "3 = content_length 0 (map (\<lambda>l. l @ [CHR 0x0D]) [''Content-Length: 3''])"
    by (simp add: to_lower_def strtoul_def isspace_def isdigit_def dec_value_def digit_val_def char_of_def bit_0)
  have m: "map_of ?rs (''POST'' @ '' '' @ takeWhile (\<lambda>c. c \<noteq> CHR ''?'') ''/x?q'') = Some (\<lambda>req s. (rq_body req, plain_response 200 ''''))"
    by simp
  have b: "\<not> kMaxBody < 3" by (simp add: kMaxBody_def)
  show ?thesis
    by (subst requests_are_handled_whole [OF o c w h k n], subst m, subst if_not_P [OF b])
      (simp only: option.case map_prod_simp id_apply comp_apply http_request.select_convs take_Suc_conv_app_nth, simp)
qed

section \<open>The client's session\<close>

text \<open>
  Without a session the client holds no name and no token. The connection and the port it announces are
  those of the start.
\<close>

definition client_inv :: "string \<Rightarrow> client \<Rightarrow> bool" where
  "client_inv port c \<longleftrightarrow> tc_open (cl_tracker c) \<and> cl_host_port c = port \<and>
     (\<not> cl_connected c \<longrightarrow> cl_peername c = [] \<and> tc_token (cl_tracker c) = [])"

lemma relay_client [simp]: "fst (fst (relay link msg c w)) = c"
  by (simp add: relay_def split: prod.split)

lemma client_inv_execute: "client_inv port c \<Longrightarrow> client_inv port (fst (fst (execute ssl fs link args c w)))"
proof -
  assume inv: "client_inv port c"
  have upd: "client_inv port (c\<lparr>cl_registry := r\<rparr>)" "client_inv port (c\<lparr>cl_downloads := d\<rparr>)"
    "client_inv port (clear_session c)" "client_inv port (set_session u t (clear_session c))" for r d u t
    using inv by (simp_all add: client_inv_def clear_session_def set_session_def clear_token_def set_token_def)
  have "client_inv port (fst (fst (do_login link args c w)))" "client_inv port (fst (fst (do_upload ssl fs link args c w)))"
    "client_inv port (fst (fst (do_download args c w)))" "client_inv port (fst (fst (do_stop_share link args c w)))"
    using inv upd by (auto simp: do_login_def do_upload_def do_download_def do_stop_share_def Let_def case_prod_beta split: option.split)
  moreover have "client_inv port (fst (fst (execute_session ssl fs link args c w)))"
    unfolding execute_session_def Let_def
    by (intro if_split [where P = "\<lambda>x. client_inv port (fst (fst x))", THEN iffD2] conjI impI)
      (use inv upd calculation in \<open>simp_all add: case_prod_beta\<close>)
  ultimately show ?thesis
    using inv by (simp add: execute_def Let_def split: option.split)
qed

lemma client_inv_repl: "client_inv port (fst s) \<Longrightarrow> client_inv port (fst (fst (repl ssl fs link ls s)))"
proof (induction ls arbitrary: s)
  case (Cons l ls)
  then show ?case by (simp add: Let_def case_prod_beta client_inv_execute)
qed simp

lemma client_inv_start: "client_start fs os los args = Running c server e \<Longrightarrow> client_inv (cl_host_port c) c"
  by (auto simp: client_start_def client_inv_def connect_first_finds Let_def split: if_splits option.splits prod.splits)

lemma no_session:
  "\<not> cl_connected c \<Longrightarrow> args = [] \<or> args ! 0 \<noteq> ''create_user'' \<and> args ! 0 \<noteq> ''login'' \<Longrightarrow>
   fst (execute ssl fs link args c w) = (c, w)"
  by (auto simp: execute_def require_login_def Let_def)

text \<open>
  C37: Whatever lines are typed at the prompt of a started client, as long as nobody is logged in the
  client holds neither a name nor a token, and every command but \<open>create_user\<close> and \<open>login\<close> changes
  nothing and sends nothing: it only prints.
\<close>

theorem no_session_no_command:
  assumes "client_start files os los argv = Running c server e"
    and "repl ssl fs link ls (c, w) = ((c', w'), outs)" "\<not> cl_connected c'"
  shows "cl_peername c' = [] \<and> tc_token (cl_tracker c') = [] \<and>
    (\<forall>args. args = [] \<or> args ! 0 \<noteq> ''create_user'' \<and> args ! 0 \<noteq> ''login'' \<longrightarrow> fst (execute ssl fs link args c' w') = (c', w'))"
proof -
  have "client_inv (cl_host_port c) c'"
    using client_inv_repl [of "cl_host_port c" "(c, w)" ssl fs link ls] client_inv_start [OF assms(1)] assms(2) by simp
  then show ?thesis using assms(3) no_session [OF assms(3), of _ ssl fs link w'] by (simp add: client_inv_def)
qed

definition no_digest :: openssl where
  "no_digest = \<lparr>evp_sha1 = (\<lambda>d. None), evp_sha256 = (\<lambda>d. None)\<rparr>"

definition demo_dialer :: dialer where
  "demo_dialer = \<lparr>os_socket = True, os_inet_pton = (\<lambda>ip. True), os_connect = (\<lambda>ip p. True)\<rparr>"

definition demo_listen :: listen_os where
  "demo_listen = \<lparr>ls_socket = True, ls_setsockopt = True, ls_inet_pton = (\<lambda>ip. True), ls_bind = (\<lambda>ip p. True), ls_listen = True\<rparr>"

definition demo_started :: client where
  "demo_started = \<lparr>cl_tracker = \<lparr>tc_open = True, tc_token = ''''\<rparr>, cl_registry = [], cl_downloads = [], cl_host_port = ''7000'',
     cl_peername = '''', cl_connected = False\<rparr>"

lemma demo_start:
  "client_start [''t'' \<mapsto> Readable (unlines [''10.0.0.9 5000''])] demo_dialer demo_listen [''10.0.0.1:7000'', ''t''] =
   Running demo_started (started 4) \<lparr>ep_ip = ''10.0.0.9'', ep_port = ''5000''\<rparr>"
proof -
  have p: "parse_int ''5000'' = Some 5000" "parse_int ''7000'' = Some 7000" by code_simp+
  then have v: "valid_port ''5000''" by (simp add: valid_port_def)
  then have "load_endpoints [''t'' \<mapsto> Readable (unlines [''10.0.0.9 5000''])] ''t'' = [\<lparr>ep_ip = ''10.0.0.9'', ep_port = ''5000''\<rparr>]"
    by (intro load_endpoints_lines) (simp_all add: is_word_def isspace_def)
  then show ?thesis using p v
    by (simp add: client_start_def web_port_of_def split_address_def connect_first_finds reachable_def demo_dialer_def
        peer_server_start_def demo_listen_def demo_started_def default_workers_def)
qed

theorem no_session_no_command_witness:
  "fst (execute no_digest Map.empty (\<lambda>m n. (n + 1, None)) [''list_groups''] demo_started (0 :: nat)) = (demo_started, 0)"
proof -
  have "repl no_digest Map.empty (\<lambda>m n. (n + 1, None)) [] (demo_started, 0 :: nat) = ((demo_started, 0), [])" by simp
  from no_session_no_command [OF demo_start this] show ?thesis by (simp add: demo_started_def)
qed

section \<open>The dashboard is a second prompt\<close>

text \<open>
  A connection over which a page posts a command: any version word, any further headers, the right
  \<open>Content-Length\<close>, cut up by the network in any way.
\<close>

definition posts :: "string list \<Rightarrow> string list \<Rightarrow> bool" where
  "posts stream args \<longleftrightarrow>
     (\<exists>version hs. is_word version \<and> (\<forall>l \<in> set hs. header_line l) \<and> stream_open stream \<and>
        concat stream = request_head ((''POST'' @ spaced [''/api/command'', version]) # hs) @ page_body args \<and>
        length (request_head ((''POST'' @ spaced [''/api/command'', version]) # hs)) \<le> kMaxHeader \<and>
        content_length 0 (map (\<lambda>l. l @ [CHR 0x0D]) hs) = length (page_body args)) \<and>
     length (page_body args) \<le> kMaxBody \<and> (\<forall>a \<in> set args. plain_text a)"

definition output_json :: "string \<Rightarrow> string" where
  "output_json out = CHR ''{'' # member ''output'' (quoted out) @ ''}''"

definition output_reply :: "string \<Rightarrow> string" where
  "output_reply out = response_text (json_response (output_json out))"

lemma output_json_read: "json_read (drop (length ''{_output_:_'') (output_json out)) = Some (out, ''}'')"
  using json_read_escape by (simp add: output_json_def member_def quoted_def)

lemma post_is_executed:
  assumes "posts stream args"
  shows "serve (register_web_ui ssl fs link page port []) stream s =
    (case execute ssl fs link args (fst s) (snd s) of (s', out) \<Rightarrow> (s', Some (output_reply out)))"
proof -
  obtain version hs where p: "is_word version" "\<forall>l \<in> set hs. header_line l" "stream_open stream"
      "concat stream = request_head ((''POST'' @ spaced [''/api/command'', version]) # hs) @ page_body args"
      "length (request_head ((''POST'' @ spaced [''/api/command'', version]) # hs)) \<le> kMaxHeader"
      "length (page_body args) = content_length 0 (map (\<lambda>l. l @ [CHR 0x0D]) hs)"
    and b: "\<not> kMaxBody < length (page_body args)" "\<forall>a \<in> set args. plain_text a"
    using assms unfolding posts_def by (metis not_less)
  have w: "is_word ''POST''" "is_word ''/api/command''" by (simp_all add: is_word_def isspace_def)
  have t: "takeWhile (\<lambda>c. c \<noteq> CHR ''?'') ''/api/command'' = ''/api/command''" by simp
  have m: "map_of (register_web_ui ssl fs link page port []) (''POST'' @ '' '' @ ''/api/command'') = Some (command_handler ssl fs link)"
    by (simp add: register_web_ui_def route_def update_conv)
  show ?thesis
    unfolding serve_request [OF p(3,4) w p(1,2,5,6)] t m if_not_P [OF b(1)] option.case
    using read_page_args [OF b(2)]
    by (simp add: command_handler_def output_reply_def output_json_def case_prod_beta)
qed

text \<open>
  C33: The dashboard is a second prompt: posting the words of some lines one after the other, over
  connections cut up in any way, leaves the client and the tracker in exactly the state that typing the
  lines leaves them in, and the replies are the prompt's outputs as JSON strings, which a JSON reader
  turns back into them.
\<close>

theorem dashboard_matches_prompt:
  assumes "list_all2 posts streams (map split_args lines)"
    and "\<forall>l \<in> set lines. split_args l \<noteq> [] \<and> split_args l ! 0 \<noteq> ''exit''"
    and "repl ssl fs link lines s = (s', outs)"
  shows "http_accept_loop (register_web_ui ssl fs link page port []) (map (\<lambda>st. (False, Some st)) streams) s =
      (s', map (Some \<circ> output_reply) outs, True) \<and>
    (\<forall>out. json_read (drop (length ''{_output_:_'') (output_json out)) = Some (out, ''}''))"
proof
  let ?loop = "\<lambda>streams. http_accept_loop (register_web_ui ssl fs link page port []) (map (\<lambda>st. (False, Some st)) streams)"
  show "?loop streams s = (s', map (Some \<circ> output_reply) outs, True)" using assms
  proof (induction lines arbitrary: streams s outs)
    case (Cons l ls)
    obtain st streams' where st: "streams = st # streams'" "posts st (split_args l)" "list_all2 posts streams' (map split_args ls)"
      using Cons.prems(1) by (auto simp: list_all2_Cons2)
    obtain s1 out where e: "execute ssl fs link (split_args l) (fst s) (snd s) = (s1, out)" by fastforce
    obtain outs' where r: "repl ssl fs link ls s1 = (s', outs')" "outs = out # outs'"
      using Cons.prems(2,3) e by (cases "repl ssl fs link ls s1") (auto simp: Let_def)
    have "?loop streams' s1 = (s', map (Some \<circ> output_reply) outs', True)"
      using Cons.IH [OF st(3) _ r(1)] Cons.prems(2) by simp
    then show ?case by (simp add: st(1) post_is_executed [OF st(2)] e r(2))
  qed simp
  show "\<forall>out. json_read (drop (length ''{_output_:_'') (output_json out)) = Some (out, ''}'')"
    using output_json_read by blast
qed

lemma demo_post:
  "posts [''POST /api/command HTT'', ''P/1.1'' @ http_eol @ ''Content-Length: 24'' @ http_eol @ http_eol @ take 4 (page_body [''list_groups'']),
      drop 4 (page_body [''list_groups''])] [''list_groups'']"
proof -
  have n: "content_length 0 (map (\<lambda>l. l @ [CHR 0x0D]) [''Content-Length: 24'']) = 24"
    by (simp add: to_lower_def strtoul_def isspace_def isdigit_def dec_value_def digit_val_def char_of_def bit_0)
  have l: "length (page_body [''list_groups'']) = 24"
    by (simp add: page_body_def member_def commas_def quoted_def json_escape_def json_char_def)
  have w: "is_word ''HTTP/1.1''" "\<forall>l \<in> set [''Content-Length: 24'']. header_line l" "\<forall>a \<in> set [''list_groups'']. plain_text a"
    by (simp_all add: is_word_def isspace_def header_line_def plain_text_def)
  have b: "page_body [''list_groups''] = take 4 (page_body [''list_groups'']) @ drop 4 (page_body [''list_groups''])"
    by (simp only: append_take_drop_id)
  have ne: "drop 4 (page_body [''list_groups'']) \<noteq> []" using l by (metis length_drop list.size(3) diff_is_0_eq numeral_le_iff semiring_norm(69,71,72))
  show ?thesis unfolding posts_def
  proof (intro conjI exI [of _ "''HTTP/1.1''"] exI [of _ "[''Content-Length: 24'']"])
    show "stream_open [''POST /api/command HTT'', ''P/1.1'' @ http_eol @ ''Content-Length: 24'' @ http_eol @ http_eol @
        take 4 (page_body [''list_groups'']), drop 4 (page_body [''list_groups''])]"
      using ne by (simp add: stream_open_def)
    show "concat [''POST /api/command HTT'', ''P/1.1'' @ http_eol @ ''Content-Length: 24'' @ http_eol @ http_eol @
        take 4 (page_body [''list_groups'']), drop 4 (page_body [''list_groups''])] =
      request_head ((''POST'' @ spaced [''/api/command'', ''HTTP/1.1'']) # [''Content-Length: 24'']) @ page_body [''list_groups'']"
      by (simp add: request_head_def http_eol_def)
    show "length (request_head ((''POST'' @ spaced [''/api/command'', ''HTTP/1.1'']) # [''Content-Length: 24''])) \<le> kMaxHeader"
      by (simp add: request_head_def http_eol_def kMaxHeader_def)
  qed (use w n l in \<open>simp_all add: kMaxBody_def del: content_length.simps\<close>)
qed

theorem dashboard_matches_prompt_witness:
  "fst (http_accept_loop (register_web_ui no_digest Map.empty (\<lambda>m n. (n + 1, None)) ''page'' ''7000'' [])
      [(False, Some [''POST /api/command HTT'', ''P/1.1'' @ http_eol @ ''Content-Length: 24'' @ http_eol @ http_eol @
          take 4 (page_body [''list_groups'']), drop 4 (page_body [''list_groups''])])] (demo_started, 0 :: nat)) =
   (demo_started, 0)"
proof -
  let ?l = "\<lambda>m n. (n + 1 :: nat, None :: string option)"
  have s: "split_args ''list_groups'' = [''list_groups'']"
    using split_args_command [of "''list_groups''" "[]"] by (simp add: is_word_def isspace_def)
  obtain out where r: "repl no_digest Map.empty ?l [''list_groups''] (demo_started, 0) = ((demo_started, 0), [out])"
    by (simp add: s Let_def execute_def require_login_def demo_started_def del: split_args.simps)
  have p: "list_all2 posts [[''POST /api/command HTT'', ''P/1.1'' @ http_eol @ ''Content-Length: 24'' @ http_eol @ http_eol @
      take 4 (page_body [''list_groups'']), drop 4 (page_body [''list_groups''])]] (map split_args [''list_groups''])"
    using demo_post by (simp add: s del: split_args.simps)
  have e: "\<forall>l \<in> set [''list_groups'']. split_args l \<noteq> [] \<and> split_args l ! 0 \<noteq> ''exit''" by (simp add: s del: split_args.simps)
  show ?thesis using dashboard_matches_prompt [OF p e r, of "''page''" "''7000''"] by simp
qed

section \<open>The peer server\<close>

text \<open>
  C36: The peer server hands out pieces of registered files only: a request, however malformed, is
  answered only if it asks for a piece of a file registered under the name it gives, and the answer is
  that piece of that file, not empty and at most one piece long. Nothing else on the disk influences it.
\<close>

theorem only_registered_pieces_are_served:
  assumes "serve_one reg fs request = Some payload"
  shows "\<exists>fname path content i. registry_path_for fname reg = Some path \<and> fs path = Some (Readable content) \<and>
    (\<exists>more ni. request = Some more \<and> take 3 (split_args more) = [''GET_PIECE'', fname, ni] \<and> parse_int ni = Some (int i)) \<and>
    i < piece_count (length content) \<and> payload = take kPieceSize (drop (i * kPieceSize) content) \<and>
    payload \<noteq> [] \<and> length payload \<le> kPieceSize"
proof -
  obtain req where r: "request = Some req" using assms by (cases request) (simp_all add: serve_one_def)
  obtain index path content where s: "3 \<le> length (split_args req)" "split_args req ! 0 = ''GET_PIECE''"
    "parse_int (split_args req ! 2) = Some index" "0 \<le> index" "registry_path_for (split_args req ! 1) reg = Some path"
    "fs path = Some (Readable content)" "payload = piece_at content (nat index)" "payload \<noteq> []"
    using assms unfolding r serve_one_answer by blast
  obtain a b d rest where a: "split_args req = a # b # d # rest"
    using s(1) by (cases "split_args req" rule: list.exhaust; cases "tl (split_args req)"; cases "tl (tl (split_args req))") auto
  have "nat index * kPieceSize < length content" using s(7,8) by (auto simp: piece_at_def not_less)
  then show ?thesis
    using s a r piece_count_iff [of "nat index" "length content"] by (intro exI [of _ b] exI [of _ path] exI [of _ content] exI [of _ "nat index"])
      (auto simp: piece_at_def eval_nat_numeral)
qed

theorem only_registered_pieces_are_served_witness:
  "\<exists>fname. registry_path_for fname [(''f'', ''/x/f'')] = Some ''/x/f''"
proof -
  have w: "is_word ''f''" by (simp add: is_word_def isspace_def)
  have "piece_at ''ab'' 0 = ''ab''" by (simp add: piece_at_def kPieceSize_def)
  then have "serve_one [(''f'', ''/x/f'')] [''/x/f'' \<mapsto> Readable ''ab''] (Some (''GET_PIECE '' @ ''f'' @ '' '' @ to_string 0)) = Some ''ab''"
    using serve_piece [OF w, of 0 "[(''f'', ''/x/f'')]" "''/x/f''" "[''/x/f'' \<mapsto> Readable ''ab'']" "''ab''"]
    by (simp add: INT_MAX_def registry_path_for_def)
  from only_registered_pieces_are_served [OF this] show ?thesis by (auto simp: registry_path_for_def)
qed

text \<open>
  C38: Stopping the peer server leaks no connection: however accepting, serving and stopping interleave,
  no connection is in two places, a worker serves one at a time, none that was accepted is ever lost, and
  once the workers have ended every accepted connection has been closed.
\<close>

theorem stopped_server_leaks_nothing:
  assumes "0 < n" "server_step\<^sup>*\<^sup>* (started n) s" "server_step\<^sup>*\<^sup>* s s'"
  shows "distinct (pending s @ serving s @ finished s) \<and> length (serving s) \<le> n \<and> accepted_fds s \<subseteq> accepted_fds s' \<and>
    (workers s' = 0 \<longrightarrow> accepted_fds s \<subseteq> set (finished s'))"
proof -
  have inv: "server_inv n s" by (rule server_inv_reachable [OF assms(2)])
  have r: "server_step\<^sup>*\<^sup>* (started n) s'" using assms(2,3) by (rule rtranclp_trans)
  have "accepted_fds s \<subseteq> accepted_fds s' \<and> server_inv n s'" using assms(3)
    by (induction rule: rtranclp_induct) (use inv accepted_fds_step server_inv_step in blast)+
  then show ?thesis using inv stopped_all_finished [OF assms(1) r] by (auto simp: server_inv_def)
qed

lemma demo_server_run:
  "server_step\<^sup>*\<^sup>* (started 1) \<lparr>accepting = True, workers = 1, pending = [7], serving = [], finished = [], stopping = False\<rparr>"
  "server_step\<^sup>*\<^sup>* \<lparr>accepting = True, workers = 1, pending = [7], serving = [], finished = [], stopping = False\<rparr>
     \<lparr>accepting = True, workers = 0, pending = [], serving = [], finished = [7], stopping = True\<rparr>"
proof -
  let ?s1 = "\<lparr>accepting = True, workers = 1, pending = [7], serving = [], finished = [], stopping = False\<rparr>"
  let ?s2 = "\<lparr>accepting = True, workers = 1, pending = [], serving = [7], finished = [], stopping = False\<rparr>"
  let ?s3 = "\<lparr>accepting = True, workers = 1, pending = [], serving = [7], finished = [], stopping = True\<rparr>"
  let ?s4 = "\<lparr>accepting = True, workers = 1, pending = [], serving = [], finished = [7], stopping = True\<rparr>"
  let ?s5 = "\<lparr>accepting = True, workers = 0, pending = [], serving = [], finished = [7], stopping = True\<rparr>"
  show "server_step\<^sup>*\<^sup>* (started 1) ?s1"
    using server_step.accept [of "started 1" "Some 7"] by (simp add: started_def accept_turn_def r_into_rtranclp)
  have "server_step ?s1 ?s2" using server_step.worker [of ?s1] by (simp add: worker_turn_def)
  moreover have "server_step ?s2 ?s3" using server_step.stop [of ?s2] by (simp add: stop_begin_def)
  moreover have "server_step ?s3 ?s4" using server_step.closed [of 7 ?s3] by (simp add: served_def)
  moreover have "server_step ?s4 ?s5" using server_step.worker [of ?s4] by (simp add: worker_turn_def)
  ultimately show "server_step\<^sup>*\<^sup>* ?s1 ?s5" by (meson rtranclp.rtrancl_into_rtrancl rtranclp.rtrancl_refl)
qed

theorem stopped_server_leaks_nothing_witness:
  "accepted_fds \<lparr>accepting = True, workers = 1, pending = [7], serving = [], finished = [], stopping = False\<rparr> \<subseteq> {7}"
  using stopped_server_leaks_nothing [OF _ demo_server_run] by simp

end
