(* ===== verification/Peer_Link.thy ===== *)
theory Peer_Link imports Tracker_Refinement Replication Tracker_Client
begin

text \<open>
  Models \<^verbatim>\<open>src/tracker/peer_link.cpp\<close>: the thread that keeps the other tracker up to date. A session
  dials the other tracker, merges its state, and then pushes the local state whenever the local version
  differs from the last version pushed. Clients, and pushes from the other side, change the local state
  between any two of its steps, so a session is a step relation over the shared state.
\<close>

section \<open>The operations of a session\<close>

definition dial :: "dialer \<Rightarrow> endpoint \<Rightarrow> bool" where
  "dial os ep \<longleftrightarrow> os_socket os \<and>
     (case parse_int (ep_port ep) of None \<Rightarrow> False
      | Some port \<Rightarrow> 0 < port \<and> port \<le> 65535 \<and> os_inet_pton os (ep_ip ep) \<and> os_connect os (ep_ip ep) port)"

record peer_link =
  linked :: bool
  last_pushed_version :: "64 word"

text \<open>The catch-up: \<open>theirs\<close> is what came back for \<open>SYNC_REQ\<close>, if anything did.\<close>

definition sync_message :: string where "sync_message = ''SYNC_REQ''"

definition catch_up ::
  "dialer \<Rightarrow> endpoint \<Rightarrow> string option \<Rightarrow> tracker_state \<Rightarrow> peer_link \<Rightarrow> tracker_state \<times> peer_link \<times> bool" where
  "catch_up os ep theirs st lk =
     (if \<not> dial os ep then (st, lk\<lparr>linked := False\<rparr>, False)
      else (case theirs of None \<Rightarrow> (st, lk\<lparr>linked := False\<rparr>, False)
        | Some data \<Rightarrow> (fst (merge_from data st), \<lparr>linked = True, last_pushed_version = 0\<rparr>, True)))"

text \<open>One round of the push loop: the version it would push, the message, and the effect of the answer.\<close>

definition due :: "tracker_state \<Rightarrow> peer_link \<Rightarrow> 64 word option" where
  "due st lk = (if st_version st \<noteq> last_pushed_version lk then Some (st_version st) else None)"

definition push_message :: "tracker_state \<Rightarrow> string" where
  "push_message st = ''STATE '' @ serialize st"

definition after_push :: "64 word \<Rightarrow> bool \<Rightarrow> peer_link \<Rightarrow> peer_link" where
  "after_push v acked lk = (if acked then lk\<lparr>last_pushed_version := v\<rparr> else lk\<lparr>linked := False\<rparr>)"

section \<open>A session next to the tracker's other threads\<close>

text \<open>
  \<open>round\<close> is the version read in the current round; \<open>sent\<close> is the state whose text was last delivered,
  and \<open>delivered\<close> tells that this round's text went out. \<open>changes\<close> counts the advances of the version
  since the session began: it is not in the program.
\<close>

record session =
  se_state :: tracker_state
  se_link :: peer_link
  se_round :: "64 word option"
  se_delivered :: bool
  se_sent :: "tracker_state option"
  se_changes :: nat

definition changed_to :: "tracker_state \<Rightarrow> session \<Rightarrow> session" where
  "changed_to st s = s\<lparr>se_state := st,
     se_changes := se_changes s + (if st_version st = st_version (se_state s) then 0 else 1)\<rparr>"

inductive session_step :: "session \<Rightarrow> session \<Rightarrow> bool" where
  client_op: "session_step s (changed_to (fst (run_op ssl rand op (se_state s))) s)"
| other_push: "replica_ok other \<Longrightarrow> session_step s (changed_to (fst (merge_from (serialize other) (se_state s))) s)"
| begin_round: "se_round s = None \<Longrightarrow> due (se_state s) (se_link s) = Some v \<Longrightarrow>
    session_step s (s\<lparr>se_round := Some v, se_delivered := False\<rparr>)"
| deliver: "se_round s = Some v \<Longrightarrow> \<not> se_delivered s \<Longrightarrow>
    session_step s (s\<lparr>se_sent := Some (se_state s), se_delivered := True\<rparr>)"
| ack: "se_round s = Some v \<Longrightarrow> se_delivered s \<Longrightarrow>
    session_step s (s\<lparr>se_link := after_push v True (se_link s), se_round := None\<rparr>)"

inductive_cases session_stepE: "session_step s s'"

definition opened :: "tracker_state \<Rightarrow> session" where
  "opened st = \<lparr>se_state = st, se_link = \<lparr>linked = True, last_pushed_version = 0\<rparr>, se_round = None,
     se_delivered = False, se_sent = None, se_changes = 0\<rparr>"

section \<open>An unchanged version means unchanged facts\<close>

lemma facts_disconnect: "facts (handle_disconnect u st) = facts st"
  using implements_disconnect [of u st] by (auto simp: implements_def elim: policy_step.cases)

lemma version_run_op:
  "st_version (fst (run_op ssl rand op st)) = st_version st \<Longrightarrow>
   shared_facts (fst (run_op ssl rand op st)) = shared_facts st"
proof (cases "\<exists>u. op = Disconnect u")
  case True
  then show ?thesis using facts_disconnect by (auto simp: shared_facts_def facts_def set_eq_iff)
next
  case False
  assume "st_version (fst (run_op ssl rand op st)) = st_version st"
  then have "\<not> res_ok (snd (run_op ssl rand op st))"
    using False accepted_bumps [of op ssl rand st] by (auto dest: sym)
  then show ?thesis by (simp add: rejected_unchanged)
qed

lemma version_merge:
  "replica_ok other \<Longrightarrow> st_version (fst (merge_from (serialize other) st)) = st_version st \<Longrightarrow>
   shared_facts (fst (merge_from (serialize other) st)) = shared_facts st"
  using merge_serialized [of other st] by (auto split: if_splits)

text \<open>Every other change moves the version to the next one.\<close>

lemma version_next:
  "st_version (fst (run_op ssl rand op st)) \<noteq> st_version st \<Longrightarrow>
   st_version (fst (run_op ssl rand op st)) = st_version st + 1"
proof (cases "\<exists>u. op = Disconnect u")
  case True
  then obtain u where "op = Disconnect u" by blast
  moreover assume "st_version (fst (run_op ssl rand op st)) \<noteq> st_version st"
  ultimately show ?thesis by (auto simp: handle_disconnect_def put_defs split: option.splits if_splits)
next
  case False
  assume "st_version (fst (run_op ssl rand op st)) \<noteq> st_version st"
  then have "res_ok (snd (run_op ssl rand op st))" using rejected_unchanged [of ssl rand op st] by metis
  then show ?thesis using False accepted_bumps [of op ssl rand st] by blast
qed

lemma version_merge_next:
  "replica_ok other \<Longrightarrow> st_version (fst (merge_from (serialize other) st)) \<noteq> st_version st \<Longrightarrow>
   st_version (fst (merge_from (serialize other) st)) = st_version st + 1"
  using merge_serialized(3) [of other st] by (simp split: if_splits)

section \<open>What an idle session has pushed\<close>

text \<open>The state sent last is \<open>m\<close> changes old at most; at zero it has the facts of the state.\<close>

definition sent_since :: "nat \<Rightarrow> session \<Rightarrow> bool" where
  "sent_since k s \<longleftrightarrow> (\<exists>t m. se_sent s = Some t \<and> k \<le> m \<and> m \<le> se_changes s \<and>
     (m = se_changes s \<longrightarrow> shared_facts t = shared_facts (se_state s)))"

definition session_inv :: "64 word \<Rightarrow> session \<Rightarrow> bool" where
  "session_inv v0 s \<longleftrightarrow> st_version (se_state s) = v0 + of_nat (se_changes s) \<and>
     (\<forall>v. se_round s = Some v \<longrightarrow> (\<exists>k \<le> se_changes s. v = v0 + of_nat k \<and> (se_delivered s \<longrightarrow> sent_since k s))) \<and>
     (last_pushed_version (se_link s) = 0 \<or>
      (\<exists>k \<le> se_changes s. last_pushed_version (se_link s) = v0 + of_nat k \<and> sent_since k s))"

lemma session_inv_opened: "session_inv (st_version st) (opened st)"
  by (simp add: session_inv_def opened_def)

lemma sent_since_changed:
  assumes "sent_since k s" "st_version st = st_version (se_state s) \<Longrightarrow> shared_facts st = shared_facts (se_state s)"
  shows "sent_since k (changed_to st s)"
proof -
  obtain t m where t: "se_sent s = Some t" "k \<le> m" "m \<le> se_changes s"
      "m = se_changes s \<longrightarrow> shared_facts t = shared_facts (se_state s)"
    using assms(1) by (auto simp: sent_since_def)
  then have "m = se_changes (changed_to st s) \<longrightarrow> shared_facts t = shared_facts st"
    using assms(2) by (auto simp: changed_to_def)
  then show ?thesis using t unfolding sent_since_def
    by (intro exI [of _ t] exI [of _ m]) (simp add: changed_to_def)
qed

lemma session_inv_changed:
  assumes "session_inv v0 s"
    and "st_version st = st_version (se_state s) \<Longrightarrow> shared_facts st = shared_facts (se_state s)"
    and "st_version st \<noteq> st_version (se_state s) \<Longrightarrow> st_version st = st_version (se_state s) + 1"
  shows "session_inv v0 (changed_to st s)"
proof -
  note since = sent_since_changed [of _ s st, OF _ assms(2)]
  have mono: "se_changes s \<le> se_changes (changed_to st s)" by (simp add: changed_to_def)
  have "st_version st = v0 + of_nat (se_changes (changed_to st s))"
    using assms(1,3) by (cases "st_version st = st_version (se_state s)") (simp_all add: session_inv_def changed_to_def)
  moreover have "\<exists>k \<le> se_changes (changed_to st s). v = v0 + of_nat k \<and> (se_delivered s \<longrightarrow> sent_since k (changed_to st s))"
    if "se_round s = Some v" for v
    using assms(1) that mono since unfolding session_inv_def by (meson le_trans)
  moreover have "last_pushed_version (se_link s) = 0 \<or>
      (\<exists>k \<le> se_changes (changed_to st s). last_pushed_version (se_link s) = v0 + of_nat k \<and> sent_since k (changed_to st s))"
    using assms(1) mono since unfolding session_inv_def by (meson le_trans)
  ultimately show ?thesis by (simp add: session_inv_def) (simp add: changed_to_def)
qed

lemma sent_since_cong:
  "se_sent s' = se_sent s \<Longrightarrow> se_changes s' = se_changes s \<Longrightarrow> se_state s' = se_state s \<Longrightarrow> sent_since k s' = sent_since k s"
  by (simp add: sent_since_def)

lemma session_inv_step:
  assumes "session_inv v0 s" "session_step s s'"
  shows "session_inv v0 s'"
  using assms(2)
proof (cases rule: session_step.cases)
  case (client_op ssl rand op)
  then show ?thesis using session_inv_changed [OF assms(1)] version_run_op version_next by blast
next
  case (other_push other)
  then show ?thesis using session_inv_changed [OF assms(1)] version_merge version_merge_next by blast
next
  case (begin_round v)
  have "sent_since k s' = sent_since k s" for k using begin_round by (simp add: sent_since_def)
  moreover have "v = st_version (se_state s)" using begin_round by (simp add: due_def split: if_splits)
  ultimately show ?thesis using assms(1) begin_round by (auto simp: session_inv_def)
next
  case (deliver v)
  have "sent_since k s'" if "k \<le> se_changes s" for k using deliver that by (auto simp: sent_since_def)
  then show ?thesis using assms(1) deliver by (auto simp: session_inv_def)
next
  case (ack v)
  have "sent_since k s' = sent_since k s" for k using ack by (simp add: sent_since_def)
  then show ?thesis using assms(1) ack by (auto simp: session_inv_def after_push_def)
qed

lemma session_inv_reachable: "session_step\<^sup>*\<^sup>* (opened st) s \<Longrightarrow> session_inv (st_version st) s"
  by (induction rule: rtranclp_induct) (auto intro: session_inv_opened session_inv_step)

section \<open>The loop over sessions\<close>

text \<open>
  \<open>loop\<close>: sessions follow one another for as long as the tracker runs. A session goes on while it is
  linked; a failed send or receive ends it in the middle of whatever it did; while there is no session
  the state changes under the other threads only; a new one begins with the catch-up over what the other
  tracker sent, which need not be well-formed.
\<close>

definition unlinked :: "tracker_state \<Rightarrow> session" where
  "unlinked st = (opened st)\<lparr>se_link := \<lparr>linked = False, last_pushed_version = 0\<rparr>\<rparr>"

inductive loop_step :: "session \<Rightarrow> session \<Rightarrow> bool" where
  in_session: "linked (se_link s) \<Longrightarrow> session_step s s' \<Longrightarrow> loop_step s s'"
| lost: "linked (se_link s) \<Longrightarrow> loop_step s (s\<lparr>se_link := after_push v False (se_link s), se_round := None\<rparr>)"
| client_alone: "\<not> linked (se_link s) \<Longrightarrow> loop_step s (changed_to (fst (run_op ssl rand op (se_state s))) s)"
| pushed_alone: "\<not> linked (se_link s) \<Longrightarrow> loop_step s (changed_to (fst (merge_from data (se_state s))) s)"
| reconnect: "\<not> linked (se_link s) \<Longrightarrow> catch_up os ep theirs (se_state s) (se_link s) = (st, lk, True) \<Longrightarrow>
    loop_step s ((opened st)\<lparr>se_link := lk\<rparr>)"

text \<open>
  The thread of the link: \<open>start\<close> and \<open>stop\<close> (which then joins it), and where the two loops look at \<open>running_\<close>.
  \<open>fine\<close> is what the session's dialling and catch-up, or its next push, come to. After a session that ends, and
  after one that could not be opened, the thread pauses in twenty slices.
\<close>

datatype link_position = Between | Pausing nat | In_session | Returned

record link_thread =
  lt_running :: bool
  lt_position :: link_position

definition link_start :: link_thread where
  "link_start = \<lparr>lt_running = True, lt_position = Between\<rparr>"

definition link_stop :: "link_thread \<Rightarrow> link_thread" where
  "link_stop lt = lt\<lparr>lt_running := False\<rparr>"

definition link_turn :: "bool \<Rightarrow> link_thread \<Rightarrow> link_thread" where
  "link_turn fine lt = lt\<lparr>lt_position :=
     (case lt_position lt of
        Between \<Rightarrow> if \<not> lt_running lt then Returned else if fine then In_session else Pausing 20
      | Pausing k \<Rightarrow> if k = 0 \<or> \<not> lt_running lt then Between else Pausing (k - 1)
      | In_session \<Rightarrow> if lt_running lt \<and> fine then In_session else Pausing 20
      | Returned \<Rightarrow> Returned)\<rparr>"

text \<open>A stopped thread can be joined after three turns at most, wherever it was and whatever the peer does.\<close>

lemma stopped_link_returns:
  "lt_position (link_turn c (link_turn b (link_turn a (link_stop lt)))) = Returned"
  by (cases "lt_position lt") (simp_all add: link_turn_def link_stop_def)

text \<open>A running one never returns, and it pauses twenty slices before it dials again.\<close>

lemma running_link_goes_on: "lt_running lt \<Longrightarrow> lt_position lt \<noteq> Returned \<Longrightarrow> lt_position (link_turn a lt) \<noteq> Returned"
  by (cases "lt_position lt") (simp_all add: link_turn_def)

lemma link_pauses: "lt_running lt \<Longrightarrow> lt_position lt = Pausing k \<Longrightarrow> lt_position ((link_turn a ^^ Suc k) lt) = Between"
proof (induction k arbitrary: lt)
  case (Suc k)
  have "lt_position (link_turn a lt) = Pausing k" "lt_running (link_turn a lt)" using Suc.prems by (simp_all add: link_turn_def)
  from Suc.IH [OF this(2,1)] show ?case by (simp only: funpow_Suc_right o_apply)
qed (simp add: link_turn_def)

text \<open>Whenever the link is up, its session began with a catch-up and has been running since.\<close>

lemma linked_session:
  assumes "loop_step\<^sup>*\<^sup>* (unlinked st) s" "linked (se_link s)"
  shows "\<exists>st'. session_step\<^sup>*\<^sup>* (opened st') s"
  using assms
proof (induction rule: rtranclp_induct)
  case base
  then show ?case by (simp add: unlinked_def)
next
  case (step s s')
  from step.hyps(2) show ?case
  proof cases
    case in_session
    then show ?thesis using step.IH by (blast intro: rtranclp.rtrancl_into_rtrancl)
  next
    case (reconnect os ep theirs st lk)
    then have "s' = opened st"
      by (auto simp: catch_up_def opened_def split: if_splits option.splits)
    then show ?thesis by blast
  qed (use step.prems in \<open>simp_all add: after_push_def changed_to_def\<close>)
qed

lemma of_nat_word_inj: "(of_nat k :: 64 word) = of_nat n \<Longrightarrow> k < 2 ^ 64 \<Longrightarrow> n < 2 ^ 64 \<Longrightarrow> k = n"
proof -
  assume "(of_nat k :: 64 word) = of_nat n" "k < 2 ^ 64" "n < 2 ^ 64"
  then have "unat (of_nat k :: 64 word) = unat (of_nat n :: 64 word)" by simp
  with \<open>k < 2 ^ 64\<close> \<open>n < 2 ^ 64\<close> show ?thesis by (simp add: unat_of_nat)
qed

text \<open>An idle, linked loop has sent the facts of its present state.\<close>

lemma idle_has_sent:
  assumes "loop_step\<^sup>*\<^sup>* (unlinked st) s" "linked (se_link s)" "se_changes s < 2 ^ 64"
    and "se_round s = None" "due (se_state s) (se_link s) = None" "st_version (se_state s) \<noteq> 0"
  shows "\<exists>t. se_sent s = Some t \<and> shared_facts t = shared_facts (se_state s)"
proof -
  obtain st' where "session_step\<^sup>*\<^sup>* (opened st') s" using linked_session [OF assms(1,2)] by blast
  then have inv: "session_inv (st_version st') s" by (rule session_inv_reachable)
  have "last_pushed_version (se_link s) = st_version (se_state s)" using assms(5) by (simp add: due_def split: if_splits)
  then obtain k where k: "k \<le> se_changes s" "(of_nat k :: 64 word) = of_nat (se_changes s)" "sent_since k s"
    using inv assms(6) by (auto simp: session_inv_def)
  then have "k = se_changes s" using assms(3) by (intro of_nat_word_inj) simp_all
  then show ?thesis using k(3) by (auto simp: sent_since_def)
qed

end
