(* ===== verification/Tracker_Main.thy ===== *)
theory Tracker_Main imports Dispatch Peer_Link Config Socket_IO
begin

text \<open>
  Models the rest of \<^verbatim>\<open>src/tracker/main.cpp\<close>: \<open>main\<close> from its arguments to its accept loop (which entry
  of the tracker list is its own, the listening socket, the tracker it replicates with, the snapshot it
  restores) and the places that save the state.
\<close>

section \<open>Starting\<close>

record tracker_boot =
  tb_port :: int
  tb_snapshot :: string
  tb_peer :: "endpoint option"
  tb_state :: tracker_state
  tb_restored :: bool

datatype tracker_start =
    Bad_arguments
  | Bad_number
  | No_entries
  | Not_listed
  | Not_listening
  | Serving tracker_boot

definition snapshot_path :: "int \<Rightarrow> string" where
  "snapshot_path tracker_no = ''tracker_state_'' @ to_string tracker_no @ ''.db''"

text \<open>The loop that looks for the tracker to replicate with: the first entry that is not this one.\<close>

definition other_tracker :: "nat \<Rightarrow> endpoint list \<Rightarrow> endpoint option" where
  "other_tracker own endpoints =
     (case filter (\<lambda>i. i \<noteq> own) [0..<length endpoints] of [] \<Rightarrow> None | i # _ \<Rightarrow> Some (endpoints ! i))"

text \<open>The port number stays 0 when the text is not a number; \<open>htons\<close> keeps 16 bits.\<close>

definition tracker_port :: "string \<Rightarrow> int" where
  "tracker_port text = uint (word_of_int (case parse_int text of None \<Rightarrow> 0 | Some p \<Rightarrow> p) :: 16 word)"

text \<open>
  \<open>main\<close> without its program name. The replication thread is started before the snapshot is loaded; \<open>st\<close>
  is the state it has produced by then (\<open>empty_state\<close> if nothing came yet).
\<close>

definition tracker_main :: "filesystem \<Rightarrow> listen_os \<Rightarrow> tracker_state \<Rightarrow> string list \<Rightarrow> tracker_start" where
  "tracker_main fs los st args =
     (if length args \<noteq> 2 then Bad_arguments
      else (case parse_int (args ! 1) of None \<Rightarrow> Bad_number
        | Some tracker_no \<Rightarrow>
            if tracker_no < 1 then Bad_number
            else
              let endpoints = load_endpoints fs (args ! 0); own = nat (tracker_no - 1) in
              if endpoints = [] then No_entries
              else if cast_int (length endpoints) < tracker_no then Not_listed
              else
                let port = tracker_port (ep_port (endpoints ! own)) in
                if \<not> ls_socket los \<or> \<not> ls_setsockopt los \<or> \<not> ls_bind los ''0.0.0.0'' port \<or> \<not> ls_listen los
                then Not_listening
                else (case load_snapshot fs (snapshot_path tracker_no) st of (st', ok) \<Rightarrow>
                  Serving \<lparr>tb_port = port, tb_snapshot = snapshot_path tracker_no,
                    tb_peer = other_tracker own endpoints, tb_state = st', tb_restored = ok\<rparr>)))"

section \<open>Saving\<close>

text \<open>
  The snapshot thread wakes up again and again: each entry is one wake-up, with \<open>g_running\<close>, the answers of
  the operating system, and the state at that time. It ends once the tracker no longer runs; a failed
  save is reported and the thread goes on. \<open>quit\<close> at the console and the end of \<open>main\<close> save once more.
\<close>

definition saved :: "save_io \<Rightarrow> string \<Rightarrow> tracker_state \<Rightarrow> filesystem \<Rightarrow> filesystem" where
  "saved io path st fs = last (fst (save_snapshot io path st fs))"

fun snapshot_thread :: "string \<Rightarrow> (bool \<times> save_io \<times> tracker_state) list \<Rightarrow> filesystem \<Rightarrow> filesystem" where
  "snapshot_thread path [] fs = fs"
| "snapshot_thread path ((running, io, st) # ws) fs =
     (if running then snapshot_thread path ws (saved io path st fs) else fs)"

fun console :: "string \<Rightarrow> save_io \<Rightarrow> tracker_state \<Rightarrow> string list \<Rightarrow> filesystem \<Rightarrow> filesystem" where
  "console path io st [] fs = fs"
| "console path io st (line # ls) fs = (if line = ''quit'' then saved io path st fs else console path io st ls fs)"

section \<open>Facts about a start\<close>

lemma cast_int_le: "cast_int n \<le> int n"
proof (cases "n < 2 ^ 31")
  case True
  then show ?thesis by (simp add: cast_int_small INT_MAX_def)
next
  case False
  have "cast_int n < 2 ^ 31" unfolding cast_int_def using sint_lt [of "of_nat n :: 32 word"] by simp
  then show ?thesis using False by simp
qed

lemma parse_int_range: "parse_int s = Some n \<Longrightarrow> INT_MIN \<le> n \<and> n \<le> INT_MAX"
  by (simp only: parse_int_parse_ll)

lemma snapshot_path_inj:
  assumes "parse_int a = Some n" "parse_int b = Some m" "snapshot_path n = snapshot_path m"
  shows "n = m"
proof -
  have "parse_int (to_string n) = Some n" "parse_int (to_string m) = Some m"
    by (rule parse_int_to_string; use parse_int_range [OF assms(1)] parse_int_range [OF assms(2)] in simp)+
  moreover have "to_string n = to_string m"
    using assms(3) unfolding snapshot_path_def by (simp only: append_same_eq same_append_eq)
  ultimately have "Some n = Some m" by (simp only:)
  then show ?thesis by (simp only: option.inject)
qed

lemma tracker_main_serving:
  assumes "tracker_main fs los st [cfg, number] = Serving b"
  obtains no where "parse_int number = Some no" "1 \<le> no" "no \<le> int (length (load_endpoints fs cfg))"
    "parse_int (ep_port (load_endpoints fs cfg ! nat (no - 1))) = Some (tb_port b)"
    "tb_snapshot b = snapshot_path no" "tb_peer b = other_tracker (nat (no - 1)) (load_endpoints fs cfg)"
    "load_snapshot fs (snapshot_path no) st = (tb_state b, tb_restored b)"
proof -
  let ?es = "load_endpoints fs cfg"
  obtain no where no: "parse_int number = Some no" "1 \<le> no" "no \<le> int (length ?es)"
    using assms cast_int_le [of "length ?es"] by (auto simp: tracker_main_def Let_def split: option.splits if_splits)
  then have "?es ! nat (no - 1) \<in> set ?es" by simp
  then have "valid_port (ep_port (?es ! nat (no - 1)))" using load_endpoints_valid by blast
  then obtain p where p: "parse_int (ep_port (?es ! nat (no - 1))) = Some p" "0 < p" "p \<le> 65535"
    by (auto simp: valid_port_def split: option.splits)
  then have "tracker_port (ep_port (?es ! nat (no - 1))) = p" by (simp add: tracker_port_def uint_word_of_int)
  then show thesis using assms no p(1)
    by (intro that [of no]) (auto simp: tracker_main_def Let_def split: option.splits if_splits prod.splits)
qed

lemma other_tracker_found:
  assumes "i < length es" "i \<noteq> own"
  shows "\<exists>j. j < length es \<and> j \<noteq> own \<and> other_tracker own es = Some (es ! j)"
proof -
  have "i \<in> set (filter (\<lambda>k. k \<noteq> own) [0..<length es])" using assms by simp
  then obtain k ks where k: "filter (\<lambda>k. k \<noteq> own) [0..<length es] = k # ks" by (cases "filter (\<lambda>k. k \<noteq> own) [0..<length es]") auto
  then have "k \<in> set (filter (\<lambda>k. k \<noteq> own) [0..<length es])" by (simp only: list.set_intros)
  then have "k < length es \<and> k \<noteq> own" by simp
  then show ?thesis by (intro exI [of _ k]) (simp add: other_tracker_def k)
qed

lemma other_tracker_pair:
  assumes "length es = 2" "own < length es" "i < length es" "i \<noteq> own"
  shows "other_tracker own es = Some (es ! i)"
proof -
  obtain j where "j < length es" "j \<noteq> own" "other_tracker own es = Some (es ! j)"
    using other_tracker_found [OF assms(3,4)] by blast
  moreover from this have "j = i" using assms by linarith
  ultimately show ?thesis by simp
qed

text \<open>The snapshot thread, the console and the end of \<open>main\<close> only ever leave one of the saved states.\<close>

lemma snapshot_thread_append:
  "\<forall>w \<in> set ws. fst w \<Longrightarrow> snapshot_thread path (ws @ vs) fs = snapshot_thread path vs (snapshot_thread path ws fs)"
  by (induction ws arbitrary: fs) auto

end
