(* ===== verification/Startup_Guarantees.thy ===== *)
theory Startup_Guarantees imports Tracker_Main Replication_Guarantees
begin

text \<open>
  What the start of a tracker guarantees: two trackers given the same list find each other, and a tracker
  that is started again has the state that was saved.
\<close>

text \<open>
  C13: Trackers started from one list with different numbers pair up: each listens on the valid port of its
  own entry, no two write the same snapshot file, each replicates with another entry than its own when
  there is one, and with two entries each dials exactly the port the other listens on.
\<close>

theorem trackers_pair_up:
  assumes "tracker_main fs los st [cfg, number] = Serving b" "tracker_main fs los' st' [cfg, number'] = Serving b'"
    and "parse_int number \<noteq> parse_int number'" "es = load_endpoints fs cfg"
  shows "tb_snapshot b \<noteq> tb_snapshot b' \<and> 0 < tb_port b \<and> tb_port b \<le> 65535 \<and>
    (\<exists>i j. i < length es \<and> parse_int (ep_port (es ! i)) = Some (tb_port b) \<and> j < length es \<and> j \<noteq> i \<and> tb_peer b = Some (es ! j)) \<and>
    (length es = 2 \<longrightarrow> (\<exists>e e'. tb_peer b = Some e' \<and> parse_int (ep_port e') = Some (tb_port b') \<and>
       tb_peer b' = Some e \<and> parse_int (ep_port e) = Some (tb_port b)))"
proof -
  obtain no where no: "parse_int number = Some no" "1 \<le> no" "no \<le> int (length es)"
      "parse_int (ep_port (es ! nat (no - 1))) = Some (tb_port b)" "tb_snapshot b = snapshot_path no"
      "tb_peer b = other_tracker (nat (no - 1)) es"
    using tracker_main_serving [OF assms(1)] assms(4) by metis
  obtain no' where no': "parse_int number' = Some no'" "1 \<le> no'" "no' \<le> int (length es)"
      "parse_int (ep_port (es ! nat (no' - 1))) = Some (tb_port b')" "tb_snapshot b' = snapshot_path no'"
      "tb_peer b' = other_tracker (nat (no' - 1)) es"
    using tracker_main_serving [OF assms(2)] assms(4) by metis
  let ?i = "nat (no - 1)" and ?i' = "nat (no' - 1)"
  have i: "?i < length es" "?i' < length es" "?i' \<noteq> ?i" using no(1-3) no'(1-3) assms(3) by auto
  have "tb_snapshot b \<noteq> tb_snapshot b'" using snapshot_path_inj [OF no(1) no'(1)] no(1,5) no'(1,5) assms(3) by auto
  moreover have "valid_port (ep_port (es ! ?i))" using load_endpoints_valid i(1) assms(4) nth_mem by blast
  then have "0 < tb_port b \<and> tb_port b \<le> 65535" using no(4) by (simp add: valid_port_def)
  moreover obtain j where "j < length es" "j \<noteq> ?i" "tb_peer b = Some (es ! j)"
    using other_tracker_found [OF i(2,3)] no(6) by auto
  moreover have "length es = 2 \<Longrightarrow> tb_peer b = Some (es ! ?i') \<and> tb_peer b' = Some (es ! ?i)"
    using other_tracker_pair [OF _ i] other_tracker_pair [OF _ i(2,1) i(3) [symmetric]] no(6) no'(6) by simp
  ultimately show ?thesis using i(1) no(4) no'(4) by blast
qed

definition pair_config :: filesystem where
  "pair_config = [''t'' \<mapsto> Readable (unlines [''10.0.0.8 5000'', ''10.0.0.9 5001''])]"

definition all_well :: listen_os where
  "all_well = \<lparr>ls_socket = True, ls_setsockopt = True, ls_inet_pton = (\<lambda>ip. True), ls_bind = (\<lambda>ip p. True), ls_listen = True\<rparr>"

lemma pair_endpoints:
  "load_endpoints pair_config ''t'' = [\<lparr>ep_ip = ''10.0.0.8'', ep_port = ''5000''\<rparr>, \<lparr>ep_ip = ''10.0.0.9'', ep_port = ''5001''\<rparr>]"
proof -
  have "parse_int ''5000'' = Some 5000" "parse_int ''5001'' = Some 5001" by code_simp+
  then have "valid_port ''5000''" "valid_port ''5001''" by (simp_all add: valid_port_def)
  then show ?thesis
    by (intro load_endpoints_lines) (auto simp: is_word_def isspace_def pair_config_def)
qed

lemma pair_boot:
  assumes "number = ''1'' \<and> no = 0 \<or> number = ''2'' \<and> no = Suc 0"
  shows "\<exists>b. tracker_main pair_config all_well empty_state [''t'', number] = Serving b"
proof -
  have "parse_int ''1'' = Some 1" "parse_int ''2'' = Some 2" by code_simp+
  moreover have "cast_int 2 = 2" using cast_int_small [of 2] by (simp add: INT_MAX_def)
  ultimately show ?thesis using assms
    by (auto simp: tracker_main_def pair_endpoints all_well_def Let_def eval_nat_numeral split: prod.split)
qed

theorem trackers_pair_up_witness:
  "\<exists>b b'. tracker_main pair_config all_well empty_state [''t'', ''1''] = Serving b \<and>
     tracker_main pair_config all_well empty_state [''t'', ''2''] = Serving b' \<and> tb_snapshot b \<noteq> tb_snapshot b'"
proof -
  obtain b b' where b: "tracker_main pair_config all_well empty_state [''t'', ''1''] = Serving b"
      "tracker_main pair_config all_well empty_state [''t'', ''2''] = Serving b'"
    using pair_boot [of "''1''"] pair_boot [of "''2''"] by blast
  have "parse_int ''1'' \<noteq> parse_int ''2''" by code_simp
  from trackers_pair_up [OF b this refl] b show ?thesis by blast
qed

text \<open>
  C10: A tracker that is started again has exactly the state of its last successful save, with everybody
  offline: accounts, groups, files and listings of any state it can reach, from whichever snapshot it ran.
  What its replication thread merged before the snapshot was loaded is lost, only the version it reached stays.
\<close>

theorem restarted_tracker_has_the_saved_state:
  assumes "st = sv_state (wd_server (fold (world_step ssl) events (booted fs0 (snapshot_path no))))"
    and "sizes_ok st" "no_dash_owner st" "parse_int number = Some no"
    and "save_snapshot io (snapshot_path no) st fs = (trace, True)"
    and "tracker_main (last trace) los synced [cfg, number] = Serving b"
  shows "tb_restored b \<and> tb_state b = (offline st)\<lparr>st_version := st_version synced\<rparr>"
proof -
  have "stored_ok st" using assms(1) reachable_stored_ok by simp
  then have "load_snapshot (last trace) (snapshot_path no) synced = ((offline st)\<lparr>st_version := st_version synced\<rparr>, True)"
    using load_saved [OF stored_ok_wire_ok assms(2) stored_ok_restorable [OF _ assms(3)]] save_trace(2) [OF assms(5)] by blast
  then show ?thesis using tracker_main_serving [OF assms(6)] assms(4) by fastforce
qed

theorem restarted_tracker_has_the_saved_state_witness:
  "\<exists>b. tracker_main (saved \<lparr>open_ok = True, write_error = None, rename_ok = True\<rparr> (snapshot_path 1)
        (fst (create_user demo_ssl demo_rand ''alice'' ''pw'' empty_state)) pair_config) all_well empty_state [''t'', ''1''] = Serving b \<and>
     user_exists_locked (tb_state b) ''alice''"
proof -
  let ?st = "fst (create_user demo_ssl demo_rand ''alice'' ''pw'' empty_state)"
  let ?io = "\<lparr>open_ok = True, write_error = None, rename_ok = True\<rparr>"
  let ?tr = "fst (save_snapshot ?io (snapshot_path 1) ?st pair_config)"
  have ok: "sizes_ok ?st" "no_dash_owner ?st"
    by (simp_all add: create_user_def Let_def lookup_defs empty_state_def put_defs sizes_ok_def records_of_def
        user_item_def no_dash_owner_def)
  have save: "save_snapshot ?io (snapshot_path 1) ?st pair_config = (?tr, True)"
    by (simp add: save_snapshot_def Let_def)
  have same: "last ?tr ''t'' = pair_config ''t''"
    by (simp add: save_snapshot_def Let_def snapshot_path_def)
  have p: "parse_int ''1'' = Some 1" by code_simp
  have eq: "load_endpoints (last ?tr) ''t'' = load_endpoints pair_config ''t''" by (simp only: load_endpoints_def same)
  moreover have "cast_int 2 = 2" using cast_int_small [of 2] by (simp add: INT_MAX_def)
  ultimately have "\<exists>b. tracker_main (last ?tr) all_well empty_state [''t'', ''1''] = Serving b"
    using p by (simp add: tracker_main_def pair_endpoints all_well_def Let_def eval_nat_numeral split: prod.split)
  then obtain b where b: "tracker_main (last ?tr) all_well empty_state [''t'', ''1''] = Serving b" by blast
  have st: "?st = sv_state (wd_server (fold (world_step demo_ssl) demo_events (booted (\<lambda>p. None) (snapshot_path 1))))"
    by (simp add: demo_events_boot)
  have "user_exists_locked ?st ''alice''"
    by (simp add: create_user_def lookup_defs empty_state_def Let_def hash_password_def random_hex_def demo_rand_def
        kSaltBytes_def sha256_hex_def digest_hex_def demo_ssl_def)
  then have "user_exists_locked (tb_state b) ''alice''"
    using restarted_tracker_has_the_saved_state [OF st ok p save b] by (simp add: offline_def lookup_defs map_of_map)
  then show ?thesis using b by (auto simp: saved_def)
qed

end
