(* ===== verification/Two_Trackers.thy ===== *)
theory Two_Trackers imports Peer_Link Examples
begin

text \<open>
  The two trackers of a deployment together. Each runs the loop of theory Peer_Link towards the other, so
  that what one of them sends is the text of its own state at that moment and what the other merges is
  that text, later. Clients of both, sends, merges, answers, broken links and new sessions interleave in
  any order. The pair begins when both have loaded their snapshots; a restart, and a \<open>STATE\<close> that comes from
  neither of the two, are outside it.
\<close>

section \<open>The pair\<close>

text \<open>
  The sides are named by truth values. \<open>taken i\<close> tells whether the other side has merged what \<open>i\<close> sent in
  its current round; \<open>stale i\<close> holds what it sent over connections that broke before that (a message may
  still be read from such a connection, or never); \<open>pulled i\<close> is the state behind the answer to the
  \<open>SYNC_REQ\<close> of a session that is being opened.
\<close>

record tracker_pair =
  side :: "bool \<Rightarrow> session"
  taken :: "bool \<Rightarrow> bool"
  stale :: "bool \<Rightarrow> tracker_state list"
  pulled :: "bool \<Rightarrow> tracker_state option"

definition put_side :: "bool \<Rightarrow> session \<Rightarrow> tracker_pair \<Rightarrow> tracker_pair" where
  "put_side i s p = p\<lparr>side := (side p)(i := s)\<rparr>"

definition merged_into :: "tracker_state \<Rightarrow> session \<Rightarrow> session" where
  "merged_into t s = changed_to (fst (merge_from (serialize t) (se_state s))) s"

definition undelivered :: "bool \<Rightarrow> tracker_pair \<Rightarrow> tracker_state list" where
  "undelivered i p =
     (case (se_round (side p i), se_sent (side p i)) of
        (Some v, Some t) \<Rightarrow> if se_delivered (side p i) \<and> \<not> taken p i then [t] else []
      | _ \<Rightarrow> [])"

text \<open>
  The steps, for the operations \<open>ok\<close> lets clients do. A side that sends a state sends one that can be read
  back (\<open>replica_ok\<close>: lists of representable length, no owner called \<open>-\<close>, words where words are due).
\<close>

inductive pair_step :: "(tracker_op \<Rightarrow> bool) \<Rightarrow> tracker_pair \<Rightarrow> tracker_pair \<Rightarrow> bool" for ok where
  client: "ok op \<Longrightarrow> s = side p i \<Longrightarrow>
    pair_step ok p (put_side i (changed_to (fst (run_op ssl rand op (se_state s))) s) p)"
| begin_push: "s = side p i \<Longrightarrow> linked (se_link s) \<Longrightarrow> se_round s = None \<Longrightarrow> due (se_state s) (se_link s) = Some v \<Longrightarrow>
    pair_step ok p (put_side i (s\<lparr>se_round := Some v, se_delivered := False\<rparr>) p)"
| send: "s = side p i \<Longrightarrow> linked (se_link s) \<Longrightarrow> se_round s = Some v \<Longrightarrow> \<not> se_delivered s \<Longrightarrow>
    pair_step ok p ((put_side i (s\<lparr>se_sent := Some (se_state s), se_delivered := True\<rparr>) p)\<lparr>taken := (taken p)(i := False)\<rparr>)"
| receive: "s = side p i \<Longrightarrow> se_round s = Some v \<Longrightarrow> se_delivered s \<Longrightarrow> \<not> taken p i \<Longrightarrow> se_sent s = Some t \<Longrightarrow> replica_ok t \<Longrightarrow>
    pair_step ok p ((put_side (\<not> i) (merged_into t (side p (\<not> i))) p)\<lparr>taken := (taken p)(i := True)\<rparr>)"
| answer: "s = side p i \<Longrightarrow> linked (se_link s) \<Longrightarrow> se_round s = Some v \<Longrightarrow> se_delivered s \<Longrightarrow> taken p i \<Longrightarrow>
    pair_step ok p (put_side i (s\<lparr>se_link := after_push v True (se_link s), se_round := None\<rparr>) p)"
| broken: "s = side p i \<Longrightarrow> linked (se_link s) \<Longrightarrow>
    pair_step ok p ((put_side i (s\<lparr>se_link := after_push v False (se_link s), se_round := None\<rparr>) p)
      \<lparr>stale := (stale p)(i := undelivered i p @ stale p i)\<rparr>)"
| receive_late: "t \<in> set (stale p i) \<Longrightarrow> replica_ok t \<Longrightarrow>
    pair_step ok p ((put_side (\<not> i) (merged_into t (side p (\<not> i))) p)\<lparr>stale := (stale p)(i := remove1 t (stale p i))\<rparr>)"
| request: "\<not> linked (se_link (side p i)) \<Longrightarrow>
    pair_step ok p (p\<lparr>pulled := (pulled p)(i := Some (se_state (side p (\<not> i))))\<rparr>)"
| reconnected: "s = side p i \<Longrightarrow> \<not> linked (se_link s) \<Longrightarrow> pulled p i = Some t \<Longrightarrow> replica_ok t \<Longrightarrow>
    catch_up os ep (Some (serialize t)) (se_state s) (se_link s) = (st, lk, True) \<Longrightarrow>
    pair_step ok p ((put_side i ((opened st)\<lparr>se_link := lk\<rparr>) p)\<lparr>pulled := (pulled p)(i := None)\<rparr>)"

definition apart :: "(bool \<Rightarrow> tracker_state) \<Rightarrow> tracker_pair" where
  "apart st = \<lparr>side = (\<lambda>i. unlinked (st i)), taken = (\<lambda>i. False), stale = (\<lambda>i. []), pulled = (\<lambda>i. None)\<rparr>"

lemma put_side_simps [simp]:
  "side (put_side i s p) = (side p)(i := s)" "taken (put_side i s p) = taken p"
  "stale (put_side i s p) = stale p" "pulled (put_side i s p) = pulled p"
  by (simp_all add: put_side_def)

section \<open>Each side runs its loop\<close>

lemma merged_into_loop: "replica_ok t \<Longrightarrow> loop_step s (merged_into t s)"
  unfolding merged_into_def
  by (cases "linked (se_link s)") (auto intro: loop_step.intros session_step.intros)

lemma client_loop: "loop_step s (changed_to (fst (run_op ssl rand op (se_state s))) s)"
  by (cases "linked (se_link s)") (auto intro: loop_step.intros session_step.intros)

lemma pair_step_side:
  assumes "pair_step ok p p'"
  shows "loop_step\<^sup>=\<^sup>= (side p j) (side p' j)"
  using assms
  by cases (auto simp: client_loop merged_into_loop intro: loop_step.intros session_step.intros)

lemma pair_side_loop:
  assumes "(pair_step ok)\<^sup>*\<^sup>* (apart st) p"
  shows "loop_step\<^sup>*\<^sup>* (unlinked (st j)) (side p j)"
  using assms
proof (induction rule: rtranclp_induct)
  case (step p p')
  then show ?case using pair_step_side [OF step.hyps(2), of j] by auto
qed (simp add: apart_def)

section \<open>What lasts\<close>

text \<open>
  The operations that take something back, and the facts no other operation removes: all shared facts but
  pending requests, which the owner's answer removes.
\<close>

fun takes_back :: "tracker_op \<Rightarrow> bool" where
  "takes_back (LeaveGroup g u) = True"
| "takes_back (StopShare g f u) = True"
| "takes_back op = False"

fun lasting :: "fact \<Rightarrow> bool" where
  "lasting (Owner g u) = False"
| "lasting (Applicant g u) = False"
| "lasting f = True"

definition lasting_facts :: "tracker_state \<Rightarrow> fact set" where
  "lasting_facts st = {f. lasting f \<and> holds st f}"

lemma in_lasting_facts [simp]: "f \<in> lasting_facts st \<longleftrightarrow> lasting f \<and> holds st f"
  by (simp add: lasting_facts_def)

lemma lasting_shared: "lasting f \<Longrightarrow> shared f"
  by (cases f) simp_all

lemma lasting_of_shared: "shared_facts a \<subseteq> shared_facts b \<Longrightarrow> lasting_facts a \<subseteq> lasting_facts b"
  using lasting_shared by (auto simp: subset_iff)

lemma lasting_bump [simp]: "lasting_facts (bump st) = lasting_facts st"
  using facts_bump [of st] by (auto simp: facts_def set_eq_iff)

lemma lasting_put_peer: "lasting_facts st \<subseteq> lasting_facts (put_peer n p st)"
proof
  fix f show "f \<in> lasting_facts st \<Longrightarrow> f \<in> lasting_facts (put_peer n p st)"
    by (cases f) (auto simp: group_has_file_locked_def)
qed

lemma lasting_put_group:
  assumes "\<And>g. map_of (st_groups st) gid = Some g \<Longrightarrow>
    set (participants g) \<subseteq> set (participants gr) \<and> (groupmaster g \<noteq> [] \<longrightarrow> groupmaster gr \<noteq> [])"
  shows "lasting_facts st \<subseteq> lasting_facts (put_group gid gr st)"
proof
  fix f show "f \<in> lasting_facts st \<Longrightarrow> f \<in> lasting_facts (put_group gid gr st)"
    using assms by (cases f) (auto simp: partofgroup_def group_has_file_locked_def split: option.splits)
qed

lemma lasting_put_known_group:
  assumes "map_of (st_groups st) gid = Some g" "set (participants g) \<subseteq> set (participants gr)"
    and "groupmaster g \<noteq> [] \<Longrightarrow> groupmaster gr \<noteq> []"
  shows "lasting_facts st \<subseteq> lasting_facts (put_group gid gr st)"
  using assms by (intro lasting_put_group) simp

lemma lasting_put_file:
  assumes "\<And>g. map_of (st_files st) k = Some g \<Longrightarrow> set (fm_peers g) \<subseteq> set (fm_peers fm)"
  shows "lasting_facts st \<subseteq> lasting_facts (put_file k fm st)"
proof
  fix f show "f \<in> lasting_facts st \<Longrightarrow> f \<in> lasting_facts (put_file k fm st)"
    using assms by (cases f) (auto simp: group_has_file_locked_def split: option.splits)
qed

lemma lasting_put_listing:
  assumes "set (index_or [] (st_group_files st) g) \<subseteq> set fs"
  shows "lasting_facts st \<subseteq> lasting_facts (put_group_files g fs st)"
proof
  fix f show "f \<in> lasting_facts st \<Longrightarrow> f \<in> lasting_facts (put_group_files g fs st)"
    using assms by (cases f) (auto simp: group_has_file_locked_def index_or_def split: option.splits)
qed

lemma lasting_run_op:
  assumes "\<not> takes_back op"
  shows "lasting_facts st \<subseteq> lasting_facts (fst (run_op ssl rand op st))"
proof (cases op)
  case (CreateUser u pw)
  then show ?thesis using lasting_put_peer by (simp add: create_user_def Let_def)
next
  case (Login u pw ip port)
  then show ?thesis using lasting_put_peer by (simp add: login_def split: option.split)
next
  case (Logout u)
  then show ?thesis using lasting_put_peer by (simp add: logout_def split: option.split)
next
  case (Disconnect u)
  then show ?thesis using lasting_put_peer by (simp add: handle_disconnect_def split: option.split)
next
  case (CreateGroup g u)
  have "map_of (st_groups st) g = None \<Longrightarrow> lasting_facts st \<subseteq> lasting_facts (put_group g gr st)" for gr
    by (rule lasting_put_group) simp
  with CreateGroup show ?thesis by (simp add: create_group_def Let_def group_exists_locked_def)
next
  case (JoinGroup g u)
  then show ?thesis
    by (cases "map_of (st_groups st) g") (simp_all add: join_group_def lasting_put_known_group)
next
  case (AcceptRequest g a u)
  then show ?thesis
    by (cases "map_of (st_groups st) g") (auto simp: accept_request_def acceptreq_def simp del: in_lasting_facts
        intro!: lasting_put_known_group [THEN subsetD])
next
  case (RejectRequest g a u)
  then show ?thesis
    by (cases "map_of (st_groups st) g") (auto simp: reject_request_def simp del: in_lasting_facts
        intro!: lasting_put_known_group [THEN subsetD])
next
  case (FileDownloaded g f u)
  then show ?thesis
    by (auto simp: file_downloaded_def Let_def index_or_def simp del: in_lasting_facts
        split: option.split intro!: lasting_put_file [THEN subsetD])
next
  case (UploadFile g f u n h k hs)
  define fm where "fm = (index_or new_file_meta (st_files st) (file_key g f))\<lparr>fm_size := n, fullhash := h, num_pieces := k,
     piece_hashes := resize (nat k) hs, fm_peers := uset_insert u (fm_peers (index_or new_file_meta (st_files st) (file_key g f)))\<rparr>"
  have "lasting_facts st \<subseteq> lasting_facts (put_file (file_key g f) fm st)"
    by (rule lasting_put_file) (auto simp: fm_def index_or_def)
  also have "\<dots> \<subseteq> lasting_facts (put_group_files g (uset_insert f (index_or [] (st_group_files st) g)) (put_file (file_key g f) fm st))"
    by (rule lasting_put_listing) auto
  finally show ?thesis using UploadFile by (simp add: upload_file_def Let_def fm_def split: option.split)
qed (use assms in simp_all)

lemma lasting_merged:
  assumes "replica_ok t"
  shows "lasting_facts (fst (merge_from (serialize t) st)) = lasting_facts st \<union> lasting_facts t"
proof -
  have "lasting f \<Longrightarrow> holds (fst (merge_from (serialize t) st)) f \<longleftrightarrow> holds st f \<or> holds t f" for f
    using merge_serialized(2) [OF assms, of st] lasting_shared [of f] by (auto simp: set_eq_iff)
  then show ?thesis by auto
qed

section \<open>Agreement\<close>

text \<open>Nothing lasting is lost on either side, and what a side knows to be merged is on the other side.\<close>

definition known :: "bool \<Rightarrow> tracker_pair \<Rightarrow> fact set" where
  "known i p = lasting_facts (se_state (side p i))"

definition pushed_known :: "tracker_pair \<Rightarrow> bool" where
  "pushed_known p \<longleftrightarrow>
     (\<forall>i t. linked (se_link (side p i)) \<longrightarrow> se_sent (side p i) = Some t \<longrightarrow>
        se_round (side p i) = None \<or> \<not> se_delivered (side p i) \<or> taken p i \<longrightarrow>
        lasting_facts t \<subseteq> known (\<not> i) p)"

lemma changed_to_simps [simp]:
  "se_state (changed_to st s) = st" "se_link (changed_to st s) = se_link s" "se_round (changed_to st s) = se_round s"
  "se_delivered (changed_to st s) = se_delivered s" "se_sent (changed_to st s) = se_sent s"
  by (simp_all add: changed_to_def)

lemma merged_into_simps [simp]:
  "se_state (merged_into t s) = fst (merge_from (serialize t) (se_state s))" "se_link (merged_into t s) = se_link s"
  "se_round (merged_into t s) = se_round s" "se_delivered (merged_into t s) = se_delivered s"
  "se_sent (merged_into t s) = se_sent s"
  by (simp_all add: merged_into_def)

lemma opened_after_catch_up:
  assumes "catch_up os ep (Some (serialize t)) st lk = (st', lk', True)" "replica_ok t"
  shows "lasting_facts st' = lasting_facts st \<union> lasting_facts t" "linked lk'"
  using assms lasting_merged [of t st] by (auto simp: catch_up_def split: if_splits)

lemma known_step:
  assumes "pair_step (\<lambda>op. \<not> takes_back op) p p'"
  shows "known j p \<subseteq> known j p'"
  using assms
proof cases
  case (client op s i ssl rand)
  then show ?thesis using lasting_run_op [of op "se_state s" ssl rand] by (simp add: known_def)
next
  case (reconnected s i t os ep st lk)
  then show ?thesis using opened_after_catch_up [OF reconnected(6,5)] by (auto simp: known_def opened_def)
qed (auto simp: known_def lasting_merged)

lemma pushed_known_step:
  assumes "pushed_known p" "pair_step (\<lambda>op. \<not> takes_back op) p p'"
  shows "pushed_known p'"
proof -
  note grows = known_step [OF assms(2)]
  have keep: "lasting_facts t \<subseteq> known (\<not> j) p'"
    if "linked (se_link (side p j))" "se_sent (side p j) = Some t"
      "se_round (side p j) = None \<or> \<not> se_delivered (side p j) \<or> taken p j" for j t
    using assms(1) that grows [of "\<not> j"] unfolding pushed_known_def by blast
  have "lasting_facts t \<subseteq> known (\<not> j) p'"
    if "linked (se_link (side p' j))" "se_sent (side p' j) = Some t"
      "se_round (side p' j) = None \<or> \<not> se_delivered (side p' j) \<or> taken p' j" for j t
    using assms(2)
  proof cases
    case (receive s i v t')
    have "lasting_facts t' \<subseteq> known (\<not> i) p'" using receive by (simp add: known_def lasting_merged)
    then show ?thesis using that receive keep [of j t] by (cases "j = i") (simp_all split: if_splits)
  next
    case (reconnected s i t' os ep st lk)
    then show ?thesis using that keep [of j t] by (cases "j = i") (simp_all add: opened_def)
  next
    case (receive_late t' i)
    then show ?thesis using that keep [of j t] by (cases "j = i") simp_all
  next
    case (client op s i ssl rand)
    then show ?thesis using that keep [of j t] by (cases "j = i") simp_all
  next
    case (request i)
    then show ?thesis using that keep [of j t] by simp
  qed (use that keep [of j t] in \<open>auto simp: after_push_def split: if_splits\<close>)
  then show ?thesis unfolding pushed_known_def by blast
qed

definition idle :: "session \<Rightarrow> bool" where
  "idle s \<longleftrightarrow> linked (se_link s) \<and> se_round s = None \<and> due (se_state s) (se_link s) = None"

text \<open>
  What an idle side knows its neighbour knows too. (The counter of changes starts anew with each session;
  a version that is still 0 is a state nothing was done to since the start.)
\<close>

lemma idle_side_known:
  assumes "(pair_step (\<lambda>op. \<not> takes_back op))\<^sup>*\<^sup>* (apart st) p" "idle (side p i)"
    and "se_changes (side p i) < 2 ^ 64" "st_version (se_state (side p i)) \<noteq> 0"
  shows "known i p \<subseteq> known (\<not> i) p"
proof -
  have "pushed_known p" using assms(1)
  proof (induction rule: rtranclp_induct)
    case base
    then show ?case by (simp add: pushed_known_def apart_def unlinked_def)
  qed (rule pushed_known_step)
  moreover obtain t where "se_sent (side p i) = Some t" "shared_facts t = shared_facts (se_state (side p i))"
    using idle_has_sent [OF pair_side_loop [OF assms(1)] _ assms(3)] assms(2,4) by (auto simp: idle_def)
  moreover from this have "known i p \<subseteq> lasting_facts t" using lasting_of_shared by (simp add: known_def)
  ultimately show ?thesis using assms(2) unfolding pushed_known_def idle_def by blast
qed

text \<open>One undisturbed round of a side: its message is sent, merged and answered.\<close>

definition pushed_round :: "bool \<Rightarrow> tracker_pair \<Rightarrow> tracker_pair" where
  "pushed_round i p =
     (let s = side p i in
      put_side i (s\<lparr>se_sent := Some (se_state s), se_delivered := True,
          se_link := after_push (st_version (se_state s)) True (se_link s), se_round := None\<rparr>)
        ((put_side (\<not> i) (merged_into (se_state s) (side p (\<not> i))) p)\<lparr>taken := (taken p)(i := True)\<rparr>))"

lemma pushed_round_sides:
  "side (pushed_round i p) i = (side p i)\<lparr>se_sent := Some (se_state (side p i)), se_delivered := True,
     se_link := after_push (st_version (se_state (side p i))) True (se_link (side p i)), se_round := None\<rparr>"
  "j \<noteq> i \<Longrightarrow> side (pushed_round i p) j = merged_into (se_state (side p i)) (side p j)"
  by (auto simp: pushed_round_def Let_def)

lemma push_round:
  assumes "linked (se_link (side p i))" "se_round (side p i) = None"
    and "due (se_state (side p i)) (se_link (side p i)) \<noteq> None" "replica_ok (se_state (side p i))"
  shows "(pair_step ok)\<^sup>*\<^sup>* p (pushed_round i p)"
proof -
  let ?s = "side p i" and ?v = "st_version (se_state (side p i))"
  let ?s1 = "?s\<lparr>se_round := Some ?v, se_delivered := False\<rparr>"
  let ?s2 = "?s1\<lparr>se_sent := Some (se_state ?s), se_delivered := True\<rparr>"
  define p1 where "p1 = put_side i ?s1 p"
  define p2 where "p2 = (put_side i ?s2 p1)\<lparr>taken := (taken p1)(i := False)\<rparr>"
  define p3 where "p3 = (put_side (\<not> i) (merged_into (se_state ?s) (side p2 (\<not> i))) p2)\<lparr>taken := (taken p2)(i := True)\<rparr>"
  define p4 where "p4 = put_side i (?s2\<lparr>se_link := after_push ?v True (se_link ?s2), se_round := None\<rparr>) p3"
  have "pair_step ok p p1" unfolding p1_def
    by (rule pair_step.begin_push) (use assms in \<open>auto simp: due_def split: if_splits\<close>)
  moreover have "pair_step ok p1 p2"
    using pair_step.send [of ?s1 p1 i ?v ok] assms(1) by (simp add: p1_def p2_def)
  moreover have "pair_step ok p2 p3"
    using pair_step.receive [of ?s2 p2 i ?v "se_state ?s" ok] assms(4) by (simp add: p2_def p3_def)
  moreover have "pair_step ok p3 p4"
    using pair_step.answer [of ?s2 p3 i ?v ok] assms(1) by (simp add: p2_def p3_def p4_def)
  moreover have "p4 = pushed_round i p"
    by (simp add: p1_def p2_def p3_def p4_def pushed_round_def put_side_def Let_def fun_upd_twist)
  ultimately show ?thesis by (auto intro: rtranclp.rtrancl_into_rtrancl)
qed

text \<open>
  C12: Two trackers whose links have gone idle agree: whatever their clients did on either side, with sends,
  merges, answers, broken connections and reconnects interleaved in any way, both know the same accounts,
  groups, owned groups, members, files, seeders and listings, as long as nobody left a group or stopped
  sharing. (Pending requests are excluded: an answer takes them back too.)
\<close>

theorem idle_trackers_agree:
  assumes "(pair_step (\<lambda>op. \<not> takes_back op))\<^sup>*\<^sup>* (apart st) p"
    and "\<forall>i. idle (side p i) \<and> se_changes (side p i) < 2 ^ 64 \<and> st_version (se_state (side p i)) \<noteq> 0"
  shows "lasting_facts (se_state (side p True)) = lasting_facts (se_state (side p False))"
  using idle_side_known [OF assms(1), of True] idle_side_known [OF assms(1), of False] assms(2)
  by (auto simp: known_def)

definition link_dialer :: dialer where
  "link_dialer = \<lparr>os_socket = True, os_inet_pton = (\<lambda>ip. True), os_connect = (\<lambda>ip p. True)\<rparr>"

lemma link_dialer_dials: "dial link_dialer \<lparr>ep_ip = ''10.0.0.2'', ep_port = ''6000''\<rparr>"
proof -
  have "parse_int ''6000'' = Some 6000" by code_simp
  then show ?thesis by (simp add: dial_def link_dialer_def)
qed

text \<open>A side's session begins: the other's state is asked for and merged.\<close>

definition connected_to :: "bool \<Rightarrow> tracker_pair \<Rightarrow> tracker_pair" where
  "connected_to i p =
     (put_side i (opened (fst (merge_from (serialize (se_state (side p (\<not> i)))) (se_state (side p i)))))
        (p\<lparr>pulled := (pulled p)(i := Some (se_state (side p (\<not> i))))\<rparr>))\<lparr>pulled := (pulled p)(i := None)\<rparr>"

lemma connect_side:
  assumes "\<not> linked (se_link (side p i))" "replica_ok (se_state (side p (\<not> i)))"
  shows "(pair_step ok)\<^sup>*\<^sup>* p (connected_to i p)"
proof -
  let ?t = "se_state (side p (\<not> i))"
  define p1 where "p1 = p\<lparr>pulled := (pulled p)(i := Some ?t)\<rparr>"
  have "pair_step ok p p1" unfolding p1_def by (rule pair_step.request [OF assms(1)])
  moreover have "pair_step ok p1 (connected_to i p)"
    using pair_step.reconnected [of "side p i" p1 i ?t link_dialer "\<lparr>ep_ip = ''10.0.0.2'', ep_port = ''6000''\<rparr>"
        "fst (merge_from (serialize ?t) (se_state (side p i)))" "\<lparr>linked = True, last_pushed_version = 0\<rparr>" ok]
      assms link_dialer_dials
    by (simp add: p1_def connected_to_def catch_up_def opened_def)
  ultimately show ?thesis by (auto intro: rtranclp.rtrancl_into_rtrancl)
qed

definition demo_at :: "64 word \<Rightarrow> tracker_state" where
  "demo_at v = demo_state\<lparr>st_version := v\<rparr>"

lemma demo_at_replica: "replica_ok (demo_at v)" "serialize (demo_at v) = serialize demo_state"
  using demo_replica_ok
  by (simp_all add: demo_at_def replica_ok_def wire_ok_def sizes_ok_def restorable_def records_of_def serialize_def)

lemma demo_at_merge: "fst (merge_from (serialize demo_state) (demo_at v)) = demo_at v"
proof -
  have "fold (apply_record False) (records_of demo_state) (demo_at v, False) = (demo_at v, False)"
    by (simp add: records_of_def item_defs demo_at_def demo_defs lookup_defs put_defs Let_def index_or_def)
  then show ?thesis using demo_replica_ok by (simp add: merge_from_def apply_serialize replica_ok_def)
qed

lemma demo_at_seed: "fst (file_downloaded ''g1'' ''song'' ''carol'' (demo_at v)) = demo_at (v + 1)"
  by (simp add: file_downloaded_def demo_at_def demo_defs lookup_defs partofgroup_def file_key_def put_defs Let_def index_or_def)

lemma demo_at_version: "st_version (demo_at v) = v"
  by (simp add: demo_at_def)

text \<open>Both sides connect, a client of each reports a download, both push.\<close>

theorem idle_trackers_agree_witness:
  "\<exists>p :: tracker_pair. (\<forall>i. idle (side p i) \<and> se_state (side p i) = demo_at 1) \<and>
     lasting_facts (se_state (side p True)) = lasting_facts (se_state (side p False))"
proof -
  let ?ok = "\<lambda>op. \<not> takes_back op"
  let ?op = "FileDownloaded ''g1'' ''song'' ''carol''"
  let ?seed = "\<lambda>i p. put_side i (changed_to (fst (run_op demo_ssl demo_rand ?op (se_state (side p i)))) (side p i)) p"
  define p0 where "p0 = apart (\<lambda>i. demo_at 0)"
  define p1 where "p1 = connected_to True p0"
  define p2 where "p2 = connected_to False p1"
  define p3 where "p3 = ?seed True p2"
  define p4 where "p4 = ?seed False p3"
  define p5 where "p5 = pushed_round True p4"
  define p6 where "p6 = pushed_round False p5"
  note facts = demo_at_replica demo_at_merge demo_at_seed
  have s0: "side p0 i = unlinked (demo_at 0)" for i by (simp add: p0_def apart_def)
  have s1: "side p1 True = opened (demo_at 0)" "side p1 False = unlinked (demo_at 0)"
    by (simp_all add: p1_def connected_to_def s0 facts) (simp_all add: unlinked_def opened_def facts)
  have s2: "side p2 i = opened (demo_at 0)" for i
    by (cases i) (simp_all add: p2_def connected_to_def s1, simp_all add: unlinked_def opened_def facts)
  have s4: "side p4 i = changed_to (demo_at 1) (opened (demo_at 0))" for i
    by (cases i) (simp_all add: p4_def p3_def s2, simp_all add: opened_def facts)
  have f4: "se_state (side p4 i) = demo_at 1" "se_link (side p4 i) = \<lparr>linked = True, last_pushed_version = 0\<rparr>"
      "se_round (side p4 i) = None" "se_changes (side p4 i) = 1" for i
    by (simp_all add: s4) (simp_all add: opened_def changed_to_def demo_at_version)
  have f5: "se_state (side p5 i) = demo_at 1" "se_round (side p5 i) = None" "se_changes (side p5 i) = 1"
      "se_link (side p5 i) = \<lparr>linked = True, last_pushed_version = (if i then 1 else 0)\<rparr>" for i
    unfolding p5_def by (cases i; simp add: pushed_round_sides f4 facts after_push_def demo_at_version
        merged_into_def changed_to_def)+
  have s6: "se_state (side p6 i) = demo_at 1" "se_round (side p6 i) = None" "se_changes (side p6 i) = 1"
      "se_link (side p6 i) = \<lparr>linked = True, last_pushed_version = 1\<rparr>" for i
    unfolding p6_def by (cases i; simp add: pushed_round_sides f5 facts after_push_def demo_at_version
        merged_into_def changed_to_def)+
  then have i6: "idle (side p6 i)" for i by (simp add: idle_def due_def demo_at_version)
  have "(pair_step ?ok)\<^sup>*\<^sup>* p0 p1" unfolding p1_def by (rule connect_side) (simp_all add: s0 unlinked_def opened_def facts)
  also have "(pair_step ?ok)\<^sup>*\<^sup>* p1 p2" unfolding p2_def by (rule connect_side) (simp_all add: s1 unlinked_def opened_def facts)
  also have "pair_step ?ok p2 p3" unfolding p3_def by (rule pair_step.client) simp_all
  also have "pair_step ?ok p3 p4" unfolding p4_def by (rule pair_step.client) simp_all
  also have "(pair_step ?ok)\<^sup>*\<^sup>* p4 p5" unfolding p5_def
    by (rule push_round) (simp_all add: f4 facts due_def demo_at_version)
  also have "(pair_step ?ok)\<^sup>*\<^sup>* p5 p6" unfolding p6_def
    by (rule push_round) (simp_all add: f5 facts due_def demo_at_version)
  finally have r: "(pair_step ?ok)\<^sup>*\<^sup>* (apart (\<lambda>i. demo_at 0)) p6" by (simp add: p0_def)
  have "\<forall>i. idle (side p6 i) \<and> se_changes (side p6 i) < 2 ^ 64 \<and> st_version (se_state (side p6 i)) \<noteq> 0"
    by (simp add: s6 i6 demo_at_version)
  then show ?thesis using idle_trackers_agree [OF r] s6(1) i6 by blast
qed

section \<open>What a removal comes to\<close>

lemma policy_leave_removes:
  "policy_step (LeaveGroup g u) F F' \<Longrightarrow> Member g u \<in> F \<and> Member g u \<notin> F' \<and> (\<forall>f. shared f \<longrightarrow> f \<in> F' \<longrightarrow> f \<in> F)"
  by (erule policy_LeaveGroupE) auto

text \<open>
  C21: Leaving a group is undone by replication, also over a link that never broke: when the trackers agree
  and a member leaves on one of them, the push of the new state changes nothing on the other (not even
  its version, so nothing is due there), the trackers differ from then on, and the next push of the other
  one makes the user a member again.
\<close>

theorem leaving_is_undone:
  assumes "wf_state b" "leave_group gid u b = (b', r)" "res_ok r" "shared_facts a = shared_facts b"
    and "replica_ok a" "replica_ok b'" "a' = fst (merge_from (serialize b') a)"
  shows "\<not> holds b' (Member gid u) \<and> st_version a' = st_version a \<and> shared_facts a' = shared_facts a \<and>
    holds a' (Member gid u) \<and> holds (fst (merge_from (serialize a) b')) (Member gid u)"
proof -
  have step: "policy_step (LeaveGroup gid u) (facts b) (facts b')"
    using implements_leave_group [OF assms(1), of gid u] assms(2,3) by (simp add: implements_def)
  have left: "\<not> holds b' (Member gid u)" "holds b (Member gid u)" and sub: "shared_facts b' \<subseteq> shared_facts b"
    using policy_leave_removes [OF step] by auto
  have "shared_facts b' \<subseteq> shared_facts a" using sub assms(4) by simp
  then have "st_version a' = st_version a" "shared_facts a' = shared_facts a"
    using merge_serialized(2,3) [OF assms(6), of a] assms(7) by auto
  moreover have "Member gid u \<in> shared_facts a" using left(2) assms(4) by simp
  moreover have "shared_facts a \<subseteq> shared_facts (fst (merge_from (serialize a) b'))"
    using merge_serialized(2) [OF assms(5), of b'] by simp
  ultimately show ?thesis using left(1) by (metis in_shared_facts subsetD)
qed

definition demo_left :: tracker_state where
  "demo_left = demo_state\<lparr>st_version := 1, st_groups := [(''g1'', demo_group\<lparr>participants := [''alice'']\<rparr>)]\<rparr>"

lemma demo_left: "leave_group ''g1'' ''carol'' demo_state = (demo_left, snd (leave_group ''g1'' ''carol'' demo_state))"
    "res_ok (snd (leave_group ''g1'' ''carol'' demo_state))"
  by (simp_all add: leave_group_def demo_left_def demo_defs lookup_defs partofgroup_def deluser_def put_defs uset_erase_def Let_def)

lemma demo_left_replica: "replica_ok demo_left"
proof -
  have "cast_int 1 = 1" by (simp add: cast_int_small INT_MAX_def)
  then have "stored_ok demo_left" by (simp add: stored_ok_def entry_ok_defs demo_left_def demo_defs LLONG_MAX_def)
  moreover have "sizes_ok demo_left" by (simp add: sizes_ok_def records_of_def item_defs demo_left_def demo_defs count_ok_def LLONG_MAX_def)
  moreover have "no_dash_owner demo_left" by (simp add: no_dash_owner_def demo_left_def demo_defs)
  ultimately show ?thesis by (simp add: replica_ok_def stored_ok_wire_ok stored_ok_restorable)
qed

theorem leaving_is_undone_witness:
  "\<not> holds demo_left (Member ''g1'' ''carol'') \<and>
   holds (fst (merge_from (serialize demo_state) demo_left)) (Member ''g1'' ''carol'')"
  using leaving_is_undone [OF demo_wf demo_left refl demo_replica_ok demo_left_replica refl] by blast

end
