(* ===== verification/Addresses.thy ===== *)
theory Addresses imports Dispatch Config Examples
begin

text \<open>
  The types of what the tracker stores. Names, hashes and tokens are words (theory Snapshot says so for
  everything that is saved); here the addresses: whoever is marked online has an address and a port that
  can be dialled. Together they make every state a tracker reaches well-typed; theory Tracker_Threads
  shows the same when the connections' threads interleave.
\<close>

definition online_at :: "string \<Rightarrow> string \<Rightarrow> bool" where
  "online_at ip port \<longleftrightarrow> is_word ip \<and> is_word port \<and> valid_port port"

definition addresses_typed :: "tracker_state \<Rightarrow> bool" where
  "addresses_typed st \<longleftrightarrow> (\<forall>n p. map_of (st_peers st) n = Some p \<longrightarrow> connected p \<longrightarrow> online_at (hostip p) (hostport p))"

text \<open>What is marked online in a later state was so before, unless the step brought it online.\<close>

definition no_new_online :: "tracker_state \<Rightarrow> tracker_state \<Rightarrow> bool" where
  "no_new_online st st' \<longleftrightarrow> (\<forall>n p. map_of (st_peers st') n = Some p \<longrightarrow> connected p \<longrightarrow> map_of (st_peers st) n = Some p)"

lemma typed_no_new_online: "addresses_typed st \<Longrightarrow> no_new_online st st' \<Longrightarrow> addresses_typed st'"
  by (auto simp: addresses_typed_def no_new_online_def)

lemma no_new_online_same [simp]: "st_peers st' = st_peers st \<Longrightarrow> no_new_online st st'"
  by (simp add: no_new_online_def)

lemma no_new_online_trans: "no_new_online a b \<Longrightarrow> no_new_online b c \<Longrightarrow> no_new_online a c"
  by (auto simp: no_new_online_def)

lemma no_new_online_put [simp]: "\<not> connected p \<Longrightarrow> no_new_online st (put_peer n p st)"
  by (auto simp: no_new_online_def update_conv)

lemma no_new_online_bump [simp]: "no_new_online st (bump st') = no_new_online st st'"
  by (simp add: no_new_online_def)

lemma no_new_online_run_op:
  assumes "\<forall>u pw ip port. op \<noteq> Login u pw ip port"
  shows "no_new_online st (fst (run_op ssl rand op st))"
  using assms
  by (cases op) (simp_all add: op_defs Let_def new_peer_def peer_logout_def split: option.split)

lemma no_new_online_record: "no_new_online (fst s) (fst (apply_record replace r s))"
  by (cases s; cases r) (auto simp: Let_def new_peer_def split: option.splits)

lemma no_new_online_records: "no_new_online (fst s) (fst (snd (run_records replace ts s)))"
proof (induction ts arbitrary: s)
  case (Cons t ts)
  have "no_new_online (fst s) (fst (snd (run_records replace ts (apply_record replace r s))))" for r
    using no_new_online_trans [OF no_new_online_record Cons.IH] .
  then show ?case by (cases "parse_record t") simp_all
qed simp

lemma no_new_online_merge: "no_new_online st (fst (merge_from data st))"
  using no_new_online_records [of "(st, False)" False "map split_args (getlines data)"]
  by (simp add: merge_from_def apply_records_locked_def case_prod_beta)

lemma typed_load: "addresses_typed st \<Longrightarrow> addresses_typed (fst (load_snapshot fs path st))"
proof -
  have "addresses_typed (cleared st)" by (simp add: addresses_typed_def cleared_def)
  then have "addresses_typed (fst (snd (run_records True ts (cleared st, False))))" for ts
    using typed_no_new_online no_new_online_records [of "(cleared st, False)" True ts] by simp
  then show "addresses_typed st \<Longrightarrow> addresses_typed (fst (load_snapshot fs path st))"
    by (simp add: load_snapshot_def apply_records_locked_def Let_def case_prod_beta split: option.splits)
qed

section \<open>Commands\<close>

lemma session_peers: "st_peers (sv_state (fst (dispatch_session comds user sv))) = st_peers (sv_state sv)"
proof -
  have ops: "st_peers (fst (create_group g u st)) = st_peers st" "st_peers (fst (join_group g u st)) = st_peers st"
    "st_peers (fst (leave_group g u st)) = st_peers st" "st_peers (fst (accept_request g a u st)) = st_peers st"
    "st_peers (fst (reject_request g a u st)) = st_peers st" "st_peers (fst (file_downloaded g f u st)) = st_peers st"
    "st_peers (fst (stop_share g f u st)) = st_peers st" "st_peers (fst (upload_file g f u n h k hs st)) = st_peers st"
    for g a u f n h k hs st
    by (simp_all add: op_defs Let_def split: option.split)
  have "st_peers (sv_state (fst (dispatch_upload comds user sv))) = st_peers (sv_state sv)"
    by (simp add: dispatch_upload_def reply_with_def ops split: option.split)
  then show ?thesis by (simp add: dispatch_session_def Let_def reply_with_def ops)
qed

lemma typed_login:
  assumes "addresses_typed (sv_state sv)" "words comds" "is_word ip"
  shows "addresses_typed (sv_state (fst (dispatch_login ssl rand now comds ip sv)))"
proof -
  have "addresses_typed (fst (login ssl u pw ip port st))" if "addresses_typed st" "is_word port" "valid_port port" for u pw port st
    using that assms(3) by (auto simp: addresses_typed_def login_def peer_login_def online_at_def update_conv split: option.splits)
  moreover have "length comds = 4 \<Longrightarrow> is_word (comds ! 3)" using assms(2) by (simp add: word_arg)
  ultimately show ?thesis using assms(1)
    by (auto simp: dispatch_login_def valid_port_def Let_def case_prod_beta split: option.splits)
qed

lemma typed_dispatch:
  assumes "addresses_typed (sv_state sv)" "words comds" "is_word ip"
  shows "addresses_typed (sv_state (fst (dispatch ssl rand now comds ip raw sv)))"
proof -
  note op = typed_no_new_online [OF assms(1) no_new_online_run_op]
  have "addresses_typed (fst (create_user ssl rand u pw (sv_state sv)))" for u pw
    using op [of "CreateUser u pw" ssl rand] by simp
  moreover have "addresses_typed (fst (logout u (sv_state sv)))" for u
    using op [of "Logout u" ssl rand] by simp
  then have "addresses_typed (sv_state (fst (dispatch_logout t sv)))" for t
    using assms(1) by (simp add: dispatch_logout_def reply_with_def Let_def case_prod_beta)
  moreover have "addresses_typed (sv_state (fst (dispatch_state raw sv)))"
    using assms(1) typed_no_new_online [OF assms(1) no_new_online_merge] by (simp add: dispatch_state_def case_prod_beta)
  moreover have "addresses_typed (sv_state (fst (dispatch_session comds u (sv\<lparr>sv_sessions := sess\<rparr>))))" for u sess
    by (rule typed_no_new_online [OF assms(1)]) (simp add: session_peers)
  ultimately show ?thesis using assms(1) typed_login [OF assms]
    by (simp add: dispatch_def reply_with_def Let_def case_prod_beta split: option.split)
qed

section \<open>Whole runs\<close>

text \<open>
  \<open>getpeername\<close> and \<open>inet_ntop\<close> write an address without white space, or fail; a connection whose address
  is not known is dropped.
\<close>

fun address_given :: "world_event \<Rightarrow> bool" where
  "address_given (Accept i ip) = (ip = [] \<or> is_word ip)"
| "address_given _ = True"

definition world_typed :: "world \<Rightarrow> bool" where
  "world_typed w \<longleftrightarrow> addresses_typed (sv_state (wd_server w)) \<and> list_all (\<lambda>(i, cn). is_word (cn_peer_ip cn)) (wd_conns w)"

lemma world_typed_step:
  assumes "world_typed w" "address_given e"
  shows "world_typed (world_step ssl e w)"
proof (cases e)
  case (Accept i ip)
  then show ?thesis using assms by (auto simp: world_typed_def intro!: list_all_update)
next
  case (Input rand now i inp)
  show ?thesis
  proof (cases "map_of (wd_conns w) i")
    case None
    then show ?thesis using assms(1) Input by simp
  next
    case (Some cn)
    then have ip: "is_word (cn_peer_ip cn)" and t: "addresses_typed (sv_state (wd_server w))"
      using assms(1) by (auto simp: world_typed_def dest: list_all_map_of)
    obtain sv ocn reply where m: "managepeer_step ssl rand now inp cn (wd_server w) = (sv, ocn, reply)"
      using prod_cases3 by blast
    have "addresses_typed (sv_state sv)"
    proof (cases inp)
      case Closed
      have "addresses_typed (handle_disconnect u (sv_state (wd_server w)))" for u
        using typed_no_new_online [OF t no_new_online_run_op [of "Disconnect u" _ ssl rand]] by simp
      then show ?thesis using m Closed by (auto simp: managepeer_step_def)
    next
      case (Received buff)
      then show ?thesis using m t typed_dispatch [OF t split_args_are_words ip, of ssl rand now buff buff]
        by (auto simp: managepeer_step_def Let_def case_prod_beta split: if_splits)
    qed
    moreover have "ocn = Some cn' \<Longrightarrow> cn_peer_ip cn' = cn_peer_ip cn" for cn'
      using m by (auto simp: managepeer_step_def Let_def case_prod_beta split: conn_input.splits if_splits)
    ultimately show ?thesis using assms(1) ip
      by (cases ocn) (simp_all add: Input Some m world_typed_def list_all_delete list_all_update)
  qed
qed

lemma world_typed_booted: "world_typed (booted fs path)"
proof -
  have "addresses_typed empty_state" by (simp add: addresses_typed_def empty_state_def)
  then show ?thesis by (simp add: world_typed_def booted_def fresh_world_def typed_load)
qed

lemma world_typed_run: "world_typed w \<Longrightarrow> \<forall>e \<in> set es. address_given e \<Longrightarrow> world_typed (fold (world_step ssl) es w)"
  by (induction es arbitrary: w) (simp_all add: world_typed_step)

text \<open>
  Every state a tracker reaches is well-typed, from any snapshot file, good or not, and whatever bytes
  clients and the other tracker send: all names, group ids, file names, hashes and tokens are single words
  of the protocol, piece counts match the hash lists, and whoever is marked online has an address and a
  port between 1 and 65535. (Connections come from addresses written without white space, as \<open>inet_ntop\<close>
  writes them.)
\<close>

lemma reachable_states_are_typed:
  assumes "\<forall>e \<in> set events. address_given e" "w = fold (world_step ssl) events (booted fs path)"
  shows "stored_ok (sv_state (wd_server w)) \<and> sessions_ok (sv_sessions (wd_server w)) \<and>
    (\<forall>n p. map_of (st_peers (sv_state (wd_server w))) n = Some p \<longrightarrow> connected p \<longrightarrow>
       is_word n \<and> is_word (hostip p) \<and> (\<exists>port. parse_int (hostport p) = Some port \<and> 0 < port \<and> port \<le> 65535))"
proof -
  have ok: "world_ok w" using tracker_world.run_from [OF booted_ok, of ssl events fs path] assms(2) by simp
  then have s: "stored_ok (sv_state (wd_server w))" "sessions_ok (sv_sessions (wd_server w))"
    by (simp_all add: world_ok_def server_ok_def)
  have "world_typed w" using world_typed_run [OF world_typed_booted assms(1)] assms(2) by simp
  then have "is_word (hostip p) \<and> (\<exists>port. parse_int (hostport p) = Some port \<and> 0 < port \<and> port \<le> 65535)"
    if "map_of (st_peers (sv_state (wd_server w))) n = Some p" "connected p" for n p
    using that by (fastforce simp: world_typed_def addresses_typed_def online_at_def valid_port_def split: option.splits)
  moreover have "is_word n" if "map_of (st_peers (sv_state (wd_server w))) n = Some p" for n p
    using stored_ok_lookup(1) [OF s(1) that] by (simp add: peer_ok_def)
  ultimately show ?thesis using s by blast
qed

end
