(* ===== verification/Download_Pool.thy ===== *)
theory Download_Pool imports Download_Guarantees "HOL-Library.Multiset"
begin

text \<open>
  The threads of one download (\<^verbatim>\<open>Downloader::run\<close>, the worker and the pool) at the grain of their
  interleaving: a turn of a worker pops a piece, asks one peer and deals with its answer, or ends a round
  over the peers. The theory shows that any interleaving of turns is a run of the transfer of theory
  Download_Guarantees, and that it comes to an end with every piece either completed or failed.
\<close>

section \<open>Workers and their turns\<close>

text \<open>\<open>Fetching p qs a\<close>: piece \<open>p\<close>, peers \<open>qs\<close> still to be asked in this round, \<open>a\<close> attempts so far.\<close>

datatype worker = Waiting | Fetching nat "nat list" nat | Finished

record pool =
  po_transfer :: transfer
  po_workers :: "worker list"

definition num_workers :: "nat \<Rightarrow> nat \<Rightarrow> nat" where
  "num_workers num_pieces peers = (if 1000 < num_pieces then min 4 peers else min peers 8)"

definition start_pool :: "nat \<Rightarrow> string \<Rightarrow> int list \<Rightarrow> pool" where
  "start_pool peers f status =
     \<lparr>po_transfer = \<lparr>tr_file = f, tr_status = status, tr_queue = pending_pieces status, tr_busy = []\<rparr>,
      po_workers = replicate (num_workers (length status) peers) Waiting\<rparr>"

definition completed :: "nat \<Rightarrow> int \<Rightarrow> transfer \<Rightarrow> transfer" where
  "completed p s t = t\<lparr>tr_busy := remove1 p (tr_busy t), tr_status := (tr_status t)[p := s]\<rparr>"

text \<open>
  One turn of worker \<open>i\<close> in state \<open>w\<close>: \<open>ans\<close> is what the peer it asks delivers, \<open>dk\<close> what the disk does
  with it. The condition of the loop over rounds is tested when a round is over.
\<close>

fun fetch_turn ::
  "openssl \<Rightarrow> string list \<Rightarrow> nat list \<Rightarrow> string option \<Rightarrow> disk_result \<Rightarrow> worker \<Rightarrow> transfer \<Rightarrow> worker \<times> transfer" where
  "fetch_turn ssl hashes order ans dk Finished t = (Finished, t)"
| "fetch_turn ssl hashes order ans dk Waiting t =
     (case tr_queue t of [] \<Rightarrow> (Finished, t)
      | p # q \<Rightarrow> (Fetching p order 0, t\<lparr>tr_queue := q, tr_busy := p # tr_busy t, tr_status := (tr_status t)[p := 1]\<rparr>))"
| "fetch_turn ssl hashes order ans dk (Fetching p [] a) t =
     (if a + 1 < MAX_RETRIES then (Fetching p order (a + 1), t) else (Waiting, completed p 3 t))"
| "fetch_turn ssl hashes order ans dk (Fetching p (q # qs) a) t =
     (case ans of None \<Rightarrow> (Fetching p qs a, t)
      | Some data \<Rightarrow>
          if sha1_hex ssl data \<noteq> hashes ! p then (Fetching p qs (a + 1), t)
          else (case dk of
              Cannot_open \<Rightarrow> (Fetching p qs (a + 1), t)
            | Cannot_seek \<Rightarrow> (Fetching p qs (a + 1), t)
            | Short_write n \<Rightarrow> (Fetching p qs (a + 1), t\<lparr>tr_file := write_at (p * kPieceSize) (take n data) (tr_file t)\<rparr>)
            | Flush_fails n \<Rightarrow> (Fetching p qs (a + 1), t\<lparr>tr_file := write_at (p * kPieceSize) (take n data) (tr_file t)\<rparr>)
            | Written \<Rightarrow> (Waiting, completed p 2 (t\<lparr>tr_file := write_at (p * kPieceSize) data (tr_file t)\<rparr>))))"

type_synonym pool_event = "nat \<times> string option \<times> disk_result"

definition pool_turn :: "openssl \<Rightarrow> string list \<Rightarrow> nat \<Rightarrow> pool_event \<Rightarrow> pool \<Rightarrow> pool" where
  "pool_turn ssl hashes peers e po =
     (case e of (i, ans, dk) \<Rightarrow>
        if i < length (po_workers po)
        then (case fetch_turn ssl hashes (peer_order i peers) ans dk (po_workers po ! i) (po_transfer po) of
            (w, t) \<Rightarrow> \<lparr>po_transfer = t, po_workers = (po_workers po)[i := w]\<rparr>)
        else po)"

text \<open>The turns in which a worker that has not ended was given the processor.\<close>

definition effective :: "pool_event \<Rightarrow> pool \<Rightarrow> bool" where
  "effective e po \<longleftrightarrow> fst e < length (po_workers po) \<and> po_workers po ! fst e \<noteq> Finished"

fun effective_turns :: "openssl \<Rightarrow> string list \<Rightarrow> nat \<Rightarrow> pool_event list \<Rightarrow> pool \<Rightarrow> nat" where
  "effective_turns ssl hashes peers [] po = 0"
| "effective_turns ssl hashes peers (e # es) po =
     (if effective e po then 1 else 0) + effective_turns ssl hashes peers es (pool_turn ssl hashes peers e po)"

section \<open>The pool ends\<close>

definition rank :: "nat \<Rightarrow> worker \<Rightarrow> nat" where
  "rank peers w = (case w of Finished \<Rightarrow> 0 | Waiting \<Rightarrow> 1
     | Fetching p qs a \<Rightarrow> 2 + (MAX_RETRIES - a) * (peers + 1) + length qs)"

definition piece_cost :: "nat \<Rightarrow> nat" where
  "piece_cost peers = 2 + MAX_RETRIES * (peers + 1) + peers"

definition remaining :: "nat \<Rightarrow> pool \<Rightarrow> nat" where
  "remaining peers po = length (tr_queue (po_transfer po)) * piece_cost peers + sum_list (map (rank peers) (po_workers po))"

lemma sum_list_update_add:
  fixes f :: "'a \<Rightarrow> 'b::comm_monoid_add"
  assumes "i < length xs"
  shows "sum_list (map f (xs[i := x])) + f (xs ! i) = sum_list (map f xs) + f x"
  using assms
proof (induction xs arbitrary: i)
  case (Cons y ys)
  then show ?case by (cases i) (auto simp: ac_simps)
qed simp

lemma fetch_turn_rank:
  assumes "fetch_turn ssl hashes order ans dk w t = (w', t')" "w \<noteq> Finished" "length order = peers"
  shows "length (tr_queue t') * piece_cost peers + rank peers w' < length (tr_queue t) * piece_cost peers + rank peers w"
proof (cases "(ssl, hashes, order, ans, dk, w, t)" rule: fetch_turn.cases)
  case (3 ssl' hs order' ans' dk' p a t'')
  show ?thesis
  proof (cases "a + 1 < MAX_RETRIES")
    case True
    then have "MAX_RETRIES - a = Suc (MAX_RETRIES - (a + 1))" by simp
    then show ?thesis using assms 3 True by (auto simp: rank_def)
  qed (use assms 3 in \<open>auto simp: rank_def completed_def\<close>)
next
  case (4 ssl' hs order' ans' dk' p q qs a t'')
  have "(MAX_RETRIES - (a + 1)) * (peers + 1) \<le> (MAX_RETRIES - a) * (peers + 1)" by (intro mult_le_mono1) simp
  then show ?thesis using assms(1,2) 4
    by (auto simp: rank_def completed_def split: option.splits if_splits disk_result.splits)
qed (use assms in \<open>auto simp: rank_def piece_cost_def split: list.splits\<close>)

lemma length_peer_order [simp]: "length (peer_order i peers) = peers"
  by (simp add: peer_order_def)

lemma pool_turn_remaining:
  "effective e po \<Longrightarrow> remaining peers (pool_turn ssl hashes peers e po) < remaining peers po"
proof -
  assume eff: "effective e po"
  obtain i ans dk where e: "e = (i, ans, dk)" by (cases e)
  let ?ws = "po_workers po"
  obtain w t where wt: "fetch_turn ssl hashes (peer_order i peers) ans dk (?ws ! i) (po_transfer po) = (w, t)" by fastforce
  have i: "i < length ?ws" "?ws ! i \<noteq> Finished" using eff e by (simp_all add: effective_def)
  have "length (tr_queue t) * piece_cost peers + rank peers w <
      length (tr_queue (po_transfer po)) * piece_cost peers + rank peers (?ws ! i)"
    by (rule fetch_turn_rank [OF wt i(2)]) simp
  then show ?thesis using sum_list_update_add [OF i(1), of "rank peers" w] i(1)
    by (simp add: remaining_def pool_turn_def e wt)
qed

lemma ineffective_same:
  assumes "\<not> effective e po"
  shows "pool_turn ssl hashes peers e po = po"
proof (cases "fst e < length (po_workers po)")
  case True
  then have fin: "po_workers po ! fst e = Finished" using assms by (simp add: effective_def)
  then have "(po_workers po)[fst e := Finished] = po_workers po" by (metis list_update_id)
  then show ?thesis using fin by (cases e) (auto simp: pool_turn_def)
qed (cases e, simp add: pool_turn_def)

lemma effective_turns_bounded: "effective_turns ssl hashes peers es po \<le> remaining peers po"
proof (induction es arbitrary: po)
  case (Cons e es)
  show ?case
  proof (cases "effective e po")
    case True
    then show ?thesis using Cons.IH [of "pool_turn ssl hashes peers e po"] pool_turn_remaining [OF True, of peers ssl hashes]
      by simp
  next
    case False
    then show ?thesis using Cons.IH [of po] by (simp add: ineffective_same)
  qed
qed simp

text \<open>The whole pool: the turns in the order the scheduler gives them.\<close>

definition pool_run :: "openssl \<Rightarrow> string list \<Rightarrow> nat \<Rightarrow> pool_event list \<Rightarrow> pool \<Rightarrow> pool" where
  "pool_run ssl hashes peers es po = fold (pool_turn ssl hashes peers) es po"

definition turns_of :: "nat \<Rightarrow> pool_event list \<Rightarrow> nat" where
  "turns_of i es = length (filter (\<lambda>e. fst e = i) es)"

lemma length_pool_turn [simp]: "length (po_workers (pool_turn ssl hashes peers e po)) = length (po_workers po)"
  by (simp add: pool_turn_def split: prod.split)

lemma length_pool_run [simp]: "length (po_workers (pool_run ssl hashes peers es po)) = length (po_workers po)"
  by (induction es arbitrary: po) (simp_all add: pool_run_def)

lemma finished_stays:
  "po_workers po ! i = Finished \<Longrightarrow> po_workers (pool_turn ssl hashes peers e po) ! i = Finished"
  by (cases e) (auto simp: pool_turn_def nth_list_update split: prod.split)

lemma finished_stays_run:
  "po_workers po ! i = Finished \<Longrightarrow> po_workers (pool_run ssl hashes peers es po) ! i = Finished"
  by (induction es arbitrary: po) (simp_all add: pool_run_def finished_stays)

text \<open>A worker that has not ended has used each of its turns.\<close>

lemma unfinished_used_its_turns:
  assumes "i < length (po_workers po)" "po_workers (pool_run ssl hashes peers es po) ! i \<noteq> Finished"
  shows "turns_of i es \<le> effective_turns ssl hashes peers es po"
  using assms
proof (induction es arbitrary: po)
  case (Cons e es)
  have "po_workers (pool_run ssl hashes peers es (pool_turn ssl hashes peers e po)) ! i \<noteq> Finished"
    using Cons.prems(2) by (simp add: pool_run_def)
  then have "turns_of i es \<le> effective_turns ssl hashes peers es (pool_turn ssl hashes peers e po)"
    using Cons.prems(1) by (intro Cons.IH) simp_all
  moreover have "fst e = i \<Longrightarrow> effective e po"
    using Cons.prems finished_stays_run [of po i ssl hashes peers "e # es"] by (auto simp: effective_def)
  ultimately show ?case by (simp add: turns_of_def)
qed (simp add: turns_of_def)

lemma fair_run_ends:
  assumes "i < length (po_workers po)" "remaining peers po < turns_of i es"
  shows "po_workers (pool_run ssl hashes peers es po) ! i = Finished"
  using unfinished_used_its_turns [OF assms(1), of ssl hashes peers es]
    effective_turns_bounded [of ssl hashes peers es po] assms(2) by linarith

section \<open>The pool is a run of the transfer\<close>

fun holding :: "worker \<Rightarrow> nat multiset" where
  "holding (Fetching p qs a) = {#p#}"
| "holding Waiting = {#}"
| "holding Finished = {#}"

definition pool_inv :: "nat \<Rightarrow> pool \<Rightarrow> bool" where
  "pool_inv n po \<longleftrightarrow> mset (tr_busy (po_transfer po)) = sum_list (map holding (po_workers po)) \<and>
     (Finished \<in> set (po_workers po) \<longrightarrow> tr_queue (po_transfer po) = []) \<and>
     (\<forall>p < n. p \<in> set (tr_queue (po_transfer po) @ tr_busy (po_transfer po)) \<or> tr_status (po_transfer po) ! p \<in> {2, 3})"

lemma holding_busy:
  assumes "pool_inv n po" "i < length (po_workers po)" "po_workers po ! i = Fetching p qs a"
  shows "p \<in> set (tr_busy (po_transfer po))"
proof -
  have "holding (po_workers po ! i) \<in> set (map holding (po_workers po))" using assms(2) by simp
  moreover have "p \<in># holding (po_workers po ! i)" using assms(3) by simp
  ultimately have "p \<in># sum_list (map holding (po_workers po))" unfolding set_mset_sum_list by blast
  then show ?thesis using assms(1) unfolding pool_inv_def by (metis set_mset_mset)
qed

text \<open>What one turn does to the pieces the workers hold, to the queue and to the statuses.\<close>

lemma fetch_turn_step:
  assumes "fetch_turn ssl hashes order ans dk w t = (w', t')"
    and "\<And>p qs a. w = Fetching p qs a \<Longrightarrow> p \<in> set (tr_busy t)"
    and "\<And>data. ans = Some data \<Longrightarrow> length data \<le> kPieceSize"
  shows "(transfer_step ssl hashes)\<^sup>=\<^sup>= t t'"
proof (cases "(ssl, hashes, order, ans, dk, w, t)" rule: fetch_turn.cases)
  case (2 ssl' hs order' ans' dk' t'')
  then show ?thesis using assms(1) transfer_step.pop [of t] by (auto split: list.splits)
next
  case (3 ssl' hs order' ans' dk' p a t'')
  then show ?thesis using assms(1,2) transfer_step.give_up [of p t] by (auto simp: completed_def split: if_splits)
next
  case (4 ssl' hs order' ans' dk' p q qs a t'')
  then have p: "p \<in> set (tr_busy t)" using assms(2) by simp
  show ?thesis
  proof (cases "\<exists>data. ans = Some data \<and> sha1_hex ssl data = hashes ! p")
    case True
    then obtain data where d: "ans = Some data" "sha1_hex ssl data = hashes ! p" by blast
    then have "verified ssl hashes p data" using assms(3) by (simp add: verified_def)
    from transfer_step.partial_write [OF p this] transfer_step.complete [OF p this]
    show ?thesis using assms(1) 4 d by (auto simp: completed_def split: disk_result.splits)
  qed (use assms(1) 4 in \<open>auto split: option.splits if_splits\<close>)
qed (use assms(1) in auto)

lemma fetch_turn_holding:
  assumes "fetch_turn ssl hashes order ans dk w t = (w', t')"
    and "\<And>p qs a. w = Fetching p qs a \<Longrightarrow> p \<in> set (tr_busy t)"
  shows "mset (tr_busy t') + holding w = mset (tr_busy t) + holding w'"
  using assms
  by (cases "(ssl, hashes, order, ans, dk, w, t)" rule: fetch_turn.cases)
    (auto simp: completed_def split: list.splits option.splits if_splits disk_result.splits)

lemma fetch_turn_queue:
  assumes "fetch_turn ssl hashes order ans dk w t = (w', t')"
  shows "tr_queue t = [] \<Longrightarrow> tr_queue t' = []" "w' = Finished \<Longrightarrow> w \<noteq> Finished \<Longrightarrow> tr_queue t' = []"
  using assms
  by (cases "(ssl, hashes, order, ans, dk, w, t)" rule: fetch_turn.cases;
    auto simp: completed_def split: list.splits option.splits if_splits disk_result.splits)+

lemma transfer_step_settled:
  assumes "transfer_step ssl hashes t t'" "p < length (tr_status t)"
    and "p \<in> set (tr_queue t @ tr_busy t) \<or> tr_status t ! p \<in> {2, 3}"
  shows "p \<in> set (tr_queue t' @ tr_busy t') \<or> tr_status t' ! p \<in> {2, 3}"
  using assms(1)
proof (cases rule: transfer_step.cases)
  case (complete r data)
  then show ?thesis using assms(2,3) by (cases "p = r") auto
next
  case (give_up r)
  then show ?thesis using assms(2,3) by (cases "p = r") auto
next
  case (pop r q)
  then show ?thesis using assms(2,3) by (cases "p = r") auto
qed (use assms(3) in auto)

text \<open>A run of the pool from any state of the download that satisfies the invariant.\<close>

definition small_answers :: "pool_event list \<Rightarrow> bool" where
  "small_answers es \<longleftrightarrow> (\<forall>(i, ans, dk) \<in> set es. \<forall>data. ans = Some data \<longrightarrow> length data \<le> kPieceSize)"

lemma length_status_step: "transfer_step ssl hashes t t' \<Longrightarrow> length (tr_status t') = length (tr_status t)"
  by (cases rule: transfer_step.cases) auto

lemma pool_turn_refines:
  assumes "pool_inv n po" "length (tr_status (po_transfer po)) = n" "small_answers [e]"
  shows "(transfer_step ssl hashes)\<^sup>=\<^sup>= (po_transfer po) (po_transfer (pool_turn ssl hashes peers e po))"
    and "pool_inv n (pool_turn ssl hashes peers e po)"
proof -
  obtain i ans dk where e: "e = (i, ans, dk)" by (cases e)
  let ?ws = "po_workers po" and ?t = "po_transfer po" and ?po' = "pool_turn ssl hashes peers e po"
  obtain w t where wt: "fetch_turn ssl hashes (peer_order i peers) ans dk (?ws ! i) ?t = (w, t)" by fastforce
  have "(transfer_step ssl hashes)\<^sup>=\<^sup>= ?t (po_transfer ?po') \<and> pool_inv n ?po'"
  proof (cases "i < length ?ws")
    case i: True
    have po': "?po' = \<lparr>po_transfer = t, po_workers = ?ws[i := w]\<rparr>" using i by (simp add: pool_turn_def e wt)
    have holds: "p \<in> set (tr_busy ?t)" if "?ws ! i = Fetching p qs a" for p qs a
      using holding_busy [OF assms(1) i that] .
    have step: "(transfer_step ssl hashes)\<^sup>=\<^sup>= ?t t"
      using fetch_turn_step [OF wt holds] assms(3) by (auto simp: small_answers_def e)
    have "mset (tr_busy t) + holding (?ws ! i) = mset (tr_busy ?t) + holding w"
      by (rule fetch_turn_holding [OF wt holds])
    then have busy: "mset (tr_busy t) = sum_list (map holding (?ws[i := w]))"
      using assms(1) sum_list_update_add [OF i, of holding w] unfolding pool_inv_def by (metis add_right_imp_eq)
    have queue: "tr_queue t = []" if "Finished \<in> set (?ws[i := w])"
    proof (cases "Finished \<in> set ?ws")
      case True
      then show ?thesis using assms(1) fetch_turn_queue(1) [OF wt] by (simp add: pool_inv_def)
    next
      case False
      have "w = Finished" using that False set_update_subset_insert [of ?ws i w] by auto
      moreover have "?ws ! i \<noteq> Finished" using False i by (metis nth_mem)
      ultimately show ?thesis using fetch_turn_queue(2) [OF wt] by simp
    qed
    have "p \<in> set (tr_queue t @ tr_busy t) \<or> tr_status t ! p \<in> {2, 3}" if "p < n" for p
      using step assms(1,2) that transfer_step_settled [of ssl hashes ?t t p] by (auto simp: pool_inv_def)
    then have "pool_inv n ?po'" using busy queue by (simp add: pool_inv_def po')
    then show ?thesis using step by (simp add: po')
  qed (use assms(1) in \<open>simp add: pool_turn_def e\<close>)
  then show "(transfer_step ssl hashes)\<^sup>=\<^sup>= ?t (po_transfer ?po')" "pool_inv n ?po'" by simp_all
qed

lemma pool_run_refines:
  assumes "pool_inv n po" "length (tr_status (po_transfer po)) = n" "small_answers es"
  shows "(transfer_step ssl hashes)\<^sup>*\<^sup>* (po_transfer po) (po_transfer (pool_run ssl hashes peers es po)) \<and>
    pool_inv n (pool_run ssl hashes peers es po)"
  using assms
proof (induction es arbitrary: po)
  case (Cons e es)
  have e: "small_answers [e]" "small_answers es" using Cons.prems(3) by (auto simp: small_answers_def)
  let ?po = "pool_turn ssl hashes peers e po"
  note turn = pool_turn_refines [OF Cons.prems(1,2) e(1), of ssl hashes peers]
  have "length (tr_status (po_transfer ?po)) = n" using turn(1) Cons.prems(2) by (auto dest: length_status_step)
  from Cons.IH [OF turn(2) this e(2)] turn(1) show ?case
    by (auto simp: pool_run_def intro: converse_rtranclp_into_rtranclp)
qed (simp add: pool_run_def)

lemma sum_list_replicate_empty: "sum_list (replicate n {#}) = {#}"
  by (induction n) simp_all

lemma pool_inv_start: "pool_inv (length status) (start_pool peers f status)"
  by (auto simp: pool_inv_def start_pool_def pending_pieces_def sum_list_replicate_empty)

lemma remaining_start:
  "remaining peers (start_pool peers f status) = length (pending_pieces status) * piece_cost peers + num_workers (length status) peers"
  by (simp add: remaining_def start_pool_def rank_def sum_list_replicate)

lemma start_pool_fresh: "po_transfer (start_pool peers f (replicate n 0)) = fresh_transfer f n"
  by (simp add: start_pool_def fresh_transfer_def)

lemma ended_pool_is_settled:
  assumes "pool_inv n po" "po_workers po \<noteq> []" "\<forall>w \<in> set (po_workers po). w = Finished" "p < n"
  shows "tr_status (po_transfer po) ! p \<in> {2, 3}"
proof -
  have "Finished \<in> set (po_workers po)" using assms(2,3) by (cases "po_workers po") auto
  then have queue: "tr_queue (po_transfer po) = []" using assms(1) by (simp add: pool_inv_def)
  have "set_mset (mset (tr_busy (po_transfer po))) = (\<Union>w \<in> set (po_workers po). set_mset (holding w))"
    using assms(1) unfolding pool_inv_def by simp
  also have "\<dots> = {}" using assms(3) by auto
  finally have "tr_busy (po_transfer po) = []" by simp
  then show ?thesis using assms(1,4) queue by (simp add: pool_inv_def)
qed

section \<open>Property\<close>

text \<open>
  C27: Whatever the peers answer, whatever the disk does and however the threads interleave, the worker pool
  of a new download comes to an end once each of its workers has had more turns than a fixed bound linear in
  the number of pieces and of peers: then every piece is either given up, or recorded as completed and on
  disk at its offset with its published SHA-1; none is left in the queue or in progress.
\<close>

theorem pool_finishes:
  assumes "small_answers es" "0 < peers"
    and "\<forall>i < num_workers n peers. n * piece_cost peers + num_workers n peers < turns_of i es"
    and "po = pool_run ssl hashes peers es (start_pool peers f (replicate n 0))"
  shows "(\<forall>w \<in> set (po_workers po). w = Finished) \<and> (\<forall>p < n. tr_status (po_transfer po) ! p = 3 \<or>
    tr_status (po_transfer po) ! p = 2 \<and> (\<exists>data. sha1_hex ssl data = hashes ! p \<and>
      take (length data) (drop (p * kPieceSize) (tr_file (po_transfer po))) = data))"
proof -
  let ?po = "start_pool peers f (replicate n 0)"
  have workers: "length (po_workers po) = num_workers n peers" unfolding assms(4) by (simp add: start_pool_def)
  have "length (pending_pieces (replicate n 0)) \<le> n"
    using length_filter_le [of _ "[0..<n]"] by (simp add: pending_pieces_def)
  then have "remaining peers ?po \<le> n * piece_cost peers + num_workers n peers" by (simp add: remaining_start)
  then have "po_workers po ! i = Finished" if "i < num_workers n peers" for i
    using fair_run_ends [of i ?po peers es ssl hashes] assms(3) that by (fastforce simp: assms(4) start_pool_def)
  then have ended: "\<forall>w \<in> set (po_workers po). w = Finished" using workers by (metis in_set_conv_nth)
  have "pool_inv n ?po" "length (tr_status (po_transfer ?po)) = n"
    using pool_inv_start [of "replicate n 0"] by (simp_all add: start_pool_def)
  from pool_run_refines [OF this assms(1), of ssl hashes peers]
  have steps: "(transfer_step ssl hashes)\<^sup>*\<^sup>* (fresh_transfer f n) (po_transfer po)" and inv: "pool_inv n po"
    by (simp_all add: assms(4) start_pool_fresh)
  have "po_workers po \<noteq> []" using workers assms(2) by (auto simp: num_workers_def split: if_splits)
  from ended_pool_is_settled [OF inv this ended] completed_pieces_are_verified [OF steps]
  show ?thesis using ended by blast
qed

theorem pool_finishes_witness:
  "\<exists>po. po = pool_run demo_sha [sha1_hex demo_sha ''ab''] 1 (replicate 20 (0, Some ''ab'', Written)) (start_pool 1 ''00'' (replicate 1 0)) \<and>
     (\<forall>w \<in> set (po_workers po). w = Finished) \<and> tr_status (po_transfer po) ! 0 \<in> {2, 3}"
proof -
  have "small_answers (replicate 20 (0, Some ''ab'', Written))" by (simp add: small_answers_def kPieceSize_def)
  moreover have "turns_of 0 (replicate 20 (0, Some ''ab'', Written)) = 20" by (simp add: turns_of_def)
  ultimately show ?thesis
    using pool_finishes [of "replicate 20 (0, Some ''ab'', Written)" 1 1 _ demo_sha "[sha1_hex demo_sha ''ab'']" "''00''"]
    by (auto simp: num_workers_def piece_cost_def MAX_RETRIES_def)
qed

end
