(* ===== verification/Download_Swarm.thy ===== *)
theory Download_Swarm imports Download_Pool "HOL-Library.Infinite_Set"
begin

text \<open>
  The worker threads of theory Download_Pool driven by the network and a scheduler, as \<^verbatim>\<open>Downloader::run\<close>
  starts them: at every turn a worker asks the peer it has come to. The theory shows that with an honest
  peer for every piece any fair schedule completes the file, whatever the other peers answer, that a run
  of \<open>run\<close> with these threads then succeeds, and that a worker left alone does what \<open>work\<close> says.
\<close>

section \<open>A pool driven by the network\<close>

text \<open>
  What the turn of worker \<open>i\<close> meets at time \<open>k\<close>: the answer of the peer it asks, and what the disk does with
  the piece. A schedule says which worker each turn is given to.
\<close>

type_synonym peer_answers = "nat \<Rightarrow> nat \<Rightarrow> nat \<Rightarrow> string option"
type_synonym disk_answers = "nat \<Rightarrow> nat \<Rightarrow> nat \<Rightarrow> disk_result"

definition turn_event :: "peer_answers \<Rightarrow> disk_answers \<Rightarrow> nat \<Rightarrow> nat \<Rightarrow> pool \<Rightarrow> pool_event" where
  "turn_event ask dsk k i po =
     (if i < length (po_workers po)
      then (case po_workers po ! i of Fetching p (q # qs) a \<Rightarrow> (i, ask p k q, dsk p k q) | _ \<Rightarrow> (i, None, Written))
      else (i, None, Written))"

fun threads_run :: "openssl \<Rightarrow> string list \<Rightarrow> nat \<Rightarrow> peer_answers \<Rightarrow> disk_answers \<Rightarrow> nat \<Rightarrow> nat list \<Rightarrow> pool \<Rightarrow> pool" where
  "threads_run ssl hashes peers ask dsk k [] po = po"
| "threads_run ssl hashes peers ask dsk k (i # is) po =
     threads_run ssl hashes peers ask dsk (k + 1) is (pool_turn ssl hashes peers (turn_event ask dsk k i po) po)"

fun turn_events :: "openssl \<Rightarrow> string list \<Rightarrow> nat \<Rightarrow> peer_answers \<Rightarrow> disk_answers \<Rightarrow> nat \<Rightarrow> nat list \<Rightarrow> pool \<Rightarrow> pool_event list" where
  "turn_events ssl hashes peers ask dsk k [] po = []"
| "turn_events ssl hashes peers ask dsk k (i # is) po =
     turn_event ask dsk k i po #
     turn_events ssl hashes peers ask dsk (k + 1) is (pool_turn ssl hashes peers (turn_event ask dsk k i po) po)"

lemma fst_turn_event [simp]: "fst (turn_event ask dsk k i po) = i"
  by (simp add: turn_event_def split: worker.split list.split)

lemma threads_run_events:
  "threads_run ssl hashes peers ask dsk k sched po = pool_run ssl hashes peers (turn_events ssl hashes peers ask dsk k sched po) po"
  by (induction sched arbitrary: k po) (simp_all add: pool_run_def)

lemma turns_of_events: "turns_of i (turn_events ssl hashes peers ask dsk k sched po) = length (filter (\<lambda>j. j = i) sched)"
  by (induction sched arbitrary: k po) (simp_all add: turns_of_def)

lemma small_turn_event:
  "\<forall>p k q data. ask p k q = Some data \<longrightarrow> length data \<le> kPieceSize \<Longrightarrow>
   turn_event ask dsk k i po = (j, Some data, dk) \<Longrightarrow> length data \<le> kPieceSize"
  by (auto simp: turn_event_def split: if_splits worker.splits list.splits)

lemma small_turn_events:
  "\<forall>p k q data. ask p k q = Some data \<longrightarrow> length data \<le> kPieceSize \<Longrightarrow>
   small_answers (turn_events ssl hashes peers ask dsk k sched po)"
  by (induction sched arbitrary: k po) (auto simp: small_answers_def dest: small_turn_event [rotated])

text \<open>Once every worker has ended, further turns change nothing.\<close>

lemma ended_pool_stays: "\<forall>w \<in> set (po_workers po). w = Finished \<Longrightarrow> pool_run ssl hashes peers es po = po"
proof (induction es)
  case (Cons e es)
  then have "\<not> effective e po" by (auto simp: effective_def)
  then show ?case using Cons by (simp add: pool_run_def ineffective_same)
qed (simp add: pool_run_def)

section \<open>An honest peer for every piece\<close>

text \<open>Whenever peer \<open>h p\<close> is asked for piece \<open>p\<close> it delivers data of the right hash, and the disk takes it.\<close>

definition honest :: "openssl \<Rightarrow> string list \<Rightarrow> nat \<Rightarrow> nat \<Rightarrow> peer_answers \<Rightarrow> disk_answers \<Rightarrow> (nat \<Rightarrow> nat) \<Rightarrow> bool" where
  "honest ssl hashes peers n ask dsk h \<longleftrightarrow> (\<forall>p < n. h p < peers \<and>
     (\<forall>k. \<exists>data. ask p k (h p) = Some data \<and> sha1_hex ssl data = hashes ! p \<and> dsk p k (h p) = Written))"

fun will_ask :: "nat \<Rightarrow> (nat \<Rightarrow> nat) \<Rightarrow> worker \<Rightarrow> bool" where
  "will_ask n h (Fetching p qs a) \<longleftrightarrow> p < n \<and> h p \<in> set qs"
| "will_ask n h Waiting \<longleftrightarrow> True"
| "will_ask n h Finished \<longleftrightarrow> True"

definition hopeful :: "nat \<Rightarrow> (nat \<Rightarrow> nat) \<Rightarrow> pool \<Rightarrow> bool" where
  "hopeful n h po \<longleftrightarrow> (\<forall>w \<in> set (po_workers po). will_ask n h w) \<and> (\<forall>p \<in> set (tr_queue (po_transfer po)). p < n) \<and>
     3 \<notin> set (tr_status (po_transfer po))"

lemma set_peer_order: "set (peer_order i n) = {..<n}"
  by (simp add: peer_order_def atLeast_upt)

lemma fetch_turn_hopeful:
  assumes "fetch_turn ssl hashes order ans dk w t = (w', t')" "will_ask n h w"
    and "\<forall>p \<in> set (tr_queue t). p < n" "3 \<notin> set (tr_status t)" "\<forall>p < n. h p \<in> set order"
    and "\<And>p qs a. w = Fetching p (h p # qs) a \<Longrightarrow> p < n \<Longrightarrow> \<exists>data. ans = Some data \<and> sha1_hex ssl data = hashes ! p \<and> dk = Written"
  shows "will_ask n h w' \<and> (\<forall>p \<in> set (tr_queue t'). p < n) \<and> 3 \<notin> set (tr_status t')"
proof (cases "(ssl, hashes, order, ans, dk, w, t)" rule: fetch_turn.cases)
  case (2 ssl' hs order' ans' dk' t'')
  then show ?thesis using assms(1,3,4,5)
    by (auto split: list.splits dest!: set_update_subset_insert [THEN subsetD])
next
  case (3 ssl' hs order' ans' dk' p a t'')
  then show ?thesis using assms(2) by simp
next
  case (4 ssl' hs order' ans' dk' p q qs a t'')
  show ?thesis
  proof (cases "q = h p")
    case True
    then show ?thesis using assms(1-4) assms(6) [of p qs a] 4
      by (auto simp: completed_def dest!: set_update_subset_insert [THEN subsetD])
  next
    case False
    then show ?thesis using assms(1-4) 4
      by (auto simp: completed_def split: option.splits if_splits disk_result.splits dest!: set_update_subset_insert [THEN subsetD])
  qed
qed (use assms in auto)

lemma pool_turn_hopeful:
  assumes "honest ssl hashes peers n ask dsk h" "hopeful n h po"
  shows "hopeful n h (pool_turn ssl hashes peers (turn_event ask dsk k i po) po)"
proof (cases "i < length (po_workers po)")
  case True
  obtain ans dk where e: "turn_event ask dsk k i po = (i, ans, dk)" using fst_turn_event by (metis prod.collapse)
  obtain w t where wt: "fetch_turn ssl hashes (peer_order i peers) ans dk (po_workers po ! i) (po_transfer po) = (w, t)" by fastforce
  have "will_ask n h (po_workers po ! i)" using assms(2) True by (simp add: hopeful_def)
  moreover have "\<exists>data. ans = Some data \<and> sha1_hex ssl data = hashes ! p \<and> dk = Written"
    if "po_workers po ! i = Fetching p (h p # qs) a" "p < n" for p qs a
    using e that True assms(1) by (auto simp: turn_event_def honest_def)
  ultimately have "will_ask n h w \<and> (\<forall>p \<in> set (tr_queue t). p < n) \<and> 3 \<notin> set (tr_status t)"
    using assms by (intro fetch_turn_hopeful [OF wt]) (auto simp: hopeful_def honest_def set_peer_order)
  then show ?thesis using assms(2) True e wt
    by (auto simp: hopeful_def pool_turn_def dest!: set_update_subset_insert [THEN subsetD])
next
  case False
  then show ?thesis using assms(2) by (simp add: pool_turn_def turn_event_def)
qed

lemma threads_run_hopeful:
  assumes "honest ssl hashes peers n ask dsk h"
  shows "hopeful n h po \<Longrightarrow> hopeful n h (threads_run ssl hashes peers ask dsk k sched po)"
  by (induction sched arbitrary: k po) (simp_all add: pool_turn_hopeful [OF assms])

section \<open>Fair schedules\<close>

text \<open>There are at most eight workers; a fair schedule gives each of them turns for ever.\<close>

definition fair_schedule :: "(nat \<Rightarrow> nat) \<Rightarrow> bool" where
  "fair_schedule sched \<longleftrightarrow> (\<forall>i < 8. infinite {k. sched k = i})"

lemma num_workers_bound: "num_workers n peers \<le> 8"
  by (auto simp: num_workers_def min_def)

lemma turns_card: "length (filter (\<lambda>j. j = i) (map sched [0..<m])) = card {k. k < m \<and> sched k = i}"
proof (induction m)
  case (Suc m)
  have "{k. k < Suc m \<and> sched k = i} = (if sched m = i then insert m {k. k < m \<and> sched k = i} else {k. k < m \<and> sched k = i})"
    by (auto simp: less_Suc_eq)
  then show ?case using Suc by simp
qed simp

lemma infinite_many_turns:
  fixes sched :: "nat \<Rightarrow> nat"
  assumes "infinite {k. sched k = i}"
  shows "\<exists>N. \<forall>m \<ge> N. b < card {k. k < m \<and> sched k = (i :: nat)}"
proof -
  obtain A where A: "finite A" "card A = Suc b" "A \<subseteq> {k. sched k = i}"
    using infinite_arbitrarily_large [OF assms] by blast
  then obtain N where N: "\<forall>k \<in> A. k < N" using finite_nat_set_iff_bounded [of A] by blast
  have "b < card {k. k < m \<and> sched k = i}" if "N \<le> m" for m
  proof -
    have "A \<subseteq> {k. k < m \<and> sched k = i}" using A(3) N that by auto
    then have "card A \<le> card {k. k < m \<and> sched k = i}" by (intro card_mono) simp_all
    then show ?thesis using A(2) by simp
  qed
  then show ?thesis by blast
qed

lemma fair_turns:
  assumes "fair_schedule sched"
  shows "\<exists>N. \<forall>m \<ge> N. \<forall>i < 8. b < length (filter (\<lambda>j. j = i) (map sched [0..<m]))"
proof -
  have "\<forall>i \<in> {..<8}. \<exists>N. \<forall>m \<ge> N. b < card {k. k < m \<and> sched k = i}"
    using assms infinite_many_turns unfolding fair_schedule_def by (metis lessThan_iff)
  then obtain N where N: "\<forall>i \<in> {..<8}. \<forall>m \<ge> N i. b < card {k. k < m \<and> sched k = i}" by metis
  have "N i \<le> Max (N ` {..<8})" if "i < 8" for i using that by (intro Max_ge) auto
  then show ?thesis using N by (intro exI [of _ "Max (N ` {..<8})"]) (auto simp only: turns_card lessThan_iff dest: order_trans)
qed

lemma round_robin_fair: "fair_schedule (\<lambda>k. k mod 8)"
proof -
  have "\<exists>n\<ge>m. n mod 8 = i" if "i < 8" for m i :: nat
    using that by (intro exI [of _ "8 * m + i"]) simp
  then show ?thesis by (auto simp: fair_schedule_def infinite_nat_iff_unbounded_le)
qed

text \<open>
  The workers of a download of a published file, driven by a fair schedule with an honest peer for every
  piece: from some turn on they have all ended, every piece is completed, and the file is the publisher's.
\<close>

definition downloading :: "openssl \<Rightarrow> string \<Rightarrow> nat \<Rightarrow> peer_answers \<Rightarrow> disk_answers \<Rightarrow> nat list \<Rightarrow> pool" where
  "downloading ssl c peers ask dsk sched = threads_run ssl (piece_list ssl c) peers ask dsk 0 sched
     (start_pool peers (preallocate (int (length c)) None) (replicate (piece_count (length c)) 0))"

lemma hopeful_start: "hopeful n h (start_pool peers f (replicate n 0))"
  by (auto simp: hopeful_def start_pool_def pending_pieces_def)

lemma pool_length_status:
  assumes "pool_inv n po" "length (tr_status (po_transfer po)) = n" "small_answers es"
  shows "length (tr_status (po_transfer (pool_run ssl hashes peers es po))) = n"
proof -
  have "(transfer_step ssl hashes)\<^sup>*\<^sup>* (po_transfer po) (po_transfer (pool_run ssl hashes peers es po))"
    using pool_run_refines [OF assms] by blast
  then show ?thesis using assms(2) by (induction rule: rtranclp_induct) (simp_all add: length_status_step)
qed

lemma honest_threads_deliver:
  assumes "collision_free ssl c" "\<forall>p k q data. ask p k q = Some data \<longrightarrow> length data \<le> kPieceSize" "0 < peers"
    and "honest ssl (piece_list ssl c) peers (piece_count (length c)) ask dsk h" "fair_schedule sched"
  shows "\<exists>N. \<forall>m \<ge> N. let t = po_transfer (downloading ssl c peers ask dsk (map sched [0..<m])) in
    tr_file t = c \<and> length (tr_status t) = piece_count (length c) \<and> (\<forall>s \<in> set (tr_status t). s = 2)"
proof -
  let ?n = "piece_count (length c)" and ?hs = "piece_list ssl c"
  let ?start = "start_pool peers (preallocate (int (length c)) None) (replicate ?n 0)"
  obtain N where N: "\<forall>m \<ge> N. \<forall>i < 8. remaining peers ?start < length (filter (\<lambda>j. j = i) (map sched [0..<m]))"
    using fair_turns [OF assms(5)] by blast
  have "tr_file t = c \<and> length (tr_status t) = ?n \<and> (\<forall>s \<in> set (tr_status t). s = 2)"
    if m: "N \<le> m" and t: "t = po_transfer (downloading ssl c peers ask dsk (map sched [0..<m]))" for m t
  proof -
    let ?es = "turn_events ssl ?hs peers ask dsk 0 (map sched [0..<m]) ?start"
    let ?po = "pool_run ssl ?hs peers ?es ?start"
    have po: "t = po_transfer ?po" unfolding t downloading_def threads_run_events ..
    have start: "pool_inv ?n ?start" "length (tr_status (po_transfer ?start)) = ?n"
      using pool_inv_start [of "replicate ?n 0"] by (simp_all add: start_pool_def)
    have small: "small_answers ?es" by (rule small_turn_events [OF assms(2)])
    note ref = pool_run_refines [OF start small, of ssl ?hs peers]
    have workers: "length (po_workers ?po) = num_workers ?n peers"
      by (simp only: length_pool_run) (simp add: start_pool_def)
    have "po_workers ?po ! i = Finished" if "i < num_workers ?n peers" for i
      using that N m num_workers_bound [of ?n peers]
      by (intro fair_run_ends) (simp_all add: turns_of_events start_pool_def)
    then have ended: "\<forall>w \<in> set (po_workers ?po). w = Finished" using workers by (metis in_set_conv_nth)
    moreover have "0 < num_workers ?n peers" using assms(3) by (simp add: num_workers_def)
    ultimately have "po_workers ?po \<noteq> []" using workers by (metis length_0_conv less_irrefl)
    then have "tr_status t ! p \<in> {2, 3}" if "p < ?n" for p
      using ended_pool_is_settled [OF conjunct2 [OF ref] _ ended that] unfolding po by blast
    moreover have "hopeful ?n h ?po"
      using threads_run_hopeful [OF assms(4) hopeful_start] unfolding threads_run_events [symmetric] .
    then have "3 \<notin> set (tr_status t)" by (simp add: po hopeful_def)
    moreover have len: "length (tr_status t) = ?n" unfolding po by (rule pool_length_status [OF start small])
    ultimately have all2: "\<forall>s \<in> set (tr_status t). s = 2" by (metis in_set_conv_nth insertE singletonD)
    have "(transfer_step ssl ?hs)\<^sup>*\<^sup>* (fresh_transfer (preallocate (int (length c)) None) ?n) t"
      using conjunct1 [OF ref] unfolding po start_pool_fresh .
    from download_delivers_the_file [OF assms(1) this all2] show ?thesis using len all2 by blast
  qed
  then show ?thesis by (intro exI [of _ N]) (simp add: Let_def)
qed

text \<open>What the threads make of the file and the piece states, after the turns of a schedule.\<close>

definition thread_pool :: "openssl \<Rightarrow> network \<Rightarrow> disk_answers \<Rightarrow> string \<Rightarrow> nat list \<Rightarrow> workers" where
  "thread_pool ssl net dsk fname sched hashes peers s =
     (case s of (f, status) \<Rightarrow>
        let t = po_transfer (threads_run ssl hashes (length peers) (\<lambda>p k q. ask_peer net k fname p (peers ! q)) dsk 0 sched
              (start_pool (length peers) f status))
        in (tr_file t, tr_status t))"

lemma ask_peer_length: "ask_peer net r fname p peer = Some d \<Longrightarrow> length d \<le> kPieceSize"
  by (auto simp: ask_peer_def split: prod.splits option.splits if_splits)

lemma thread_pool_delivers:
  assumes "collision_free ssl c" "fair_schedule sched" "peers \<noteq> []"
    and "\<forall>p < piece_count (length c). \<exists>q < length peers. \<forall>k. ask_peer net k fname p (peers ! q) = Some (piece_at c p) \<and> dsk p k q = Written"
  shows "\<exists>N. \<forall>m \<ge> N. \<exists>status. thread_pool ssl net dsk fname (map sched [0..<m]) (piece_list ssl c) peers
      (preallocate (int (length c)) None, replicate (piece_count (length c)) 0) = (c, status) \<and>
    length status = piece_count (length c) \<and> (\<forall>s \<in> set status. s = 2)"
proof -
  let ?ask = "\<lambda>p k q. ask_peer net k fname p (peers ! q)"
  obtain h where h: "\<forall>p < piece_count (length c). h p < length peers \<and> (\<forall>k. ?ask p k (h p) = Some (piece_at c p) \<and> dsk p k (h p) = Written)"
    using assms(4) by metis
  have "honest ssl (piece_list ssl c) (length peers) (piece_count (length c)) ?ask dsk h"
    using h by (simp add: honest_def piece_list_def)
  from honest_threads_deliver [OF assms(1) _ _ this assms(2)]
  obtain N where "\<forall>m \<ge> N. let t = po_transfer (downloading ssl c (length peers) ?ask dsk (map sched [0..<m])) in
      tr_file t = c \<and> length (tr_status t) = piece_count (length c) \<and> (\<forall>s \<in> set (tr_status t). s = 2)"
    using ask_peer_length assms(3) by blast
  then show ?thesis by (intro exI [of _ N]) (simp add: thread_pool_def downloading_def Let_def)
qed

section \<open>A worker left alone\<close>

text \<open>
  \<open>solo_turn\<close>: a turn of one worker when peer \<open>q\<close> always answers a request for piece \<open>p\<close> with \<open>ask p q\<close>, and the
  disk takes it as \<open>dsk p q\<close> says. Left alone, it empties the queue exactly as \<open>work\<close> does.
\<close>

fun solo_turn ::
  "openssl \<Rightarrow> string list \<Rightarrow> nat list \<Rightarrow> (nat \<Rightarrow> nat \<Rightarrow> string option) \<Rightarrow> (nat \<Rightarrow> nat \<Rightarrow> disk_result) \<Rightarrow>
   worker \<times> transfer \<Rightarrow> worker \<times> transfer" where
  "solo_turn ssl hashes order ask dsk (Fetching p (q # qs) a, t) =
     fetch_turn ssl hashes order (ask p q) (dsk p q) (Fetching p (q # qs) a) t"
| "solo_turn ssl hashes order ask dsk (w, t) = fetch_turn ssl hashes order None Written w t"

definition gets_to :: "('s \<Rightarrow> 's) \<Rightarrow> 's \<Rightarrow> 's \<Rightarrow> bool" where
  "gets_to f s s' \<longleftrightarrow> (\<exists>m. (f ^^ m) s = s')"

lemma gets_to_refl: "gets_to f s s"
  unfolding gets_to_def by (rule exI [of _ 0]) simp

lemma gets_to_step: "gets_to f (f s) s' \<Longrightarrow> gets_to f s s'"
  unfolding gets_to_def by (metis comp_apply funpow_Suc_right)

lemma gets_to_trans: "gets_to f a b \<Longrightarrow> gets_to f b c \<Longrightarrow> gets_to f a c"
  unfolding gets_to_def by (metis comp_apply funpow_add)

lemma solo_peers:
  assumes "try_peers ssl (hashes ! p) (p * kPieceSize) (ask p) (dsk p) qs (tr_file t) a = (f', a', ok)"
  shows "gets_to (solo_turn ssl hashes order ask dsk) (Fetching p qs a, t)
    (if ok then (Waiting, completed p 2 (t\<lparr>tr_file := f'\<rparr>)) else (Fetching p [] a', t\<lparr>tr_file := f'\<rparr>))"
  using assms
proof (induction qs arbitrary: a t)
  case Nil
  then show ?case by (auto intro: gets_to_refl)
next
  case (Cons q qs)
  have step: "gets_to (solo_turn ssl hashes order ask dsk) (Fetching p (q # qs) a, t) s"
    if "gets_to (solo_turn ssl hashes order ask dsk) (fetch_turn ssl hashes order (ask p q) (dsk p q) (Fetching p (q # qs) a) t) s" for s
    using that by - (rule gets_to_step, simp)
  have next_peer: ?case
    if "fetch_turn ssl hashes order (ask p q) (dsk p q) (Fetching p (q # qs) a) t = (Fetching p qs b, t\<lparr>tr_file := g\<rparr>)"
      "try_peers ssl (hashes ! p) (p * kPieceSize) (ask p) (dsk p) qs g b = (f', a', ok)" for b g
  proof (rule step, unfold that(1))
    show "gets_to (solo_turn ssl hashes order ask dsk) (Fetching p qs b, t\<lparr>tr_file := g\<rparr>)
      (if ok then (Waiting, completed p 2 (t\<lparr>tr_file := f'\<rparr>)) else (Fetching p [] a', t\<lparr>tr_file := f'\<rparr>))"
      using Cons.IH [of "t\<lparr>tr_file := g\<rparr>" b] that(2) by (cases ok) simp_all
  qed
  show ?case
  proof (cases "\<exists>data. ask p q = Some data \<and> sha1_hex ssl data = hashes ! p")
    case False
    then show ?thesis using Cons.prems next_peer [of a "tr_file t"] next_peer [of "a + 1" "tr_file t"]
      by (auto split: option.splits if_splits)
  next
    case True
    then obtain data where d: "ask p q = Some data" "sha1_hex ssl data = hashes ! p" by blast
    show ?thesis
    proof (cases "dsk p q")
      case Written
      then show ?thesis using Cons.prems d by (intro step) (auto intro: gets_to_refl)
    next
      case (Short_write k)
      then show ?thesis using Cons.prems d
        by (intro next_peer [of "a + 1" "write_at (p * kPieceSize) (take k data) (tr_file t)"]) auto
    next
      case (Flush_fails k)
      then show ?thesis using Cons.prems d
        by (intro next_peer [of "a + 1" "write_at (p * kPieceSize) (take k data) (tr_file t)"]) auto
    next
      case Cannot_open
      then show ?thesis using Cons.prems d by (intro next_peer [of "a + 1" "tr_file t"]) auto
    next
      case Cannot_seek
      then show ?thesis using Cons.prems d by (intro next_peer [of "a + 1" "tr_file t"]) auto
    qed
  qed
qed

lemma solo_piece:
  assumes "a < MAX_RETRIES"
    and "fetch_piece r ssl (hashes ! p) (p * kPieceSize) (\<lambda>r. ask p) (\<lambda>r. dsk p) order (tr_file t) a = (f', ok)"
  shows "gets_to (solo_turn ssl hashes order ask dsk) (Fetching p order a, t)
    (Waiting, completed p (if ok then 2 else 3) (t\<lparr>tr_file := f'\<rparr>))"
  using assms
proof (induction "MAX_RETRIES - a" arbitrary: r t a rule: less_induct)
  case less
  obtain f1 a1 ok1 where t1: "try_peers ssl (hashes ! p) (p * kPieceSize) (ask p) (dsk p) order (tr_file t) a = (f1, a1, ok1)"
    by (cases "try_peers ssl (hashes ! p) (p * kPieceSize) (ask p) (dsk p) order (tr_file t) a") auto
  note peers = solo_peers [where hashes = hashes and p = p and ask = ask and dsk = dsk and t = t and order = order, OF t1]
  show ?case
  proof (cases ok1)
    case True
    then show ?thesis using peers less.prems t1 by (simp add: fetch_piece.simps [of r])
  next
    case False
    let ?t = "t\<lparr>tr_file := f1\<rparr>"
    have rest: "fetch_piece (r + 1) ssl (hashes ! p) (p * kPieceSize) (\<lambda>r. ask p) (\<lambda>r. dsk p) order (tr_file ?t) (a1 + 1) = (f', ok)"
      using less.prems t1 False by (simp add: fetch_piece.simps [of r])
    have "gets_to (solo_turn ssl hashes order ask dsk) (Fetching p [] a1, ?t) (Waiting, completed p (if ok then 2 else 3) (t\<lparr>tr_file := f'\<rparr>))"
    proof (cases "a1 + 1 < MAX_RETRIES")
      case True
      have "MAX_RETRIES - (a1 + 1) < MAX_RETRIES - a" using try_peers_attempts [OF t1] less.prems(1) by linarith
      from less.hyps [OF this True rest] True show ?thesis by - (rule gets_to_step, simp)
    next
      case False
      then have "f' = f1" "\<not> ok" using rest fetch_piece.simps [of "r + 1" ssl "hashes ! p" "p * kPieceSize" "\<lambda>r. ask p" "\<lambda>r. dsk p" order f1 "a1 + 1"]
        by simp_all
      then show ?thesis using False by - (rule gets_to_step, simp add: gets_to_refl)
    qed
    moreover have "gets_to (solo_turn ssl hashes order ask dsk) (Fetching p order a, t) (Fetching p [] a1, ?t)"
      using peers False by simp
    ultimately show ?thesis by (rule gets_to_trans [rotated])
  qed
qed

lemma solo_work:
  assumes "work ssl hashes (\<lambda>p r. ask p) (\<lambda>p r. dsk p) order (tr_queue t) (tr_file t, tr_status t) = (f', st')"
  shows "gets_to (solo_turn ssl hashes order ask dsk) (Waiting, t) (Finished, t\<lparr>tr_file := f', tr_status := st', tr_queue := []\<rparr>)"
  using assms
proof (induction "tr_queue t" arbitrary: t)
  case Nil
  then show ?case by - (rule gets_to_step, cases t, simp add: gets_to_refl)
next
  case (Cons p ps)
  have q: "tr_queue t = p # ps" using Cons.hyps(2) by simp
  let ?t1 = "t\<lparr>tr_queue := ps, tr_busy := p # tr_busy t, tr_status := (tr_status t)[p := 1]\<rparr>"
  obtain f1 ok where f: "fetch_piece 0 ssl (hashes ! p) (p * kPieceSize) (\<lambda>r. ask p) (\<lambda>r. dsk p) order (tr_file ?t1) 0 = (f1, ok)"
    by (cases "fetch_piece 0 ssl (hashes ! p) (p * kPieceSize) (\<lambda>r. ask p) (\<lambda>r. dsk p) order (tr_file ?t1) 0") auto
  let ?s = "(if ok then 2 else 3) :: int"
  let ?t2 = "t\<lparr>tr_file := f1, tr_queue := ps, tr_status := (tr_status t)[p := ?s]\<rparr>"
  have pop: "gets_to (solo_turn ssl hashes order ask dsk) (Waiting, t) (Fetching p order 0, ?t1)"
    using q by - (rule gets_to_step, simp add: gets_to_refl)
  have fetched: "gets_to (solo_turn ssl hashes order ask dsk) (Fetching p order 0, ?t1) (Waiting, ?t2)"
    using solo_piece [where hashes = hashes and p = p and ask = ask and dsk = dsk and t = ?t1, OF _ f]
    by (cases t; cases ok) (simp_all add: MAX_RETRIES_def completed_def)
  have "gets_to (solo_turn ssl hashes order ask dsk) (Waiting, ?t2) (Finished, ?t2\<lparr>tr_file := f', tr_status := st', tr_queue := []\<rparr>)"
    using Cons.prems f q by (intro Cons.hyps(1)) simp_all
  from gets_to_trans [OF pop gets_to_trans [OF fetched this]] show ?case by simp
qed

text \<open>A turn of the pool that is given to worker \<open>i\<close> is such a turn.\<close>

lemma solo_threads:
  assumes "i < length (po_workers po)"
  shows "(solo_turn ssl hashes (peer_order i peers) ask dsk ^^ m) (po_workers po ! i, po_transfer po) = (w, t) \<Longrightarrow>
    threads_run ssl hashes peers (\<lambda>p k. ask p) (\<lambda>p k. dsk p) k (replicate m i) po = \<lparr>po_transfer = t, po_workers = (po_workers po)[i := w]\<rparr>"
  using assms
proof (induction m arbitrary: k po)
  case (Suc m)
  let ?po = "pool_turn ssl hashes peers (turn_event (\<lambda>p k. ask p) (\<lambda>p k. dsk p) k i po) po"
  obtain w1 t1 where s: "solo_turn ssl hashes (peer_order i peers) ask dsk (po_workers po ! i, po_transfer po) = (w1, t1)" by fastforce
  have po: "?po = \<lparr>po_transfer = t1, po_workers = (po_workers po)[i := w1]\<rparr>"
    using s Suc.prems(2)
    by (cases "(ssl, hashes, peer_order i peers, ask, dsk, po_workers po ! i, po_transfer po)" rule: solo_turn.cases)
      (auto simp: pool_turn_def turn_event_def)
  have "(solo_turn ssl hashes (peer_order i peers) ask dsk ^^ m) (po_workers ?po ! i, po_transfer ?po) = (w, t)"
    using Suc.prems s by (simp add: po funpow_swap1)
  from Suc.IH [OF this] Suc.prems(2) show ?case by (simp add: po)
next
  case 0
  then show ?case by (cases po) (auto simp: list_update_id)
qed

section \<open>Properties\<close>

text \<open>
  A worker that is given every turn does what the loop \<open>work\<close> of theory Downloader does: it pops the
  pieces of the queue one after the other, tries the peers in its own order and at most five rounds, and
  ends with the same file and the same piece states, the other workers not having started (for answers that
  are the same each time a piece is asked of a peer).
\<close>

lemma lone_worker_is_work:
  assumes "i < length (po_workers po)" "po_workers po ! i = Waiting"
    and "work ssl hashes (\<lambda>p r. ask p) (\<lambda>p r. dsk p) (peer_order i peers) (tr_queue (po_transfer po))
      (tr_file (po_transfer po), tr_status (po_transfer po)) = (f', st')"
  shows "\<exists>m. threads_run ssl hashes peers (\<lambda>p k. ask p) (\<lambda>p k. dsk p) k (replicate m i) po =
    \<lparr>po_transfer = (po_transfer po)\<lparr>tr_file := f', tr_status := st', tr_queue := []\<rparr>, po_workers = (po_workers po)[i := Finished]\<rparr>"
proof -
  obtain m where "(solo_turn ssl hashes (peer_order i peers) ask dsk ^^ m) (po_workers po ! i, po_transfer po) =
      (Finished, (po_transfer po)\<lparr>tr_file := f', tr_status := st', tr_queue := []\<rparr>)"
    using solo_work [OF assms(3)] unfolding gets_to_def assms(2) by blast
  from solo_threads [OF assms(1) this] show ?thesis by blast
qed

text \<open>
  C25: With an honest swarm a download succeeds: if the tracker answers with the metadata of a file and a
  peer list, every piece can be had from at least one honest peer (others may lie or be down), and the
  disk works, then under every fair schedule of the worker threads the run ends as complete after finitely
  many turns, the publisher's file is on disk byte for byte, it is registered for serving, and the tracker
  is told.
\<close>

theorem honest_swarm_delivers:
  assumes "collision_free ssl c" "fair_schedule sched"
    and "\<forall>p < piece_count (length c). \<exists>q < length (parse_peers reply). \<forall>k.
      ask_peer net k fname p (parse_peers reply ! q) = Some (piece_at c p) \<and> dsk p k q = Written"
    and "tc_open tc" "link (''download_file '' @ tc_token tc @ '' '' @ gid @ '' '' @ fname) (re_link e) = (w, Some reply)"
    and "take 5 reply = ''FILE ''" "parse_peers reply \<noteq> []"
    and "parse_meta reply = Some (\<lparr>rm_size = int (length c), rm_fullhash = sha1_hex ssl c,
           rm_pieces = int (piece_count (length c))\<rparr>, piece_list ssl c)"
    and "out_opens io" "out_seeks io" "out_puts io"
    and "re_fs e (dest_file destpath fname) = None" "re_statefiles e (dest_file destpath fname @ ''.downloading'') = None"
  shows "\<exists>N. \<forall>m \<ge> N. \<exists>e'. run ssl link io opens (thread_pool ssl net dsk fname (map sched [0..<m])) gid fname destpath tc e
      = (e', Ended Complete) \<and>
    re_fs e' (dest_file destpath fname) = Some (Readable c) \<and>
    registry_path_for fname (re_registry e') = Some (dest_file destpath fname) \<and>
    re_link e' = fst (tc_send link (''file_downloaded '' @ tc_token tc @ '' '' @ gid @ '' '' @ fname) tc w)"
proof -
  obtain N where N: "\<forall>m \<ge> N. \<exists>status. thread_pool ssl net dsk fname (map sched [0..<m]) (piece_list ssl c) (parse_peers reply)
      (preallocate (int (length c)) None, replicate (piece_count (length c)) 0) = (c, status) \<and>
    length status = piece_count (length c) \<and> (\<forall>s \<in> set status. s = 2)"
    using thread_pool_delivers [OF assms(1,2,7,3)] by blast
  show ?thesis
  proof (intro exI [of _ N] allI impI)
    fix m assume "N \<le> m"
    then obtain status where "thread_pool ssl net dsk fname (map sched [0..<m]) (piece_list ssl c) (parse_peers reply)
        (preallocate (int (length c)) None, replicate (piece_count (length c)) 0) = (c, status)"
      "length status = piece_count (length c)" "\<forall>s \<in> set status. s = 2" using N by blast
    from completing_run [where link = link and gid = gid and fname = fname and e = e and io = io and destpath = destpath
        and reply = reply and tc = tc and ssl = ssl and c = c and w = w
        and pool = "thread_pool ssl net dsk fname (map sched [0..<m])" and status = status, OF assms(4-13) this]
    show "\<exists>e'. run ssl link io opens (thread_pool ssl net dsk fname (map sched [0..<m])) gid fname destpath tc e
        = (e', Ended Complete) \<and>
      re_fs e' (dest_file destpath fname) = Some (Readable c) \<and>
      registry_path_for fname (re_registry e') = Some (dest_file destpath fname) \<and>
      re_link e' = fst (tc_send link (''file_downloaded '' @ tc_token tc @ '' '' @ gid @ '' '' @ fname) tc w)" .
  qed
qed

definition demo_network :: network where
  "demo_network r ip port req = Some ''ab''"

theorem honest_swarm_delivers_witness:
  "\<exists>m e'. run demo_sha demo_link demo_io True (thread_pool demo_sha demo_network (\<lambda>p k q. Written) ''f'' (map (\<lambda>k. k mod 8) [0..<m]))
      ''g'' ''f'' ''/d'' \<lparr>tc_open = True, tc_token = ''t''\<rparr> demo_env = (e', Ended Complete) \<and>
     re_fs e' ''/d/f'' = Some (Readable ''ab'')"
proof -
  have dest: "dest_file ''/d'' ''f'' = ''/d/f''" by (simp add: dest_file_def)
  have one: "piece_count (length ''ab'') = 1" using demo_pieces(1) by (simp add: numeral_2_eq_2)
  have l: "demo_link (''download_file '' @ tc_token \<lparr>tc_open = True, tc_token = ''t''\<rparr> @ '' '' @ ''g'' @ '' '' @ ''f'') (re_link demo_env) = (1, Some demo_reply)"
    by (simp add: demo_link_def demo_env_def)
  have p: "parse_peers demo_reply \<noteq> []" by (simp add: demo_reply_facts(2))
  have "parse_int ''5000'' = Some 5000" by code_simp
  then have h: "\<forall>p < piece_count (length ''ab''). \<exists>q < length (parse_peers demo_reply). \<forall>k.
      ask_peer demo_network k ''f'' p (parse_peers demo_reply ! q) = Some (piece_at ''ab'' p) \<and> Written = Written"
    unfolding one by (simp add: demo_reply_facts(2) ask_peer_def demo_network_def kPieceSize_def piece_at_def)
  from honest_swarm_delivers [where link = demo_link and gid = "''g''" and e = demo_env and io = demo_io and destpath = "''/d''"
      and opens = True and tc = "\<lparr>tc_open = True, tc_token = ''t''\<rparr>" and dsk = "\<lambda>p k q. Written",
      OF demo_pieces(3) round_robin_fair h _ l demo_reply_facts(1) p demo_meta]
  show ?thesis by (simp add: demo_io_def demo_env_def dest) blast
qed

end
