(* ===== verification/System.thy ===== *)
theory System imports Two_Trackers Addresses Client_Main Download_Swarm Tracker_Guarantees
begin

text \<open>
  The parts of the program put together: a client's connection to a tracker is a round of the tracker's
  \<open>managepeer\<close>, and a downloader's requests reach the peer server of the client that uploaded the file.
\<close>

section \<open>A client connected to a tracker\<close>

definition tracker_link :: "openssl \<Rightarrow> rng \<Rightarrow> int \<Rightarrow> (connection \<times> server) link" where
  "tracker_link ssl rand now msg w =
     (case managepeer_step ssl rand now (Received msg) (fst w) (snd w) of
        (sv, None, reply) \<Rightarrow> ((fst w, sv), reply)
      | (sv, Some cn, reply) \<Rightarrow> ((cn, sv), reply))"

lemma authenticated_lookup:
  "authenticates sess now t = Some u \<Longrightarrow> session_username_for now t sess = (sess, Some u)"
  by (auto simp: authenticates_def session_username_for_def session_lookup_def split: if_splits option.splits)

definition session_command :: "string \<Rightarrow> bool" where
  "session_command c \<longleftrightarrow> c \<notin> {''SYNC_REQ'', ''STATE'', ''create_user'', ''login'', ''logout''}"

text \<open>A session command with a live token is dispatched for the token's user.\<close>

lemma tracker_link_session:
  assumes "split_args msg = cmd # tok # ws" "session_command cmd" "authenticates (sv_sessions sv) now tok = Some u"
  shows "tracker_link ssl rand now msg (cn, sv) =
    ((cn, fst (dispatch_session (cmd # tok # ws) u sv)), Some (snd (dispatch_session (cmd # tok # ws) u sv)))"
proof -
  have "dispatch ssl rand now (cmd # tok # ws) ip msg sv = dispatch_session (cmd # tok # ws) u sv" for ip
    using assms(2) authenticated_lookup [OF assms(3)] by (simp add: dispatch_def session_command_def)
  then show ?thesis using assms(1,2)
    by (simp add: tracker_link_def managepeer_step_def Let_def session_command_def split: prod.split)
qed

lemma tc_send_session:
  assumes "tc_open tc" "split_args msg = cmd # tok # ws" "session_command cmd" "authenticates (sv_sessions sv) now tok = Some u"
  shows "tc_send (tracker_link ssl rand now) msg tc (cn, sv) =
    ((cn, fst (dispatch_session (cmd # tok # ws) u sv)), snd (dispatch_session (cmd # tok # ws) u sv))"
  using tracker_link_session [OF assms(2-4)] assms(1) by (simp add: tc_send_def)

section \<open>Uploading\<close>

lemma split_upload_message:
  assumes "is_word tok" "is_word gid" "is_word fname" "is_word h" "\<forall>x \<in> set hs. is_word x"
  shows "split_args (upload_message tok gid fname n h k hs) =
    [''upload_file'', tok, gid, fname, to_string (int n), h, to_string (int k)] @ hs"
proof -
  have "is_word ''upload_file''" by (simp add: is_word_def isspace_def)
  moreover have "upload_message tok gid fname n h k hs =
      ''upload_file'' @ spaced ([tok, gid, fname, to_string (int n), h, to_string (int k)] @ hs)"
    by (simp add: upload_message_def)
  moreover have "\<forall>v \<in> set ([tok, gid, fname, to_string (int n), h, to_string (int k)] @ hs). is_word v"
    using assms by (simp add: to_string_word)
  ultimately show ?thesis by (simp only: split_args_command) simp
qed

lemma basename_no_slash: "CHR ''/'' \<notin> set (basename path)"
  by (auto simp: basename_def dest: set_takeWhileD)

text \<open>The names an upload can have: a token, not a reserved name, no backslash.\<close>

definition good_name :: "string \<Rightarrow> bool" where
  "good_name f \<longleftrightarrow> is_word f \<and> f \<noteq> ''.'' \<and> f \<noteq> ''..'' \<and> CHR ''/'' \<notin> set f \<and> CHR 0x5C \<notin> set f"

lemma good_name_valid: "good_name f \<Longrightarrow> valid_filename f"
  by (simp add: good_name_def valid_filename_def)

text \<open>A file the client can publish: not empty, and small enough for the tracker's integers.\<close>

definition publishable :: "openssl \<Rightarrow> string \<Rightarrow> bool" where
  "publishable ssl c \<longleftrightarrow> c \<noteq> [] \<and> int (length c) + int kPieceSize - 1 \<le> LLONG_MAX \<and>
     int (piece_count (length c)) \<le> INT_MAX \<and> (\<forall>d. sha1_hex ssl d \<noteq> [])"

definition published_meta :: "openssl \<Rightarrow> string \<Rightarrow> file_meta \<Rightarrow> bool" where
  "published_meta ssl c fm \<longleftrightarrow> fm_size fm = int (length c) \<and> fullhash fm = sha1_hex ssl c \<and>
     num_pieces fm = int (piece_count (length c)) \<and> piece_hashes fm = piece_list ssl c"

definition group_member :: "tracker_state \<Rightarrow> string \<Rightarrow> string \<Rightarrow> bool" where
  "group_member st gid u \<longleftrightarrow> user_exists_locked st u \<and>
     (case map_of (st_groups st) gid of None \<Rightarrow> False | Some g \<Rightarrow> partofgroup g u)"

definition published :: "openssl \<Rightarrow> string \<Rightarrow> string \<Rightarrow> string \<Rightarrow> string \<Rightarrow> tracker_state \<Rightarrow> tracker_state \<Rightarrow> bool" where
  "published ssl gid fname c u st st' \<longleftrightarrow>
     st_peers st' = st_peers st \<and> st_groups st' = st_groups st \<and> group_has_file_locked st' gid fname \<and>
     (\<exists>fm. map_of (st_files st') (file_key gid fname) = Some fm \<and> published_meta ssl c fm \<and> u \<in> set (fm_peers fm))"

lemma upload_file_published:
  assumes "group_member st gid u" "valid_filename fname"
  shows "published ssl gid fname c u st
    (fst (upload_file gid fname u (int (length c)) (sha1_hex ssl c) (int (piece_count (length c))) (piece_list ssl c) st))"
proof -
  have "resize (piece_count (length c)) (piece_list ssl c) = piece_list ssl c"
    using resize_same [of "piece_list ssl c"] by (simp add: piece_list_def)
  then show ?thesis using assms
    by (auto simp: published_def published_meta_def group_member_def upload_file_def Let_def put_defs
        group_has_file_locked_def update_conv' split: option.splits)
qed

lemma piece_list_words: "\<forall>d. sha1_hex ssl d \<noteq> [] \<Longrightarrow> x \<in> set (piece_list ssl c) \<Longrightarrow> is_word x"
  using digest_hex_word [of "evp_sha1 ssl"] by (auto simp: piece_list_def sha1_hex_def)

lemma dispatch_upload_published:
  assumes "publishable ssl c" "group_member (sv_state sv) gid u" "valid_filename fname"
    and "comds = [cmd, tok, gid, fname, to_string (int (length c)), sha1_hex ssl c, to_string (int (piece_count (length c)))] @ piece_list ssl c"
  shows "published ssl gid fname c u (sv_state sv) (sv_state (fst (dispatch_upload comds u sv))) \<and>
    sv_sessions (fst (dispatch_upload comds u sv)) = sv_sessions sv"
proof -
  let ?n = "int (length c)" and ?k = "piece_count (length c)"
  have n: "parse_ll (to_string ?n) = Some ?n" "parse_int (to_string (int ?k)) = Some (int ?k)"
    using assms(1) by (simp_all add: publishable_def parse_ll_to_string parse_int_to_string LLONG_MIN_def INT_MIN_def kPieceSize_def)
  have "expected_pieces ?n = int ?k"
    using assms(1) expected_pieces_exact [of ?n]
    by (simp add: publishable_def piece_count_def zdiv_int kPieceSize_def of_nat_diff)
  then have "dispatch_upload comds u sv =
      reply_with (upload_file gid fname u ?n (sha1_hex ssl c) (int ?k) (piece_list ssl c) (sv_state sv)) sv"
    using n by (simp add: dispatch_upload_def assms(4) piece_list_def eval_nat_numeral)
  then show ?thesis
    using upload_file_published [OF assms(2,3)] by (simp add: reply_with_def)
qed

text \<open>The upload command of a logged-in member, from the prompt to the tracker's state.\<close>

definition may_upload :: "openssl \<Rightarrow> int \<Rightarrow> client \<Rightarrow> server \<Rightarrow> string \<Rightarrow> string \<Rightarrow> bool" where
  "may_upload ssl now cl sv gid u \<longleftrightarrow> cl_connected cl \<and> tc_open (cl_tracker cl) \<and>
     is_word (tc_token (cl_tracker cl)) \<and> is_word gid \<and>
     authenticates (sv_sessions sv) now (tc_token (cl_tracker cl)) = Some u \<and> group_member (sv_state sv) gid u"

lemma execute_upload:
  assumes "cl_connected cl" "ws \<noteq> []"
  shows "execute ssl fs link (''upload_file'' # gid # ws) cl w = do_upload ssl fs link (''upload_file'' # gid # ws) cl w"
  using assms by (simp add: execute_def require_login_def execute_session_def Let_def)

lemma upload_publishes:
  assumes "may_upload ssl now cl sv gid u" "ws \<noteq> []" "fs (join_words ws) = Some (Readable c)" "publishable ssl c"
    and "good_name (basename (join_words ws))"
    and "execute ssl fs (tracker_link ssl rand now) (''upload_file'' # gid # ws) cl (cn, sv) = ((cl', w), msg)"
  shows "\<exists>sv'. w = (cn, sv') \<and> cl' = cl\<lparr>cl_registry := registry_add (basename (join_words ws)) (join_words ws) (cl_registry cl)\<rparr> \<and>
    sv_sessions sv' = sv_sessions sv \<and> published ssl gid (basename (join_words ws)) c u (sv_state sv) (sv_state sv')"
proof -
  let ?path = "join_words ws" and ?tok = "tc_token (cl_tracker cl)"
  let ?f = "basename ?path" and ?k = "piece_count (length c)"
  let ?cl = "cl\<lparr>cl_registry := registry_add ?f ?path (cl_registry cl)\<rparr>"
  let ?msg = "upload_message ?tok gid ?f (length c) (sha1_hex ssl c) ?k (piece_list ssl c)"
  let ?ws = "[gid, ?f, to_string (int (length c)), sha1_hex ssl c, to_string (int ?k)] @ piece_list ssl c"
  note up = assms(1) [unfolded may_upload_def]
  have h: "is_word (sha1_hex ssl c)" "\<forall>x \<in> set (piece_list ssl c). is_word x"
    using assms(4) piece_list_words digest_hex_word [of "evp_sha1 ssl" c] by (auto simp: publishable_def sha1_hex_def)
  have "do_upload ssl fs (tracker_link ssl rand now) (''upload_file'' # gid # ws) cl (cn, sv) = relay (tracker_link ssl rand now) ?msg ?cl (cn, sv)"
    using assms(2-4) sha1_file_pieces_readable [of fs ?path c ssl, OF assms(3)] sha1_file_readable [of fs ?path c ssl, OF assms(3)]
    by (simp add: do_upload_def file_size_def publishable_def piece_list_def Let_def Suc_le_eq)
  moreover have "split_args ?msg = ''upload_file'' # ?tok # ?ws"
    using split_upload_message [of ?tok gid ?f] up assms(5) h by (simp add: good_name_def)
  then have "tc_send (tracker_link ssl rand now) ?msg (cl_tracker ?cl) (cn, sv) =
      ((cn, fst (dispatch_session (''upload_file'' # ?tok # ?ws) u sv)), snd (dispatch_session (''upload_file'' # ?tok # ?ws) u sv))"
    using up by (intro tc_send_session) (simp_all add: session_command_def)
  moreover have "dispatch_session (''upload_file'' # ?tok # ?ws) u sv = dispatch_upload (''upload_file'' # ?tok # ?ws) u sv"
    by (simp add: dispatch_session_def Let_def)
  moreover have "published ssl gid ?f c u (sv_state sv) (sv_state (fst (dispatch_upload (''upload_file'' # ?tok # ?ws) u sv))) \<and>
      sv_sessions (fst (dispatch_upload (''upload_file'' # ?tok # ?ws) u sv)) = sv_sessions sv"
    using up good_name_valid [OF assms(5)] by (intro dispatch_upload_published [OF assms(4)]) simp_all
  moreover have "((cl', w), msg) = do_upload ssl fs (tracker_link ssl rand now) (''upload_file'' # gid # ws) cl (cn, sv)"
    using assms(6) execute_upload [of cl ws ssl fs "tracker_link ssl rand now" gid "(cn, sv)"] up assms(2) by simp
  ultimately show ?thesis by (simp add: relay_def)
qed

section \<open>Asking for a file\<close>

text \<open>The seeders a reply names: those of the file that are connected, with the address they logged in from.\<close>

definition online :: "tracker_state \<Rightarrow> string \<Rightarrow> (string \<times> string \<times> string) list" where
  "online st n = (case map_of (st_peers st) n of None \<Rightarrow> []
     | Some p \<Rightarrow> if connected p then [(n, hostip p, hostport p)] else [])"

definition online_seeders :: "tracker_state \<Rightarrow> file_meta \<Rightarrow> (string \<times> string \<times> string) list" where
  "online_seeders st fm = concat (map (online st) (fm_peers fm))"

definition addresses_ok :: "tracker_state \<Rightarrow> bool" where
  "addresses_ok st \<longleftrightarrow> (\<forall>n p. map_of (st_peers st) n = Some p \<longrightarrow> connected p \<longrightarrow>
     is_word n \<and> is_word (hostip p) \<and> is_word (hostport p))"

lemma online_entry: "t \<in> set (online st n) \<Longrightarrow> \<exists>p. map_of (st_peers st) n = Some p \<and> connected p \<and> t = (n, hostip p, hostport p)"
  by (cases "map_of (st_peers st) n") (auto simp: online_def split: if_splits)

lemma peer_lines_online:
  "concat (map (peer_line st) ns) = unlines (map (\<lambda>(a, b, c). a @ spaced [b, c]) (concat (map (online st) ns)))"
  by (induction ns) (auto simp: online_def peer_line_def unlines_append split: option.splits)

lemma download_reply_read_back:
  assumes "is_word fname" "fname \<notin> reply_words" "0 \<le> fm_size fm" "fm_size fm \<le> LLONG_MAX" "is_word (fullhash fm)"
    and "\<forall>x \<in> set (piece_hashes fm). is_word x" "num_pieces fm = int (length (piece_hashes fm))"
    and "int (length (piece_hashes fm)) \<le> LLONG_MAX" "addresses_ok st"
  shows "parse_meta (download_reply st fname fm) =
      Some (\<lparr>rm_size = fm_size fm, rm_fullhash = fullhash fm, rm_pieces = num_pieces fm\<rparr>, piece_hashes fm)"
    and "parse_peers (download_reply st fname fm) = online_seeders st fm"
proof -
  have ps: "\<forall>(a, b, c) \<in> set (online_seeders st fm). is_word a \<and> is_word b \<and> is_word c"
    using assms(9) by (fastforce simp: online_seeders_def addresses_ok_def dest: online_entry)
  have r: "download_reply st fname fm = reply_header fname (fm_size fm) (fullhash fm) (int (length (piece_hashes fm))) @
      spaced (piece_hashes fm) @ newline # ''PEERS'' @ newline #
      unlines (map (\<lambda>(a, b, c). a @ spaced [b, c]) (online_seeders st fm)) @ [newline]"
    by (simp add: download_reply_def reply_header_def assms(7) peer_lines_online online_seeders_def)
  show "parse_meta (download_reply st fname fm) =
      Some (\<lparr>rm_size = fm_size fm, rm_fullhash = fullhash fm, rm_pieces = num_pieces fm\<rparr>, piece_hashes fm)"
    using parse_printed_reply(1) [OF assms(1-6,8) ps r] by (simp add: assms(7))
  show "parse_peers (download_reply st fname fm) = online_seeders st fm"
    by (rule parse_printed_reply(2) [OF assms(1-6,8) ps r])
qed

section \<open>From the uploader's disk to the downloader's\<close>

text \<open>The peer server of a client, reached at its address.\<close>

definition reaches :: "network \<Rightarrow> string \<Rightarrow> string \<Rightarrow> registry \<Rightarrow> filesystem \<Rightarrow> bool" where
  "reaches net ip port reg fs \<longleftrightarrow> valid_port port \<and>
     (\<forall>r req. net r ip (the (parse_int port)) req = serve_one reg fs (Some req))"

lemma piece_at_nonempty: "p < piece_count (length c) \<Longrightarrow> piece_at c p \<noteq> []"
  by (simp add: piece_at_def piece_count_iff)

lemma ask_seeder:
  assumes "reaches net ip port reg fs" "is_word fname" "registry_path_for fname reg = Some path"
    and "fs path = Some (Readable c)" "p < piece_count (length c)" "int (piece_count (length c)) \<le> INT_MAX"
  shows "ask_peer net r fname p (n, ip, port) = Some (piece_at c p)"
proof -
  have "serve_one reg fs (Some (''GET_PIECE '' @ fname @ '' '' @ to_string (int p))) = Some (piece_at c (nat (int p)))"
    using assms piece_at_nonempty [OF assms(5)] by (intro serve_piece) simp_all
  moreover obtain port' where port: "parse_int port = Some port'" "0 < port'" "port' \<le> 65535"
    using assms(1) by (auto simp: reaches_def valid_port_def split: option.splits)
  ultimately show ?thesis
    using assms(1) piece_at_length [of c p] by (simp add: ask_peer_def reaches_def not_less)
qed

lemma download_request:
  assumes "tc_open tc" "is_word (tc_token tc)" "is_word gid" "is_word fname"
    and "authenticates (sv_sessions sv) now (tc_token tc) = Some v" "group_member (sv_state sv) gid v"
    and "group_has_file_locked (sv_state sv) gid fname" "map_of (st_files (sv_state sv)) (file_key gid fname) = Some fm"
  shows "tracker_link ssl rand now (''download_file '' @ tc_token tc @ '' '' @ gid @ '' '' @ fname) (cn, sv) =
    ((cn, sv), Some (download_reply (sv_state sv) fname fm))"
proof -
  have "split_args (''download_file'' @ spaced [tc_token tc, gid, fname]) = [''download_file'', tc_token tc, gid, fname]"
    using assms by (intro split_args_command) (simp_all add: is_word_def isspace_def)
  then have "split_args (''download_file '' @ tc_token tc @ '' '' @ gid @ '' '' @ fname) = [''download_file'', tc_token tc, gid, fname]"
    by simp
  from tracker_link_session [OF this, of sv now v ssl rand cn]
  show ?thesis using assms
    by (auto simp: session_command_def dispatch_session_def Let_def download_file_def group_member_def split: option.splits)
qed

lemma announce_request:
  assumes "tc_open tc" "is_word (tc_token tc)" "is_word gid" "is_word fname"
    and "authenticates (sv_sessions sv) now (tc_token tc) = Some v" "group_member (sv_state sv) gid v"
    and "group_has_file_locked (sv_state sv) gid fname" "map_of (st_files (sv_state sv)) (file_key gid fname) = Some fm"
  shows "\<exists>sv'. fst (tc_send (tracker_link ssl rand now) (''file_downloaded '' @ tc_token tc @ '' '' @ gid @ '' '' @ fname) tc (cn, sv)) = (cn, sv') \<and>
    map_of (st_files (sv_state sv')) (file_key gid fname) = Some (fm\<lparr>fm_peers := uset_insert v (fm_peers fm)\<rparr>)"
proof -
  have "split_args (''file_downloaded'' @ spaced [tc_token tc, gid, fname]) = [''file_downloaded'', tc_token tc, gid, fname]"
    using assms by (intro split_args_command) (simp_all add: is_word_def isspace_def)
  then have "split_args (''file_downloaded '' @ tc_token tc @ '' '' @ gid @ '' '' @ fname) = [''file_downloaded'', tc_token tc, gid, fname]"
    by simp
  from tc_send_session [OF assms(1) this, of sv now v ssl rand cn]
  show ?thesis using assms
    by (auto simp: session_command_def dispatch_session_def Let_def file_downloaded_def group_member_def reply_with_def
        put_defs update_conv' split: option.splits)
qed

lemma seeder_named:
  assumes "u \<in> set (fm_peers fm)" "map_of (st_peers st) u = Some p" "connected p"
  shows "\<exists>q < length (online_seeders st fm). online_seeders st fm ! q = (u, hostip p, hostport p)"
proof -
  have "(u, hostip p, hostport p) \<in> set (online_seeders st fm)"
    using assms by (auto simp: online_seeders_def online_def intro!: bexI [of _ u])
  then show ?thesis by (auto simp: in_set_conv_nth)
qed

lemma published_reply:
  assumes "published_meta ssl c fm" "publishable ssl c" "is_word fname" "fname \<notin> reply_words" "addresses_ok st"
  shows "parse_meta (download_reply st fname fm) = Some (\<lparr>rm_size = int (length c), rm_fullhash = sha1_hex ssl c,
      rm_pieces = int (piece_count (length c))\<rparr>, piece_list ssl c)"
    and "parse_peers (download_reply st fname fm) = online_seeders st fm"
proof -
  have sh: "\<forall>d. sha1_hex ssl d \<noteq> []" and size: "int (length c) \<le> LLONG_MAX" "int (piece_count (length c)) \<le> INT_MAX"
    using assms(2) by (auto simp: publishable_def kPieceSize_def)
  have meta: "fm_size fm = int (length c)" "fullhash fm = sha1_hex ssl c" "piece_hashes fm = piece_list ssl c"
      "num_pieces fm = int (piece_count (length c))" "length (piece_list ssl c) = piece_count (length c)"
    using assms(1) by (simp_all add: published_meta_def piece_list_def)
  have w: "is_word (fullhash fm)" "\<forall>x \<in> set (piece_hashes fm). is_word x"
    using sh digest_hex_word [of "evp_sha1 ssl" c] piece_list_words [OF sh] by (auto simp: meta sha1_hex_def)
  show "parse_meta (download_reply st fname fm) = Some (\<lparr>rm_size = int (length c), rm_fullhash = sha1_hex ssl c,
      rm_pieces = int (piece_count (length c))\<rparr>, piece_list ssl c)"
    and "parse_peers (download_reply st fname fm) = online_seeders st fm"
    using download_reply_read_back [OF assms(3,4) _ _ w _ _ assms(5)] size meta by (simp_all add: INT_MAX_def LLONG_MAX_def)
qed

text \<open>A download of a published file one of whose seeders is online.\<close>

lemma download_from_seeder:
  assumes fm: "map_of (st_files (sv_state sv)) (file_key gid fname) = Some fm" "published_meta ssl c fm" "publishable ssl c"
      "group_has_file_locked (sv_state sv) gid fname" "is_word gid" "is_word fname" "fname \<notin> reply_words" "collision_free ssl c"
    and seeder: "u \<in> set (fm_peers fm)" "addresses_ok (sv_state sv)" "map_of (st_peers (sv_state sv)) u = Some pu" "connected pu"
      "reaches net (hostip pu) (hostport pu) reg fs" "registry_path_for fname reg = Some path" "fs path = Some (Readable c)"
    and down: "tc_open tc" "is_word (tc_token tc)" "authenticates (sv_sessions sv) now (tc_token tc) = Some v"
      "group_member (sv_state sv) gid v" "re_link e = (cn, sv)"
    and disk: "out_opens io" "out_seeks io" "out_puts io" "\<forall>p r q. disk p r q = Written" "fair_schedule sched"
      "re_fs e (dest_file destpath fname) = None" "re_statefiles e (dest_file destpath fname @ ''.downloading'') = None"
  shows "\<exists>N. \<forall>m \<ge> N. \<exists>e' sv'.
    run ssl (tracker_link ssl rand now) io opens (thread_pool ssl net disk fname (map sched [0..<m])) gid fname destpath tc e
      = (e', Ended Complete) \<and>
    re_fs e' (dest_file destpath fname) = Some (Readable c) \<and> re_link e' = (cn, sv') \<and>
    map_of (st_files (sv_state sv')) (file_key gid fname) = Some (fm\<lparr>fm_peers := uset_insert v (fm_peers fm)\<rparr>)"
proof -
  let ?reply = "download_reply (sv_state sv) fname fm" and ?peers = "online_seeders (sv_state sv) fm"
  note member = down(1,2) fm(5,6) down(3,4) fm(4,1)
  note r = published_reply [OF fm(2,3,6,7) seeder(2)]
  obtain q where q: "q < length ?peers" "?peers ! q = (u, hostip pu, hostport pu)"
    using seeder_named [OF seeder(1,3,4)] by blast
  have "int (piece_count (length c)) \<le> INT_MAX" using fm(3) by (simp add: publishable_def)
  then have honest: "\<forall>p < piece_count (length c). \<exists>q < length (parse_peers ?reply). \<forall>k.
      ask_peer net k fname p (parse_peers ?reply ! q) = Some (piece_at c p) \<and> disk p k q = Written"
    using q ask_seeder [OF seeder(5) fm(6) seeder(6,7)] disk(4) unfolding r(2) by auto
  have starts: "take 5 ?reply = ''FILE ''" by (simp add: download_reply_def)
  have peers: "parse_peers ?reply \<noteq> []" using q(1) r(2) by auto
  let ?msg = "''file_downloaded '' @ tc_token tc @ '' '' @ gid @ '' '' @ fname"
  obtain sv' where sv': "fst (tc_send (tracker_link ssl rand now) ?msg tc (cn, sv)) = (cn, sv')"
      "map_of (st_files (sv_state sv')) (file_key gid fname) = Some (fm\<lparr>fm_peers := uset_insert v (fm_peers fm)\<rparr>)"
    using announce_request [OF member, of ssl rand cn] by blast
  show ?thesis
    using honest_swarm_delivers [where ssl = ssl and gid = gid and fname = fname and dsk = disk and c = c and tc = tc and io = io
        and net = net and sched = sched and link = "tracker_link ssl rand now" and e = e and reply = ?reply
        and destpath = destpath and opens = opens,
        OF fm(8) disk(5) honest down(1) download_request [OF member, of ssl rand cn, folded down(5)] starts peers r(1) disk(1-3,6,7)]
      sv' unfolding down(5) by metis
qed

text \<open>
  C1: What one member uploads another member gets: after the upload command of a member whose client is
  online, a download by any member of the group, on an empty disk that works, ends as complete with the
  uploaded file byte for byte under any fair schedule of its worker threads and whatever the other seeders
  answer, and the tracker then lists the downloader as a seeder too. Every step is the program's: the
  uploader's command, the tracker's two handlers, the reply and its parser, the workers' requests, the
  uploader's peer server, the verification and the announcement.
\<close>

theorem uploaded_file_is_delivered:
  assumes up: "may_upload ssl now cl sv gid u" "ws \<noteq> []" "fs (join_words ws) = Some (Readable c)" "publishable ssl c"
      "fname = basename (join_words ws)" "good_name fname" "fname \<notin> reply_words" "collision_free ssl c"
      "execute ssl fs (tracker_link ssl rand now) (''upload_file'' # gid # ws) cl (cn, sv) = ((cl', (cn', sv')), msg)"
    and online: "addresses_ok (sv_state sv)" "map_of (st_peers (sv_state sv)) u = Some pu" "connected pu"
      "reaches net (hostip pu) (hostport pu) (cl_registry cl') fs"
    and down: "tc_open tc" "is_word (tc_token tc)" "authenticates (sv_sessions sv) later (tc_token tc) = Some v"
      "group_member (sv_state sv) gid v" "re_link e = (dcn, sv')"
    and disk: "out_opens io" "out_seeks io" "out_puts io" "\<forall>p r q. disk p r q = Written" "fair_schedule sched"
      "re_fs e (dest_file destpath fname) = None" "re_statefiles e (dest_file destpath fname @ ''.downloading'') = None"
  shows "\<exists>N. \<forall>m \<ge> N. \<exists>e' sv'' fm.
    run ssl (tracker_link ssl rand' later) io opens (thread_pool ssl net disk fname (map sched [0..<m])) gid fname destpath tc e
      = (e', Ended Complete) \<and>
    re_fs e' (dest_file destpath fname) = Some (Readable c) \<and> re_link e' = (dcn, sv'') \<and>
    map_of (st_files (sv_state sv'')) (file_key gid fname) = Some fm \<and> {u, v} \<subseteq> set (fm_peers fm)"
proof -
  have pub: "published ssl gid fname c u (sv_state sv) (sv_state sv')" and same: "sv_sessions sv' = sv_sessions sv"
    and reg: "registry_path_for fname (cl_registry cl') = Some (join_words ws)"
    using upload_publishes [OF up(1-4) _ up(9)] up(5,6) by (auto simp: registry.find_put)
  then obtain fm where fm: "map_of (st_files (sv_state sv')) (file_key gid fname) = Some fm" "published_meta ssl c fm" "u \<in> set (fm_peers fm)"
    and keep: "st_peers (sv_state sv') = st_peers (sv_state sv)" "st_groups (sv_state sv') = st_groups (sv_state sv)"
      "group_has_file_locked (sv_state sv') gid fname"
    by (auto simp: published_def)
  have words: "is_word gid" "is_word fname" using up(1,6) by (simp_all add: good_name_def may_upload_def)
  have v: "authenticates (sv_sessions sv') later (tc_token tc) = Some v" "group_member (sv_state sv') gid v"
      "addresses_ok (sv_state sv')" "map_of (st_peers (sv_state sv')) u = Some pu"
    using down(3,4) online(1,2) same keep by (simp_all add: group_member_def user_exists_locked_def addresses_ok_def)
  obtain N where N: "\<forall>m \<ge> N. \<exists>e' sv''.
    run ssl (tracker_link ssl rand' later) io opens (thread_pool ssl net disk fname (map sched [0..<m])) gid fname destpath tc e
      = (e', Ended Complete) \<and> re_fs e' (dest_file destpath fname) = Some (Readable c) \<and> re_link e' = (dcn, sv'') \<and>
      map_of (st_files (sv_state sv'')) (file_key gid fname) = Some (fm\<lparr>fm_peers := uset_insert v (fm_peers fm)\<rparr>)"
    using download_from_seeder [OF fm(1,2) up(4) keep(3) words up(7,8) fm(3) v(3,4) online(3,4) reg up(3) down(1,2) v(1,2) down(5) disk] by blast
  have "{u, v} \<subseteq> set (fm_peers (fm\<lparr>fm_peers := uset_insert v (fm_peers fm)\<rparr>))" using fm(3) by simp
  then show ?thesis using N by (intro exI [of _ N]) blast
qed

section \<open>A concrete system\<close>

definition system_sha :: openssl where
  "system_sha = \<lparr>evp_sha1 = (\<lambda>d. Some (1 # map (\<lambda>c. of_nat (of_char c)) d)), evp_sha256 = (\<lambda>d. None)\<rparr>"

definition system_disk :: filesystem where
  "system_disk = [''/x/new'' \<mapsto> Readable ''ab'']"

definition system_conn :: connection where
  "system_conn = \<lparr>cn_peer_ip = ''10.0.0.1'', session_user = '''', session_token = ''''\<rparr>"

definition system_client :: client where
  "system_client = \<lparr>cl_tracker = \<lparr>tc_open = True, tc_token = ''t1''\<rparr>, cl_registry = [], cl_downloads = [],
     cl_host_port = ''7000'', cl_peername = ''alice'', cl_connected = True\<rparr>"

definition system_net :: network where
  "system_net r ip port req = serve_one [(''new'', ''/x/new'')] system_disk (Some req)"

definition system_env :: "(connection \<times> server) run_env" where
  "system_env = \<lparr>re_downloads = [], re_fs = Map.empty, re_statefiles = Map.empty, re_registry = [],
     re_link = snd (fst (execute system_sha system_disk (tracker_link system_sha demo_rand 5)
       [''upload_file'', ''g1'', ''/x/new''] system_client (system_conn, demo_server)))\<rparr>"

lemma system_file: "basename ''/x/new'' = ''new''" "join_words [''/x/new''] = ''/x/new''" "good_name ''new''" "''new'' \<notin> reply_words"
  by (simp_all add: basename_def good_name_def is_word_def isspace_def reply_words_def)

lemma system_sha_facts: "collision_free system_sha ''ab''" "publishable system_sha ''ab''"
proof -
  have "sha1_hex system_sha d = sha1_hex system_sha d' \<Longrightarrow> d = d'" for d d'
    by (intro bytes_inj) (auto simp: sha1_hex_def digest_hex_def system_sha_def dest: to_hex_inj)
  then show "collision_free system_sha ''ab''" by (simp add: collision_free_def)
  have "sha1_hex system_sha d \<noteq> []" for d by (simp add: sha1_hex_def digest_hex_def system_sha_def)
  then show "publishable system_sha ''ab''"
    using demo_pieces(1) by (simp add: publishable_def numeral_2_eq_2 kPieceSize_def LLONG_MAX_def INT_MAX_def)
qed

lemma system_tracker: "addresses_ok demo_state" "group_member demo_state ''g1'' ''alice''" "group_member demo_state ''g1'' ''carol''"
  "authenticates (sv_sessions demo_server) 5 ''t1'' = Some ''alice''" "authenticates (sv_sessions demo_server) 6 ''t3'' = Some ''carol''"
  by (simp_all add: addresses_ok_def group_member_def demo_defs lookup_defs partofgroup_def authenticates_def is_word_def isspace_def)

lemma system_uploader: "may_upload system_sha 5 system_client demo_server ''g1'' ''alice''"
  using system_tracker by (simp add: may_upload_def system_client_def demo_server_def)

lemma system_reach: "reaches system_net ''10.0.0.1'' ''7000'' [(''new'', ''/x/new'')] system_disk"
proof -
  have "parse_int ''7000'' = Some 7000" by code_simp
  then show ?thesis by (simp add: reaches_def system_net_def valid_port_def)
qed

theorem uploaded_file_is_delivered_witness:
  "\<exists>m e'. run system_sha (tracker_link system_sha demo_rand 6) demo_io True
      (thread_pool system_sha system_net (\<lambda>p r q. Written) ''new'' (map (\<lambda>k. k mod 8) [0..<m])) ''g1'' ''new'' ''/d''
      \<lparr>tc_open = True, tc_token = ''t3''\<rparr> system_env = (e', Ended Complete) \<and>
    re_fs e' ''/d/new'' = Some (Readable ''ab'')"
proof -
  let ?ex = "execute system_sha system_disk (tracker_link system_sha demo_rand 5) (''upload_file'' # ''g1'' # [''/x/new''])
      system_client (system_conn, demo_server)"
  obtain cl' w msg where ex: "?ex = ((cl', w), msg)" by (metis prod.exhaust)
  have fs: "system_disk (join_words [''/x/new'']) = Some (Readable ''ab'')" by (simp add: system_disk_def)
  have name: "good_name (basename (join_words [''/x/new'']))" using system_file by simp
  obtain sv' where w: "w = (system_conn, sv')" and cl': "cl_registry cl' = [(''new'', ''/x/new'')]"
    using upload_publishes [OF system_uploader _ fs system_sha_facts(2) name ex] system_file
    by (auto simp: system_client_def registry_add_def)
  have reach: "reaches system_net (hostip (demo_peer ''alice'' True)) (hostport (demo_peer ''alice'' True)) (cl_registry cl') system_disk"
    using system_reach cl' by (simp add: demo_peer_def)
  have env: "re_link system_env = (system_conn, sv')" using ex w by (simp add: system_env_def)
  have dest: "dest_file ''/d'' ''new'' = ''/d/new''" by (simp add: dest_file_def)
  have name': "''new'' = basename (join_words [''/x/new''])" using system_file by simp
  have peers: "map_of (st_peers (sv_state demo_server)) ''alice'' = Some (demo_peer ''alice'' True)"
    by (simp add: demo_server_def demo_state_def)
  show ?thesis
    using uploaded_file_is_delivered [where tc = "\<lparr>tc_open = True, tc_token = ''t3''\<rparr>" and e = system_env and io = demo_io
        and disk = "\<lambda>p r q. Written" and destpath = "''/d''" and later = 6 and sched = "\<lambda>k. k mod 8" and opens = True and rand' = demo_rand
        and v = "''carol''" and dcn = system_conn and net = system_net,
        OF system_uploader _ fs system_sha_facts(2) name' system_file(3,4) system_sha_facts(1) ex [unfolded w] _ peers _ reach]
      system_tracker env
    round_robin_fair by (simp add: demo_io_def demo_peer_def dest demo_server_def) (simp add: system_env_def, blast?)
qed

section \<open>Replies and replication\<close>

lemma read_back_reply:
  assumes "stored_ok st" "addresses_ok st" "res_ok (download_file gid fname u st)" "fname \<notin> reply_words"
    and "\<forall>k fm. map_of (st_files st) k = Some fm \<longrightarrow> int (length (piece_hashes fm)) \<le> INT_MAX"
  shows "\<exists>fm. map_of (st_files st) (file_key gid fname) = Some fm \<and>
    parse_meta (res_msg (download_file gid fname u st)) =
      Some (\<lparr>rm_size = fm_size fm, rm_fullhash = fullhash fm, rm_pieces = num_pieces fm\<rparr>, piece_hashes fm) \<and>
    parse_peers (res_msg (download_file gid fname u st)) = online_seeders st fm"
proof -
  obtain fm fs where f: "map_of (st_files st) (file_key gid fname) = Some fm" "map_of (st_group_files st) gid = Some fs" "fname \<in> set fs"
    and r: "download_file gid fname u st = accepted (download_reply st fname fm)"
    using assms(3) by (auto simp: download_file_def group_has_file_locked_def split: option.splits if_splits)
  have "is_word fname" using stored_ok_lookup(4) [OF assms(1) f(2)] f(3) by (auto simp: listing_ok_def words_def)
  moreover have "file_ok (file_key gid fname, fm)" by (rule stored_ok_lookup(3) [OF assms(1) f(1)])
  moreover have "int (length (piece_hashes fm)) \<le> INT_MAX" using assms(5) f(1) by blast
  ultimately have ok: "is_word fname" "0 \<le> fm_size fm" "fm_size fm \<le> LLONG_MAX" "is_word (fullhash fm)"
      "\<forall>x \<in> set (piece_hashes fm). is_word x" "num_pieces fm = int (length (piece_hashes fm))"
      "int (length (piece_hashes fm)) \<le> LLONG_MAX"
    by (simp_all add: file_ok_def words_def cast_int_small INT_MAX_def LLONG_MAX_def list_all_iff)
  note reply = download_reply_read_back [OF ok(1) assms(4) ok(2-7) assms(2)]
  show ?thesis using f(1) r reply by simp
qed

text \<open>
  C34: The client understands every answer of the tracker: in any state the tracker can reach, the reply to
  an accepted \<open>download_file\<close> is read back as exactly the file's size, hash and piece hashes and exactly
  the seeders that are online, in order (unless the file is named like one of the four keywords of the
  reply). The connections' addresses contain no white space, and no hash list exceeds an \<open>int\<close>.
\<close>

theorem tracker_reply_is_read_back:
  assumes "\<forall>e \<in> set events. address_given e" "st = sv_state (wd_server (fold (world_step ssl) events (booted fs path)))"
    and "res_ok (download_file gid fname u st)" "fname \<notin> reply_words"
    and "\<forall>k fm. map_of (st_files st) k = Some fm \<longrightarrow> int (length (piece_hashes fm)) \<le> INT_MAX"
  shows "\<exists>fm. map_of (st_files st) (file_key gid fname) = Some fm \<and>
    parse_meta (res_msg (download_file gid fname u st)) =
      Some (\<lparr>rm_size = fm_size fm, rm_fullhash = fullhash fm, rm_pieces = num_pieces fm\<rparr>, piece_hashes fm) \<and>
    parse_peers (res_msg (download_file gid fname u st)) = online_seeders st fm"
proof -
  have st: "stored_ok st" using reachable_stored_ok assms(2) by simp
  have "addresses_typed st" using world_typed_run [OF world_typed_booted assms(1)] assms(2) by (simp add: world_typed_def)
  then have "addresses_ok st"
    using stored_ok_lookup(1) [OF st] by (auto simp: addresses_typed_def addresses_ok_def online_at_def peer_ok_def)
  then show ?thesis using read_back_reply [OF st _ assms(3-5)] by blast
qed

definition demo_login :: "world_event list" where
  "demo_login = [Accept 1 ''10.0.0.1'', Input demo_rand 7 1 (Received (demo_command [''login'', ''alice'', ''xyz'', ''7000'']))]"

definition demo_disk :: filesystem where
  "demo_disk = [''db'' \<mapsto> Readable (serialize demo_state)]"

lemma demo_login_state:
  "sv_state (wd_server (fold (world_step demo_ssl) demo_login (booted demo_disk ''db''))) =
   fst (login demo_ssl ''alice'' ''xyz'' ''10.0.0.1'' ''7000'' (offline demo_state))"
proof -
  have s: "split_args (demo_command [''login'', ''alice'', ''xyz'', ''7000'']) = [''login'', ''alice'', ''xyz'', ''7000'']"
    by (rule split_demo_command) (simp_all add: is_word_def isspace_def)
  have p: "parse_int ''7000'' = Some 7000" by code_simp
  have "load_snapshot demo_disk ''db'' empty_state = ((offline demo_state)\<lparr>st_version := st_version empty_state\<rparr>, True)"
    by (rule load_saved) (simp_all add: stored_ok_wire_ok stored_ok_restorable demo_stored_ok demo_sizes_ok demo_no_dash demo_disk_def)
  moreover have "(offline demo_state)\<lparr>st_version := st_version empty_state\<rparr> = offline demo_state"
    by (simp add: offline_def demo_state_def empty_state_def)
  ultimately have b: "booted demo_disk ''db'' = \<lparr>wd_server = \<lparr>sv_state = offline demo_state, sv_sessions = []\<rparr>, wd_conns = []\<rparr>"
    by (simp add: booted_def fresh_world_def)
  show ?thesis
    by (simp add: demo_login_def b managepeer_step_def s dispatch_def dispatch_login_def p Let_def case_prod_beta del: split_args.simps)
qed

theorem tracker_reply_is_read_back_witness:
  "parse_peers (res_msg (download_file ''g1'' ''song'' ''carol''
     (sv_state (wd_server (fold (world_step demo_ssl) demo_login (booted demo_disk ''db'')))))) = [(''alice'', ''10.0.0.1'', ''7000'')]"
proof -
  let ?st = "fst (login demo_ssl ''alice'' ''xyz'' ''10.0.0.1'' ''7000'' (offline demo_state))"
  have a: "\<forall>e \<in> set demo_login. address_given e" by (simp add: demo_login_def is_word_def isspace_def)
  have st: "?st = (offline demo_state)\<lparr>st_version := 1,
      st_peers := [(''alice'', demo_peer ''alice'' True), (''bob'', demo_peer ''bob'' False), (''carol'', demo_peer ''carol'' False)]\<rparr>"
    by (simp add: login_def offline_def demo_defs lookup_defs peer_login_def peer_logout_def verify_password_def put_defs
        demo_ssl_def sha256_hex_def digest_hex_def hex_digits_def)
  have ok: "res_ok (download_file ''g1'' ''song'' ''carol'' ?st)" "''song'' \<notin> reply_words"
    "\<forall>k fm. map_of (st_files ?st) k = Some fm \<longrightarrow> int (length (piece_hashes fm)) \<le> INT_MAX"
    unfolding st
    by (simp_all add: download_file_def offline_def demo_defs lookup_defs partofgroup_def file_key_def reply_words_def INT_MAX_def)
  obtain fm where "map_of (st_files ?st) (file_key ''g1'' ''song'') = Some fm"
      "parse_peers (res_msg (download_file ''g1'' ''song'' ''carol'' ?st)) = online_seeders ?st fm"
    using tracker_reply_is_read_back [OF a demo_login_state [symmetric] ok] by blast
  then show ?thesis unfolding demo_login_state unfolding st
    by (auto simp: file_key_def online_seeders_def online_def offline_def demo_defs)
qed

text \<open>
  No change is left behind: whenever the replication thread is idle (no push running, none due), the
  payload it delivered last states every shared fact of the present state, even though clients and the
  other tracker change the state between any two of its steps, sessions break off in the middle of a push
  and later ones begin anew; the other tracker, merging it, knows them all. (Pushes received meanwhile
  are well-formed; short of 2^64 changes; a version other than 0.)
\<close>

lemma idle_link_has_pushed_everything:
  assumes "loop_step\<^sup>*\<^sup>* (unlinked st) s" "linked (se_link s)" "se_changes s < 2 ^ 64"
    and "se_round s = None" "due (se_state s) (se_link s) = None" "st_version (se_state s) \<noteq> 0"
  shows "\<exists>t. se_sent s = Some t \<and> shared_facts t = shared_facts (se_state s) \<and>
    (\<forall>other. replica_ok t \<longrightarrow> shared_facts (se_state s) \<subseteq> shared_facts (fst (merge_from (serialize t) other)))"
proof -
  obtain t where "se_sent s = Some t" "shared_facts t = shared_facts (se_state s)"
    using idle_has_sent [OF assms] by blast
  then show ?thesis using merge_serialized(2) by blast
qed

lemma load_snapshot_version: "st_version (fst (load_snapshot fs path st)) = st_version st"
proof -
  have "st_version (fst (snd (run_records r ts s))) = st_version (fst s)" for r ts s
  proof (induction ts arbitrary: s)
    case (Cons t ts)
    then show ?case using apply_record_version [of r _ "fst s" "snd s"] by (cases "parse_record t") simp_all
  qed simp
  then show ?thesis
    by (simp add: load_snapshot_def apply_records_locked_def cleared_def Let_def case_prod_beta split: option.splits)
qed

text \<open>
  C40: The push after a reconnect is not forced for a restored tracker: loading a snapshot leaves the
  version at 0, so when the catch-up brings nothing new the push loop has nothing due, although the other
  tracker may lack everything the snapshot holds. It waits for the next change.
\<close>

theorem restored_state_is_not_pushed:
  assumes "load_snapshot fs path empty_state = (st, True)" "dial os ep" "replica_ok other"
    and "shared_facts other \<subseteq> shared_facts st"
    and "catch_up os ep (Some (serialize other)) st lk = (st', lk', ok)"
  shows "ok \<and> due st' lk' = None \<and> shared_facts st' = shared_facts st"
proof -
  have "st_version st = 0" using load_snapshot_version [of fs path empty_state] assms(1) by (simp add: empty_state_def)
  then have "st_version (fst (merge_from (serialize other) st)) = 0"
      "shared_facts (fst (merge_from (serialize other) st)) = shared_facts st"
    using merge_serialized(2,3) [OF assms(3), of st] assms(4) by auto
  then show ?thesis using assms(2,5) by (auto simp: catch_up_def due_def)
qed

lemma empty_replica: "replica_ok empty_state" "shared_facts empty_state = {}"
proof -
  have "no_dash_owner empty_state" by (simp add: no_dash_owner_def empty_state_def)
  then show "replica_ok empty_state"
    by (simp add: replica_ok_def stored_ok_wire_ok stored_ok_restorable stored_ok_empty)
      (simp add: sizes_ok_def records_of_def empty_state_def)
  have "\<not> holds empty_state f" for f by (cases f) (simp_all add: empty_state_def lookup_defs)
  then show "shared_facts empty_state = {}" by (simp add: shared_facts_def)
qed

theorem restored_state_is_not_pushed_witness:
  "\<exists>st st' lk'. User ''alice'' \<in> shared_facts st \<and>
     catch_up link_dialer \<lparr>ep_ip = ''10.0.0.2'', ep_port = ''6000''\<rparr> (Some (serialize empty_state)) st
       \<lparr>linked = False, last_pushed_version = 0\<rparr> = (st', lk', True) \<and> due st' lk' = None"
proof -
  let ?fs = "\<lambda>p. if p = ''db'' then Some (Readable (serialize demo_state)) else None"
  let ?st = "(offline demo_state)\<lparr>st_version := st_version empty_state\<rparr>"
  let ?ep = "\<lparr>ep_ip = ''10.0.0.2'', ep_port = ''6000''\<rparr>" and ?lk = "\<lparr>linked = False, last_pushed_version = 0\<rparr>"
  have load: "load_snapshot ?fs ''db'' empty_state = (?st, True)"
    by (rule load_saved) (simp_all add: stored_ok_wire_ok stored_ok_restorable demo_stored_ok demo_sizes_ok demo_no_dash)
  have p: "parse_int ''6000'' = Some 6000" by code_simp
  have "User ''alice'' \<in> shared_facts ?st" by (simp add: offline_def demo_defs lookup_defs)
  moreover have "dial link_dialer ?ep" using p by (simp add: dial_def link_dialer_def)
  moreover obtain st' lk' ok where r: "catch_up link_dialer ?ep (Some (serialize empty_state)) ?st ?lk = (st', lk', ok)"
    using prod_cases3 by blast
  ultimately have a: "User ''alice'' \<in> shared_facts ?st" "dial link_dialer ?ep" by blast+
  have "shared_facts empty_state \<subseteq> shared_facts ?st" by (simp only: empty_replica(2) empty_subsetI)
  note due_none = restored_state_is_not_pushed [OF load a(2) empty_replica(1) this r]
  show ?thesis
    by (rule exI [where x = ?st], rule exI [where x = st'], rule exI [where x = lk'], intro conjI)
      (use a(1) r due_none in simp_all)
qed

end
