(* ===== verification/Connections.thy ===== *)
theory Connections imports Dispatch Socket_IO Examples
begin

text \<open>
  The connections of \<open>managepeer\<close> down to their bytes: every round of a connection's thread reads a frame
  from what has come in on its socket, and writes the reply as a frame. The theory shows that the tracker
  of theory Dispatch, which exchanges whole messages, is what this one does, however the network cuts the
  bytes up and however the threads of different connections take turns.
\<close>

section \<open>The tracker over bytes\<close>

text \<open>
  \<open>bw_in\<close> is what is still to be read from each socket, \<open>bw_out\<close> what has been written to it. A reply is
  shorter than 4 GiB, so that its length fits the header.
\<close>

record byte_world =
  bw_world :: world
  bw_in :: "nat \<Rightarrow> string list"
  bw_out :: "nat \<Rightarrow> string"

datatype byte_event =
    Arrives nat string "string list"
  | Turn rng int nat

text \<open>The message a round sends, and the world after it.\<close>

definition answer_of :: "openssl \<Rightarrow> rng \<Rightarrow> int \<Rightarrow> nat \<Rightarrow> conn_input \<Rightarrow> world \<Rightarrow> string list" where
  "answer_of ssl rand now i inp w =
     (case map_of (wd_conns w) i of None \<Rightarrow> []
      | Some cn \<Rightarrow> (case snd (snd (managepeer_step ssl rand now inp cn (wd_server w))) of None \<Rightarrow> [] | Some reply \<Rightarrow> [reply]))"

definition connects :: "nat \<Rightarrow> string \<Rightarrow> world \<Rightarrow> bool" where
  "connects i ip w \<longleftrightarrow> ip \<noteq> [] \<and> map_of (wd_conns w) i = None"

fun byte_step :: "openssl \<Rightarrow> byte_event \<Rightarrow> byte_world \<Rightarrow> byte_world" where
  "byte_step ssl (Arrives i ip stream) b =
     (if connects i ip (bw_world b)
      then b\<lparr>bw_world := world_step ssl (Accept i ip) (bw_world b), bw_in := (bw_in b)(i := stream), bw_out := (bw_out b)(i := [])\<rparr>
      else b)"
| "byte_step ssl (Turn rand now i) b =
     (if map_of (wd_conns (bw_world b)) i = None then b
      else (case recv_framed kMaxFrameSize (bw_in b i) of
          None \<Rightarrow> b\<lparr>bw_world := world_step ssl (Input rand now i Closed) (bw_world b)\<rparr>
        | Some (buff, rest) \<Rightarrow>
            b\<lparr>bw_world := world_step ssl (Input rand now i (Received buff)) (bw_world b), bw_in := (bw_in b)(i := rest),
              bw_out := (bw_out b)(i := bw_out b i @
                concat (map frame (answer_of ssl rand now i (Received buff) (bw_world b))))\<rparr>))"

section \<open>The tracker over messages\<close>

text \<open>Each connection brings the messages its client sends and then ends.\<close>

record message_world =
  mw_world :: world
  mw_in :: "nat \<Rightarrow> string list"
  mw_out :: "nat \<Rightarrow> string list"

datatype message_event =
    Brings nat string "string list"
  | Takes_turn rng int nat

fun message_step :: "openssl \<Rightarrow> message_event \<Rightarrow> message_world \<Rightarrow> message_world" where
  "message_step ssl (Brings i ip msgs) m =
     (if connects i ip (mw_world m)
      then m\<lparr>mw_world := world_step ssl (Accept i ip) (mw_world m), mw_in := (mw_in m)(i := msgs), mw_out := (mw_out m)(i := [])\<rparr>
      else m)"
| "message_step ssl (Takes_turn rand now i) m =
     (if map_of (wd_conns (mw_world m)) i = None then m
      else (case mw_in m i of
          [] \<Rightarrow> m\<lparr>mw_world := world_step ssl (Input rand now i Closed) (mw_world m)\<rparr>
        | buff # rest \<Rightarrow>
            m\<lparr>mw_world := world_step ssl (Input rand now i (Received buff)) (mw_world m), mw_in := (mw_in m)(i := rest),
              mw_out := (mw_out m)(i := mw_out m i @ answer_of ssl rand now i (Received buff) (mw_world m))\<rparr>))"

section \<open>The simulation\<close>

text \<open>
  What may follow the last complete frame of a stream: bytes no frame can be read from, because the
  client stopped in the middle of one (or at once), or announced too much.
\<close>

definition no_frame :: "string \<Rightarrow> bool" where
  "no_frame t \<longleftrightarrow> (\<forall>s. stream_open s \<longrightarrow> concat s = t \<longrightarrow> recv_framed kMaxFrameSize s = None)"

definition carries :: "string list \<Rightarrow> string list \<Rightarrow> bool" where
  "carries stream msgs \<longleftrightarrow> stream_open stream \<and> (\<forall>m \<in> set msgs. length m \<le> kMaxFrameSize) \<and>
     (\<exists>t. concat stream = concat (map frame msgs) @ t \<and> no_frame t)"

lemma no_frame_truncated:
  assumes "frame payload = t @ missing" "missing \<noteq> []" "length payload \<le> kMaxFrameSize"
  shows "no_frame t"
  unfolding no_frame_def
proof (intro allI impI)
  fix s assume "stream_open s" "concat s = t"
  then show "recv_framed kMaxFrameSize s = None"
    using recv_framed_truncated [of s payload missing kMaxFrameSize] assms by (simp add: kMaxFrameSize_def frame_def)
qed

lemma no_frame_end: "no_frame []"
  by (rule no_frame_truncated [of "[]" "[]" "frame []"]) (simp_all add: frame_def be32_def)

lemma carries_nothing: "carries stream [] \<Longrightarrow> recv_framed kMaxFrameSize stream = None"
  by (auto simp: carries_def no_frame_def)

lemma carries_message:
  assumes "carries stream (m # msgs)"
  shows "\<exists>rest. recv_framed kMaxFrameSize stream = Some (m, rest) \<and> carries rest msgs"
proof -
  obtain t where t: "concat stream = frame m @ concat (map frame msgs) @ t" "no_frame t"
    using assms by (auto simp: carries_def)
  have "stream_open stream" "length m \<le> kMaxFrameSize" "kMaxFrameSize < 2 ^ 32"
    using assms by (simp_all add: carries_def kMaxFrameSize_def)
  then obtain rest where "recv_framed kMaxFrameSize stream = Some (m, rest)"
      "concat rest = concat (map frame msgs) @ t" "stream_open rest"
    using recv_framed_frame [of stream m "concat (map frame msgs) @ t" kMaxFrameSize] t(1) by (auto simp: frame_def)
  then show ?thesis using assms t(2) by (auto simp: carries_def)
qed

text \<open>Events that match: the same turns, and streams that carry the messages.\<close>

fun matches :: "byte_event \<Rightarrow> message_event \<Rightarrow> bool" where
  "matches (Arrives i ip stream) (Brings j ip' msgs) = (i = j \<and> ip = ip' \<and> carries stream msgs)"
| "matches (Turn rand now i) (Takes_turn rand' now' j) = (rand = rand' \<and> now = now' \<and> i = j)"
| "matches _ _ = False"

definition represents :: "byte_world \<Rightarrow> message_world \<Rightarrow> bool" where
  "represents b m \<longleftrightarrow> bw_world b = mw_world m \<and>
     (\<forall>i. map_of (wd_conns (bw_world b)) i \<noteq> None \<longrightarrow> carries (bw_in b i) (mw_in m i)) \<and>
     (\<forall>i. bw_out b i = concat (map frame (mw_out m i)))"

text \<open>A round of one connection opens and closes no other.\<close>

lemma world_step_conns:
  "map_of (wd_conns (world_step ssl (Input rand now i inp) w)) j \<noteq> None \<Longrightarrow> map_of (wd_conns w) j \<noteq> None"
  by (auto simp: case_prod_beta map_of_delete update_conv split: option.splits if_splits)

lemma accept_conns:
  "map_of (wd_conns (world_step ssl (Accept i ip) w)) j \<noteq> None \<Longrightarrow> j = i \<or> map_of (wd_conns w) j \<noteq> None"
  by (auto simp: update_conv split: if_splits)

lemma represents_step:
  assumes "represents b m" "matches e f"
  shows "represents (byte_step ssl e b) (message_step ssl f m)"
proof (cases e)
  case (Arrives i ip stream)
  then obtain msgs where f: "f = Brings i ip msgs" "carries stream msgs"
    using assms(2) by (cases f) auto
  have w: "bw_world b = mw_world m" using assms(1) by (simp add: represents_def)
  have old: "carries (bw_in b j) (mw_in m j)"
    if "map_of (wd_conns (world_step ssl (Accept i ip) (mw_world m))) j \<noteq> None" "j \<noteq> i" for j
    using assms(1) accept_conns [OF that(1)] that(2) w by (auto simp: represents_def)
  show ?thesis using assms(1) f(2) old w unfolding represents_def Arrives f(1)
    by (simp del: world_step.simps)
next
  case (Turn rand now i)
  then have f: "f = Takes_turn rand now i" using assms(2) by (cases f) auto
  show ?thesis
  proof (cases "map_of (wd_conns (bw_world b)) i = None")
    case True
    then show ?thesis using assms(1) Turn f by (simp add: represents_def)
  next
    case False
    note keeps = world_step_conns [of ssl rand now i _ "bw_world b"]
    have c: "carries (bw_in b i) (mw_in m i)" and w: "bw_world b = mw_world m"
      using assms(1) False by (simp_all add: represents_def)
    show ?thesis
    proof (cases "mw_in m i")
      case Nil
      then have "recv_framed kMaxFrameSize (bw_in b i) = None" using carries_nothing c by simp
      then show ?thesis using assms(1) False Nil w keeps unfolding represents_def Turn f
        by (auto simp del: world_step.simps)
    next
      case (Cons buff msgs)
      then obtain rest where r: "recv_framed kMaxFrameSize (bw_in b i) = Some (buff, rest)" "carries rest msgs"
        using carries_message c by metis
      then show ?thesis using assms(1) False Cons w keeps unfolding represents_def Turn f
        by (auto simp del: world_step.simps)
    qed
  qed
qed

lemma represents_run:
  "represents b m \<Longrightarrow> list_all2 matches es fs \<Longrightarrow>
   represents (fold (byte_step ssl) es b) (fold (message_step ssl) fs m)"
proof (induction es arbitrary: fs b m)
  case (Cons e es)
  then show ?case using represents_step [of b m e _ ssl] by (auto simp: list_all2_Cons1)
qed simp

definition listening_bytes :: "world \<Rightarrow> byte_world" where
  "listening_bytes w = \<lparr>bw_world = w, bw_in = (\<lambda>i. []), bw_out = (\<lambda>i. [])\<rparr>"

definition listening_messages :: "world \<Rightarrow> message_world" where
  "listening_messages w = \<lparr>mw_world = w, mw_in = (\<lambda>i. []), mw_out = (\<lambda>i. [])\<rparr>"

text \<open>
  C7: The tracker over bytes does what the tracker over messages does: for any schedule of arriving
  connections and turns of their threads, whatever the network made of each client's frames and wherever a
  client broke off, every complete command is executed once and in order, an incomplete one never, the
  state and the sessions are those of the message-level run, and what each client reads back are exactly
  the replies to its commands, in order.
\<close>

theorem bytes_implement_messages:
  assumes "list_all2 matches es fs" "wd_conns w = []"
    and "b = fold (byte_step ssl) es (listening_bytes w)" "m = fold (message_step ssl) fs (listening_messages w)"
  shows "bw_world b = mw_world m \<and> (\<forall>i. bw_out b i = concat (map frame (mw_out m i))) \<and>
    (\<forall>i s. stream_open s \<longrightarrow> concat s = bw_out b i \<longrightarrow> (\<forall>r \<in> set (mw_out m i). length r \<le> kMaxFrameSize) \<longrightarrow>
       recv_many (length (mw_out m i)) kMaxFrameSize s = Some (mw_out m i))"
proof -
  have "represents (listening_bytes w) (listening_messages w)"
    using assms(2) by (simp add: represents_def listening_bytes_def listening_messages_def)
  then have r: "represents b m" using represents_run [OF _ assms(1)] assms(3,4) by simp
  then have out: "bw_out b i = concat (map frame (mw_out m i))" for i by (simp add: represents_def)
  have "recv_many (length (mw_out m i)) kMaxFrameSize s = Some (mw_out m i)"
    if "stream_open s" "concat s = bw_out b i" "\<forall>r \<in> set (mw_out m i). length r \<le> kMaxFrameSize" for i s
    using that out by (intro recv_many_frames [where rest = "[]"]) (simp_all add: kMaxFrameSize_def)
  then show ?thesis using r out by (simp add: represents_def)
qed

text \<open>One command in two pieces, then a header that is never completed.\<close>

theorem bytes_implement_messages_witness:
  "bw_out (fold (byte_step demo_ssl)
      [Arrives 1 ''10.0.0.1'' [take 3 (frame ''hello''), drop 3 (frame ''hello'') @ take 2 (frame ''bye'')],
       Turn demo_rand 7 1, Turn demo_rand 7 1] (listening_bytes fresh_world)) 1 = frame kAuthErr"
proof -
  let ?stream = "[take 3 (frame ''hello''), drop 3 (frame ''hello'') @ take 2 (frame ''bye'')]"
  let ?fs = "[Brings 1 ''10.0.0.1'' [''hello''], Takes_turn demo_rand 7 1, Takes_turn demo_rand 7 1]"
  have "no_frame (take 2 (frame ''bye''))"
    by (rule no_frame_truncated [of "''bye''" _ "drop 2 (frame ''bye'')"]) (simp_all add: frame_def be32_def kMaxFrameSize_def)
  then have c: "carries ?stream [''hello'']"
    unfolding carries_def by (auto simp: stream_open_def frame_def be32_def kMaxFrameSize_def)
  have s: "split_args ''hello'' = [''hello'']"
    using split_demo_command [of "[''hello'']"] by (simp add: demo_command_def is_word_def isspace_def)
  have m: "mw_out (fold (message_step demo_ssl) ?fs (listening_messages fresh_world)) 1 = [kAuthErr]"
    by (simp add: listening_messages_def fresh_world_def connects_def answer_of_def managepeer_step_def s dispatch_def Let_def
        update_conv del: split_args.simps)
  have l: "list_all2 matches [Arrives 1 ''10.0.0.1'' ?stream, Turn demo_rand 7 1, Turn demo_rand 7 1] ?fs"
    using c by simp
  have w: "wd_conns fresh_world = []" by (simp add: fresh_world_def)
  note whole = bytes_implement_messages [OF l w refl refl, of demo_ssl, THEN conjunct2, THEN conjunct1, rule_format, of 1]
  show ?thesis unfolding whole m by (simp only: list.map concat.simps append_Nil2)
qed

end
