(* ===== verification/Tracker_Threads.thy ===== *)
theory Tracker_Threads imports Addresses
begin

text \<open>
  The connection threads of the tracker at the grain of their critical sections. \<open>dispatch\<close> and \<open>managepeer\<close>
  call \<open>g_sessions\<close> and \<open>g_state\<close>, each behind its own lock, up to once each in a round; between the two calls
  any other thread may run. Theory Dispatch takes a round as one step; here a round is one or two, and the
  theory shows what survives the interleaving: whom a change was made for, and the types of the state.
\<close>

section \<open>The sections of a round\<close>

text \<open>
  Where a thread is: before \<open>recv_framed\<close>; with the user its token belongs to; with a password accepted and
  no token yet; with a token revoked by \<open>logout\<close>, or by the end of the connection, and its user still online.
\<close>

datatype position =
    Receiving
  | Authenticated "string list" string
  | Verified "string list"
  | Revoked string
  | Dropped

type_synonym section_result = "server \<times> (position \<times> connection) option \<times> string option"

definition forget :: "connection \<Rightarrow> connection" where
  "forget cn = cn\<lparr>session_user := '''', session_token := ''''\<rparr>"

definition answers :: "string \<Rightarrow> connection \<Rightarrow> server \<Rightarrow> section_result" where
  "answers reply cn sv = (sv, Some (Receiving, cn), Some reply)"

definition login_section :: "openssl \<Rightarrow> string list \<Rightarrow> connection \<Rightarrow> server \<Rightarrow> section_result" where
  "login_section ssl comds cn sv =
     (if length comds \<noteq> 4 then answers ''-----Invalid Arguments for login-----'' cn sv
      else (case parse_int (comds ! 3) of
          None \<Rightarrow> answers ''-----Invalid Arguments for login-----'' cn sv
        | Some listen_port \<Rightarrow>
            if listen_port \<le> 0 \<or> 65535 < listen_port then answers ''-----Invalid Arguments for login-----'' cn sv
            else (case login ssl (comds ! 1) (comds ! 2) (cn_peer_ip cn) (comds ! 3) (sv_state sv) of (st, r) \<Rightarrow>
              if \<not> res_ok r then answers (res_msg r) cn (sv\<lparr>sv_state := st\<rparr>)
              else (sv\<lparr>sv_state := st\<rparr>, Some (Verified comds, cn), None))))"

definition logout_section :: "string \<Rightarrow> connection \<Rightarrow> server \<Rightarrow> section_result" where
  "logout_section token cn sv =
     (case session_destroy token (sv_sessions sv) of (sess, user) \<Rightarrow>
        if user = [] then answers kAuthErr (forget cn) (sv\<lparr>sv_sessions := sess\<rparr>)
        else (sv\<lparr>sv_sessions := sess\<rparr>, Some (Revoked user, cn), None))"

text \<open>The first section of a round, from what \<open>recv_framed\<close> delivers to the first unlock.\<close>

definition first_section :: "openssl \<Rightarrow> rng \<Rightarrow> int \<Rightarrow> conn_input \<Rightarrow> connection \<Rightarrow> server \<Rightarrow> section_result" where
  "first_section ssl rand now inp cn sv =
     (case inp of
        Closed \<Rightarrow>
          (sv\<lparr>sv_sessions := (if session_token cn \<noteq> [] then fst (session_destroy (session_token cn) (sv_sessions sv))
             else sv_sessions sv)\<rparr>, Some (Dropped, cn), None)
      | Received buff \<Rightarrow>
          let comds = split_args buff; n = length comds in
          if comds = [] then answers ''Invalid command'' cn sv
          else let cmd = comds ! 0 in
          if cmd = ''SYNC_REQ'' then answers (serialize (sv_state sv)) cn sv
          else if cmd = ''STATE'' then (case dispatch_state buff sv of (sv', reply) \<Rightarrow> answers reply cn sv')
          else if cmd = ''create_user'' then
            (if n \<noteq> 3 then answers bad_args cn sv
             else (case reply_with (create_user ssl rand (comds ! 1) (comds ! 2) (sv_state sv)) sv of
               (sv', reply) \<Rightarrow> answers reply cn sv'))
          else if cmd = ''login'' then login_section ssl comds cn sv
          else if n < 2 then answers kAuthErr (if cmd = ''logout'' then forget cn else cn) sv
          else if cmd = ''logout'' then logout_section (comds ! 1) cn sv
          else (case session_username_for now (comds ! 1) (sv_sessions sv) of
              (sess, None) \<Rightarrow> answers kAuthErr cn (sv\<lparr>sv_sessions := sess\<rparr>)
            | (sess, Some user) \<Rightarrow> (sv\<lparr>sv_sessions := sess\<rparr>, Some (Authenticated comds user, cn), None)))"

text \<open>The second section, where there is one.\<close>

fun second_section :: "rng \<Rightarrow> int \<Rightarrow> position \<Rightarrow> connection \<Rightarrow> server \<Rightarrow> section_result" where
  "second_section rand now (Authenticated comds user) cn sv =
     (case dispatch_session comds user sv of (sv', reply) \<Rightarrow> answers reply cn sv')"
| "second_section rand now (Verified comds) cn sv =
     (case session_create rand now (comds ! 1) (cn_peer_ip cn) (comds ! 3) (sv_sessions sv) of (sess, token) \<Rightarrow>
        if token = [] then answers ''------ Login failed: server entropy unavailable ------'' cn (sv\<lparr>sv_sessions := sess\<rparr>)
        else answers (''OK '' @ token) (cn\<lparr>session_user := comds ! 1, session_token := token\<rparr>) (sv\<lparr>sv_sessions := sess\<rparr>))"
| "second_section rand now (Revoked user) cn sv =
     (case reply_with (logout user (sv_state sv)) sv of (sv', reply) \<Rightarrow> answers reply (forget cn) sv')"
| "second_section rand now Dropped cn sv =
     (sv\<lparr>sv_state := handle_disconnect (session_user cn) (sv_state sv)\<rparr>, None, None)"
| "second_section rand now Receiving cn sv = (sv, Some (Receiving, cn), None)"

section \<open>The threads together\<close>

record threads =
  th_server :: server
  th_at :: "nat \<Rightarrow> (position \<times> connection) option"

datatype thread_event =
    Opens nat string
  | Runs rng int nat conn_input

fun thread_section :: "openssl \<Rightarrow> rng \<Rightarrow> int \<Rightarrow> conn_input \<Rightarrow> position \<times> connection \<Rightarrow> server \<Rightarrow> section_result" where
  "thread_section ssl rand now inp (Receiving, cn) sv = first_section ssl rand now inp cn sv"
| "thread_section ssl rand now inp (pos, cn) sv = second_section rand now pos cn sv"

fun thread_step :: "openssl \<Rightarrow> thread_event \<Rightarrow> threads \<Rightarrow> threads" where
  "thread_step ssl (Opens i ip) t =
     (if ip = [] \<or> th_at t i \<noteq> None then t
      else t\<lparr>th_at := (th_at t)(i \<mapsto> (Receiving, \<lparr>cn_peer_ip = ip, session_user = '''', session_token = ''''\<rparr>))\<rparr>)"
| "thread_step ssl (Runs rand now i inp) t =
     (case th_at t i of None \<Rightarrow> t
      | Some pc \<Rightarrow> (case thread_section ssl rand now inp pc (th_server t) of (sv, at, reply) \<Rightarrow>
          \<lparr>th_server = sv, th_at = (th_at t)(i := at)\<rparr>))"

text \<open>The threads when none is inside a round.\<close>

definition between_rounds :: "world \<Rightarrow> threads" where
  "between_rounds w = \<lparr>th_server = wd_server w, th_at = (\<lambda>i. map_option (Pair Receiving) (map_of (wd_conns w) i))\<rparr>"

text \<open>A round nobody interrupts: its first section and, where there is one, its second.\<close>

definition in_round :: "nat \<Rightarrow> threads \<Rightarrow> bool" where
  "in_round i t \<longleftrightarrow> (case th_at t i of Some (Receiving, cn) \<Rightarrow> False | Some (pos, cn) \<Rightarrow> True | None \<Rightarrow> False)"

fun whole_round :: "openssl \<Rightarrow> world_event \<Rightarrow> threads \<Rightarrow> threads" where
  "whole_round ssl (Accept i ip) t = thread_step ssl (Opens i ip) t"
| "whole_round ssl (Input rand now i inp) t =
     (let t1 = thread_step ssl (Runs rand now i inp) t in
      if in_round i t1 then thread_step ssl (Runs rand now i inp) t1 else t1)"

section \<open>Uninterrupted rounds are the steps of theory Dispatch\<close>

lemma answers_simps [simp]:
  "fst (answers reply cn sv) = sv" "fst (snd (answers reply cn sv)) = Some (Receiving, cn)" "snd (snd (answers reply cn sv)) = Some reply"
  by (simp_all add: answers_def)

definition then_second :: "rng \<Rightarrow> int \<Rightarrow> section_result \<Rightarrow> section_result" where
  "then_second rand now r =
     (case r of (sv, Some (pos, cn), reply) \<Rightarrow> if pos = Receiving then r else second_section rand now pos cn sv
      | (sv, None, reply) \<Rightarrow> r)"

definition as_round :: "section_result \<Rightarrow> server \<times> connection option \<times> string option" where
  "as_round r = (case r of (sv, at, reply) \<Rightarrow> (sv, map_option snd at, reply))"

lemma then_second_answers [simp]: "then_second rand now (answers reply cn sv) = answers reply cn sv"
  by (simp add: then_second_def answers_def)

lemma then_second_more [simp]: "pos \<noteq> Receiving \<Longrightarrow> then_second rand now (sv, Some (pos, cn), reply) = second_section rand now pos cn sv"
  by (simp add: then_second_def)

lemma as_round_answers [simp]: "as_round (answers reply cn sv) = (sv, Some cn, Some reply)"
  by (simp add: as_round_def answers_def)

lemma refused_login_reply: "login ssl u pw ip port st = (st', r) \<Longrightarrow> \<not> res_ok r \<Longrightarrow> take 3 (res_msg r) \<noteq> ''OK ''"
  by (auto simp: login_def split: option.splits if_splits)

lemma login_sections:
  "as_round (then_second rand now (login_section ssl comds cn sv)) =
   (case dispatch_login ssl rand now comds (cn_peer_ip cn) sv of (sv', reply) \<Rightarrow>
      (sv', Some (if take 3 reply = ''OK '' then cn\<lparr>session_user := comds ! 1, session_token := drop 3 reply\<rparr> else cn), Some reply))"
proof (cases "parse_int (comds ! 3)")
  case None
  then show ?thesis by (simp add: login_section_def dispatch_login_def)
next
  case (Some port)
  obtain st r where l: "login ssl (comds ! 1) (comds ! 2) (cn_peer_ip cn) (comds ! 3) (sv_state sv) = (st, r)" by fastforce
  obtain sess token where s: "session_create rand now (comds ! 1) (cn_peer_ip cn) (comds ! 3) (sv_sessions sv) = (sess, token)" by fastforce
  show ?thesis using Some refused_login_reply [OF l]
    by (auto simp: login_section_def dispatch_login_def l s Let_def simp del: One_nat_def)
qed

lemma logout_sections:
  "as_round (then_second rand now (logout_section token cn sv)) =
   (case dispatch_logout token sv of (sv', reply) \<Rightarrow> (sv', Some (forget cn), Some reply))"
  by (simp add: logout_section_def dispatch_logout_def Let_def case_prod_beta)

lemma sections_compose:
  "managepeer_step ssl rand now inp cn sv = as_round (then_second rand now (first_section ssl rand now inp cn sv))"
proof (cases inp)
  case Closed
  then show ?thesis by (simp add: managepeer_step_def first_section_def then_second_def as_round_def Let_def)
next
  case (Received buff)
  let ?c = "split_args buff"
  let ?first = "first_section ssl rand now inp cn sv" and ?d = "dispatch ssl rand now ?c (cn_peer_ip cn) buff sv"
  have step: "?c \<noteq> [] \<Longrightarrow> managepeer_step ssl rand now inp cn sv = (case ?d of (sv', reply) \<Rightarrow>
      (sv', Some (if ?c ! 0 = ''login'' \<and> take 3 reply = ''OK '' then cn\<lparr>session_user := ?c ! 1, session_token := drop 3 reply\<rparr>
        else if ?c ! 0 = ''logout'' then forget cn else cn), Some reply))"
    by (simp add: managepeer_step_def Received Let_def forget_def)
  consider "?c = []" | "?c \<noteq> []" "?c ! 0 \<in> {''SYNC_REQ'', ''STATE'', ''create_user''}"
    | "?c \<noteq> []" "?c ! 0 = ''login''" | "?c \<noteq> []" "?c ! 0 = ''logout''"
    | (rest) "?c \<noteq> []" "?c ! 0 \<notin> {''SYNC_REQ'', ''STATE'', ''create_user'', ''login'', ''logout''}" by blast
  then show ?thesis
  proof cases
    case 1
    then show ?thesis by (simp add: managepeer_step_def first_section_def Received)
  next
    case 2
    then show ?thesis unfolding step [OF 2(1)]
      by (auto simp: first_section_def Received dispatch_def Let_def split: prod.split)
  next
    case 3
    then have "?d = dispatch_login ssl rand now ?c (cn_peer_ip cn) sv" "?first = login_section ssl ?c cn sv"
      by (simp_all add: dispatch_def first_section_def Received Let_def)
    then show ?thesis unfolding step [OF 3(1)] using 3(2) login_sections [of rand now ssl ?c cn sv] by (simp split: prod.split)
  next
    case 4
    show ?thesis
    proof (cases "length ?c < 2")
      case True
      then show ?thesis unfolding step [OF 4(1)] using 4 by (simp add: dispatch_def first_section_def Received Let_def)
    next
      case False
      then have "?d = dispatch_logout (?c ! 1) sv" "?first = logout_section (?c ! 1) cn sv"
        using 4 by (simp_all add: dispatch_def first_section_def Received Let_def)
      then show ?thesis unfolding step [OF 4(1)] using 4(2) logout_sections [of rand now "?c ! 1" cn sv] by (simp split: prod.split)
    qed
  next
    case rest
    obtain sess u where su: "session_username_for now (?c ! 1) (sv_sessions sv) = (sess, u)" by fastforce
    show ?thesis unfolding step [OF rest(1)] using rest
      by (cases u) (simp_all add: dispatch_def first_section_def Received Let_def su case_prod_beta del: One_nat_def)
  qed
qed

lemma first_section_open: "fst (snd (first_section ssl rand now inp cn sv)) \<noteq> None"
  by (simp add: first_section_def Let_def login_section_def logout_section_def case_prod_beta answers_def split: conn_input.split option.split)

lemma second_section_ends:
  "pos \<noteq> Receiving \<Longrightarrow> fst (snd (second_section rand now pos cn sv)) = None \<or> (\<exists>cn'. fst (snd (second_section rand now pos cn sv)) = Some (Receiving, cn'))"
  by (cases pos) (simp_all add: case_prod_beta)

lemma thread_section_more: "pos \<noteq> Receiving \<Longrightarrow> thread_section ssl rand now inp (pos, cn) sv = second_section rand now pos cn sv"
  by (cases pos) simp_all

lemma between_rounds_step: "whole_round ssl e (between_rounds w) = between_rounds (world_step ssl e w)"
proof (cases e)
  case (Accept i ip)
  then show ?thesis by (auto simp: between_rounds_def update_conv' fun_eq_iff)
next
  case (Input rand now i inp)
  let ?t = "between_rounds w"
  show ?thesis
  proof (cases "map_of (wd_conns w) i")
    case None
    then show ?thesis by (simp add: Input between_rounds_def in_round_def)
  next
    case (Some cn)
    obtain sv1 at1 r1 where f: "first_section ssl rand now inp cn (wd_server w) = (sv1, at1, r1)" using prod_cases3 by blast
    then obtain pos cn1 where at1: "at1 = Some (pos, cn1)" using first_section_open [of ssl rand now inp cn "wd_server w"] by auto
    let ?t1 = "\<lparr>th_server = sv1, th_at = (th_at ?t)(i \<mapsto> (pos, cn1))\<rparr>"
    have t1: "thread_step ssl (Runs rand now i inp) ?t = ?t1"
      using Some f at1 by (simp add: between_rounds_def)
    then have w: "whole_round ssl e ?t = (if in_round i ?t1 then thread_step ssl (Runs rand now i inp) ?t1 else ?t1)"
      by (simp only: Input whole_round.simps t1 Let_def)
    note m = sections_compose [of ssl rand now inp cn "wd_server w", unfolded f at1]
    show ?thesis
    proof (cases "pos = Receiving")
      case True
      then have "\<not> in_round i ?t1" by (simp add: in_round_def)
      then show ?thesis using m True Some
        unfolding w by (simp add: Input then_second_def as_round_def) (simp add: between_rounds_def update_conv' fun_eq_iff)
    next
      case False
      then have ir: "in_round i ?t1" by (cases pos) (simp_all add: in_round_def)
      obtain sv2 at2 r2 where s2: "second_section rand now pos cn1 sv1 = (sv2, at2, r2)" using prod_cases3 by blast
      then have at2: "at2 = None \<or> (\<exists>cn2. at2 = Some (Receiving, cn2))" using second_section_ends [OF False, of rand now cn1 sv1] by simp
      have "thread_step ssl (Runs rand now i inp) ?t1 = \<lparr>th_server = sv2, th_at = (th_at ?t)(i := at2)\<rparr>"
        using thread_section_more [OF False] s2 by (simp add: case_prod_beta)
      moreover have "managepeer_step ssl rand now inp cn (wd_server w) = (sv2, map_option snd at2, r2)"
        using m False s2 by (simp add: as_round_def)
      ultimately show ?thesis using at2 ir Some unfolding w
        by (auto simp: Input between_rounds_def update_conv' delete_conv' fun_eq_iff)
    qed
  qed
qed

section \<open>What one section does\<close>

lemma login_section_state:
  "sv_state (fst (login_section ssl comds cn sv)) = sv_state (fst (dispatch_login ssl rand now comds (cn_peer_ip cn) sv))"
  by (simp add: login_section_def dispatch_login_def Let_def case_prod_beta split: option.split)

lemma first_section_state:
  assumes "fst (first_section ssl rand now (Received buff) cn sv) = sv'"
  shows "sv_state sv' = sv_state sv \<or> split_args buff ! 0 \<in> {''STATE'', ''create_user'', ''login''} \<and>
    sv_state sv' = sv_state (fst (dispatch ssl rand now (split_args buff) (cn_peer_ip cn) buff sv))"
proof -
  let ?c = "split_args buff"
  consider "?c = []" | "?c \<noteq> []" "?c ! 0 = ''STATE''" | "?c \<noteq> []" "?c ! 0 = ''create_user''" | "?c \<noteq> []" "?c ! 0 = ''login''"
    | (rest) "?c \<noteq> []" "?c ! 0 \<notin> {''STATE'', ''create_user'', ''login''}" by blast
  then show ?thesis
  proof cases
    case 4
    then show ?thesis using assms login_section_state [of ssl ?c cn sv rand now]
      by (simp add: first_section_def dispatch_def Let_def)
  next
    case rest
    then show ?thesis using assms
      by (auto simp: first_section_def logout_section_def Let_def case_prod_beta split: option.splits if_splits)
  qed (use assms in \<open>auto simp: first_section_def dispatch_def Let_def case_prod_beta\<close>)
qed

lemma first_section_closed: "sv_state (fst (first_section ssl rand now Closed cn sv)) = sv_state sv"
  by (simp add: first_section_def)

text \<open>Where the first section leads, and what it has seen in the table of sessions.\<close>

definition seen_live :: "sessions \<Rightarrow> int \<Rightarrow> string list \<Rightarrow> string \<Rightarrow> bool" where
  "seen_live sess now comds u \<longleftrightarrow> 1 < length comds \<and>
     (\<exists>info. map_of sess (comds ! 1) = Some info \<and> si_username info = u \<and> (comds ! 0 = ''logout'' \<or> now < expires_at info))"

lemma first_section_authenticated:
  assumes "fst (snd (first_section ssl rand now inp cn sv)) = Some (Authenticated comds u, cn')"
  shows "cn' = cn \<and> (\<exists>buff. inp = Received buff \<and> comds = split_args buff \<and> seen_live (sv_sessions sv) now comds u)"
proof (cases inp)
  case (Received buff)
  obtain sess r where su: "session_username_for now (split_args buff ! 1) (sv_sessions sv) = (sess, r)" by fastforce
  from assms have "r = Some u \<and> comds = split_args buff \<and> cn' = cn \<and> 1 < length comds"
    by (auto simp: Received first_section_def login_section_def logout_section_def Let_def case_prod_beta answers_def su
      simp del: One_nat_def split: option.splits if_splits)
  then show ?thesis using Received username_for_Some [of now "split_args buff ! 1" "sv_sessions sv" sess u] su
    by (auto simp: seen_live_def simp del: One_nat_def)
qed (use assms in \<open>simp add: first_section_def\<close>)

lemma first_section_revoked:
  assumes "fst (snd (first_section ssl rand now inp cn sv)) = Some (Revoked u, cn')"
  shows "cn' = cn \<and> (\<exists>buff. inp = Received buff \<and> seen_live (sv_sessions sv) now (split_args buff) u)"
proof (cases inp)
  case (Received buff)
  from assms have "split_args buff ! 0 = ''logout'' \<and> snd (session_destroy (split_args buff ! 1) (sv_sessions sv)) = u \<and> u \<noteq> [] \<and> cn' = cn \<and>
      1 < length (split_args buff)"
    by (auto simp: Received first_section_def login_section_def logout_section_def Let_def case_prod_beta answers_def
      simp del: One_nat_def split: option.splits if_splits)
  then show ?thesis using Received
    by (auto simp: seen_live_def session_destroy_def simp del: One_nat_def split: option.splits)
qed (use assms in \<open>simp add: first_section_def\<close>)

lemma first_section_verified:
  assumes "fst (snd (first_section ssl rand now inp cn sv)) = Some (Verified comds, cn')"
  shows "cn' = cn \<and> words comds \<and> length comds = 4"
proof (cases inp)
  case (Received buff)
  then show ?thesis using assms split_args_are_words [of buff]
    by (auto simp: first_section_def login_section_def logout_section_def Let_def case_prod_beta answers_def split: option.splits if_splits)
qed (use assms in \<open>simp add: first_section_def\<close>)

lemma first_section_conn:
  assumes "fst (snd (first_section ssl rand now inp cn sv)) = Some (pos, cn')"
  shows "cn' = cn \<or> cn' = forget cn"
  using assms
  by (auto simp: first_section_def login_section_def logout_section_def Let_def case_prod_beta answers_def split: conn_input.splits option.splits if_splits)

lemma first_section_sessions:
  assumes "sessions_ok (sv_sessions sv)"
  shows "sessions_ok (sv_sessions (fst (first_section ssl rand now inp cn sv)))"
  using assms sessions_ok_destroy [OF assms] sessions_ok_lookup_kept [OF assms]
  by (auto simp: first_section_def login_section_def logout_section_def dispatch_state_def reply_with_def Let_def case_prod_beta
    split: conn_input.splits option.splits)

section \<open>The invariant of all interleavings\<close>

fun pos_ok :: "position \<Rightarrow> bool" where
  "pos_ok (Authenticated comds u) \<longleftrightarrow> words comds \<and> is_word u"
| "pos_ok (Verified comds) \<longleftrightarrow> words comds \<and> length comds = 4"
| "pos_ok (Revoked u) \<longleftrightarrow> is_word u"
| "pos_ok pos \<longleftrightarrow> True"

definition thread_ok :: "position \<times> connection \<Rightarrow> bool" where
  "thread_ok pc \<longleftrightarrow> pos_ok (fst pc) \<and> conn_ok (0, snd pc) \<and> is_word (cn_peer_ip (snd pc))"

definition server_typed :: "server \<Rightarrow> bool" where
  "server_typed sv \<longleftrightarrow> server_ok sv \<and> addresses_typed (sv_state sv)"

definition threads_ok :: "threads \<Rightarrow> bool" where
  "threads_ok t \<longleftrightarrow> server_typed (th_server t) \<and> (\<forall>i pc. th_at t i = Some pc \<longrightarrow> thread_ok pc)"

lemma thread_ok_forget: "is_word (cn_peer_ip cn) \<Longrightarrow> conn_ok (0, forget cn) \<and> is_word (cn_peer_ip (forget cn))"
  by (simp add: conn_ok_def forget_def)

lemma seen_live_word: "sessions_ok sess \<Longrightarrow> seen_live sess now comds u \<Longrightarrow> is_word u"
  using sessions_ok_lookup by (auto simp: seen_live_def)

lemma first_section_ok:
  assumes sv: "server_typed sv" and cn: "thread_ok (Receiving, cn)" and r: "first_section ssl rand now inp cn sv = (sv', at, reply)"
  shows "server_typed sv' \<and> (\<forall>pc. at = Some pc \<longrightarrow> thread_ok pc)"
proof
  have ok: "server_ok sv" "sessions_ok (sv_sessions sv)" "addresses_typed (sv_state sv)"
    using sv by (simp_all add: server_typed_def server_ok_def)
  have ip: "is_word (cn_peer_ip cn)" using cn by (simp add: thread_ok_def)
  have "stored_ok (sv_state sv') \<and> addresses_typed (sv_state sv')"
  proof (cases inp)
    case Closed
    then show ?thesis using ok r first_section_closed [of ssl rand now cn sv] by (simp add: server_ok_def)
  next
    case (Received buff)
    then show ?thesis
      using first_section_state [of ssl rand now buff cn sv sv'] r ok
        dispatch_ok [OF split_args_are_words ok(1), of ssl rand now buff "cn_peer_ip cn" buff]
        typed_dispatch [OF ok(3) split_args_are_words ip, of ssl rand now buff buff]
      by (auto simp: server_ok_def)
  qed
  moreover have "sessions_ok (sv_sessions sv')" using first_section_sessions [OF ok(2), of ssl rand now inp cn] r by simp
  ultimately show "server_typed sv'" by (simp add: server_typed_def server_ok_def)
  show "\<forall>pc. at = Some pc \<longrightarrow> thread_ok pc"
  proof (intro allI impI)
    fix pc assume at: "at = Some pc"
    obtain pos cn' where pc: "pc = (pos, cn')" by fastforce
    have "cn' = cn \<or> cn' = forget cn" using first_section_conn [of ssl rand now inp cn sv pos cn'] r at pc by simp
    then have "conn_ok (0, cn') \<and> is_word (cn_peer_ip cn')" using cn thread_ok_forget [OF ip] by (auto simp: thread_ok_def)
    moreover have "pos_ok pos"
    proof (cases pos)
      case (Authenticated comds u)
      then show ?thesis using first_section_authenticated [of ssl rand now inp cn sv comds u cn'] r at pc
          seen_live_word [OF ok(2)] split_args_are_words by auto
    next
      case (Verified comds)
      then show ?thesis using first_section_verified [of ssl rand now inp cn sv comds cn'] r at pc by simp
    next
      case (Revoked u)
      then show ?thesis using first_section_revoked [of ssl rand now inp cn sv u cn'] r at pc seen_live_word [OF ok(2)] by auto
    qed simp_all
    ultimately show "thread_ok pc" by (simp add: thread_ok_def pc)
  qed
qed

lemma second_section_ok:
  assumes sv: "server_typed sv" and pc: "thread_ok (pos, cn)" and r: "second_section rand now pos cn sv = (sv', at, reply)"
  shows "server_typed sv' \<and> (\<forall>pc. at = Some pc \<longrightarrow> thread_ok pc)"
proof -
  have ok: "stored_ok (sv_state sv)" "sessions_ok (sv_sessions sv)" "addresses_typed (sv_state sv)" and conn: "conn_ok (0, cn)"
    and ip: "is_word (cn_peer_ip cn)" using assms by (simp_all add: server_typed_def server_ok_def thread_ok_def)
  show ?thesis
  proof (cases pos)
    case (Authenticated comds u)
    then have w: "words comds" "is_word u" using pc by (simp_all add: thread_ok_def)
    let ?sv = "fst (dispatch_session comds u sv)"
    have "stored_ok (sv_state ?sv)"
      using effect_session [OF w, of undefined undefined sv] ok(1) stored_ok_run_op by (auto simp: effect_of_def)
    moreover have "addresses_typed (sv_state ?sv)" by (rule typed_no_new_online [OF ok(3)]) (simp add: session_peers)
    ultimately show ?thesis using r Authenticated ok conn ip
      by (auto simp: case_prod_beta answers_def server_typed_def server_ok_def thread_ok_def dispatch_session_sessions)
  next
    case (Verified comds)
    then have w: "is_word (comds ! 1)" using pc word_arg [of comds 1] by (simp add: thread_ok_def del: One_nat_def)
    have "sessions_ok (fst (session_create rand now (comds ! 1) (cn_peer_ip cn) (comds ! 3) (sv_sessions sv)))"
      by (rule sessions_ok_create [OF ok(2) w])
    then show ?thesis using r Verified ok conn ip w
      by (auto simp: case_prod_beta answers_def server_typed_def server_ok_def thread_ok_def conn_ok_def simp del: One_nat_def split: if_splits)
  next
    case (Revoked u)
    then have w: "op_words (Logout u)" using pc by (simp add: thread_ok_def)
    have "stored_ok (fst (logout u (sv_state sv)))" using stored_ok_run_op [OF ok(1) w] by simp
    moreover have "addresses_typed (fst (logout u (sv_state sv)))"
      using typed_no_new_online [OF ok(3) no_new_online_run_op [of "Logout u"]] by simp
    ultimately show ?thesis using r Revoked ok thread_ok_forget [OF ip]
      by (auto simp: case_prod_beta answers_def reply_with_def server_typed_def server_ok_def thread_ok_def)
  next
    case Dropped
    have "stored_ok (handle_disconnect (session_user cn) (sv_state sv))"
      using conn by (intro stored_ok_disconnect [OF ok(1)]) (simp add: conn_ok_def)
    moreover have "addresses_typed (handle_disconnect u (sv_state sv))" for u
      using typed_no_new_online [OF ok(3) no_new_online_run_op [of "Disconnect u"]] by simp
    ultimately show ?thesis using r Dropped ok by (auto simp: server_typed_def server_ok_def)
  next
    case Receiving
    then show ?thesis using r assms by auto
  qed
qed

fun address_known :: "thread_event \<Rightarrow> bool" where
  "address_known (Opens i ip) \<longleftrightarrow> ip = [] \<or> is_word ip"
| "address_known e \<longleftrightarrow> True"

lemma threads_ok_step:
  assumes "threads_ok t" "address_known e"
  shows "threads_ok (thread_step ssl e t)"
proof (cases e)
  case (Opens i ip)
  then show ?thesis using assms by (auto simp: threads_ok_def thread_ok_def conn_ok_def)
next
  case (Runs rand now i inp)
  show ?thesis
  proof (cases "th_at t i")
    case None
    then show ?thesis using assms(1) Runs by simp
  next
    case (Some pc)
    obtain pos cn where pc: "pc = (pos, cn)" by fastforce
    obtain sv at reply where r: "thread_section ssl rand now inp pc (th_server t) = (sv, at, reply)" using prod_cases3 by blast
    have ok: "server_typed (th_server t)" "thread_ok (pos, cn)" using assms(1) Some pc by (auto simp: threads_ok_def)
    have "server_typed sv \<and> (\<forall>pc. at = Some pc \<longrightarrow> thread_ok pc)"
    proof (cases "pos = Receiving")
      case True
      then show ?thesis using first_section_ok [OF ok(1), of cn] ok(2) r pc by simp
    next
      case False
      then show ?thesis using second_section_ok [OF ok] r pc by (simp add: thread_section_more)
    qed
    then show ?thesis using assms(1) by (simp add: Runs Some r threads_ok_def)
  qed
qed

lemma threads_ok_run: "threads_ok t \<Longrightarrow> \<forall>e \<in> set es. address_known e \<Longrightarrow> threads_ok (fold (thread_step ssl) es t)"
  by (induction es arbitrary: t) (simp_all add: threads_ok_step)

lemma threads_ok_booted: "threads_ok (between_rounds (booted fs path))"
  using booted_ok [of fs path] world_typed_booted [of fs path]
  by (simp add: threads_ok_def between_rounds_def server_typed_def world_ok_def world_typed_def booted_def fresh_world_def)

section \<open>Whom a change is made for\<close>

fun runs :: "nat \<Rightarrow> thread_event \<Rightarrow> bool" where
  "runs i (Runs rand now j inp) \<longleftrightarrow> i = j"
| "runs i (Opens j ip) \<longleftrightarrow> False"

text \<open>Thread \<open>i\<close> is in a round in whose first section it found \<open>u\<close>'s token in the table.\<close>

definition token_seen :: "openssl \<Rightarrow> threads \<Rightarrow> thread_event list \<Rightarrow> nat \<Rightarrow> string \<Rightarrow> bool" where
  "token_seen ssl t0 es i u \<longleftrightarrow> (\<exists>before rand now buff after.
     es = before @ Runs rand now i (Received buff) # after \<and> (\<forall>e \<in> set after. \<not> runs i e) \<and>
     seen_live (sv_sessions (th_server (fold (thread_step ssl) before t0))) now (split_args buff) u)"

lemma token_seen_later: "token_seen ssl t0 es i u \<Longrightarrow> \<not> runs i e \<Longrightarrow> token_seen ssl t0 (es @ [e]) i u"
proof -
  assume "token_seen ssl t0 es i u" "\<not> runs i e"
  then obtain before rand now buff after where s: "es = before @ Runs rand now i (Received buff) # after" "\<forall>e \<in> set after. \<not> runs i e"
      "seen_live (sv_sessions (th_server (fold (thread_step ssl) before t0))) now (split_args buff) u"
    by (auto simp: token_seen_def)
  have "es @ [e] = before @ Runs rand now i (Received buff) # (after @ [e])" using s(1) by simp
  moreover have "\<forall>x \<in> set (after @ [e]). \<not> runs i x" using s(2) \<open>\<not> runs i e\<close> by simp
  ultimately show ?thesis using s(3) unfolding token_seen_def by blast
qed

lemma token_seen_now:
  "seen_live (sv_sessions (th_server (fold (thread_step ssl) es t0))) now (split_args buff) u \<Longrightarrow>
   token_seen ssl t0 (es @ [Runs rand now i (Received buff)]) i u"
  unfolding token_seen_def by force

lemma other_section_keeps:
  "\<not> runs i e \<Longrightarrow> th_at (thread_step ssl e t) i = Some (pos, cn) \<Longrightarrow> pos \<noteq> Receiving \<Longrightarrow> th_at t i = Some (pos, cn)"
  by (cases e) (auto simp: case_prod_beta split: if_splits option.splits)

lemma own_section:
  assumes "th_at (thread_step ssl (Runs rand now i inp) t) i = Some (pos, cn)" "pos \<noteq> Receiving"
  obtains cn0 where "th_at t i = Some (Receiving, cn0)"
    "fst (snd (first_section ssl rand now inp cn0 (th_server t))) = Some (pos, cn)"
proof (cases "th_at t i")
  case (Some pc)
  obtain pos0 cn0 where pc: "pc = (pos0, cn0)" by fastforce
  have "fst (snd (thread_section ssl rand now inp (pos0, cn0) (th_server t))) = Some (pos, cn)"
    using assms(1) Some pc by (simp add: case_prod_beta)
  moreover from this have "pos0 = Receiving"
    using second_section_ends [of pos0 rand now cn0 "th_server t"] assms(2) by (cases "pos0 = Receiving") (auto simp: thread_section_more)
  ultimately show ?thesis using that Some pc by simp
qed (use assms in simp)

lemma acting_has_seen:
  assumes "th_at (fold (thread_step ssl) es (between_rounds w)) i = Some (pos, cn)"
    and "pos = Authenticated comds u \<or> pos = Revoked u"
  shows "token_seen ssl (between_rounds w) es i u"
  using assms(1)
proof (induction es rule: rev_induct)
  case Nil
  then show ?case using assms(2) by (auto simp: between_rounds_def)
next
  case (snoc e es)
  let ?t = "fold (thread_step ssl) es (between_rounds w)"
  have pos: "pos \<noteq> Receiving" using assms(2) by auto
  have at: "th_at (thread_step ssl e ?t) i = Some (pos, cn)" using snoc.prems by simp
  show ?case
  proof (cases "runs i e")
    case False
    then show ?thesis using snoc.IH other_section_keeps [OF False at pos] token_seen_later by blast
  next
    case True
    then obtain rand now inp where e: "e = Runs rand now i inp" by (cases e) auto
    obtain cn0 where "fst (snd (first_section ssl rand now inp cn0 (th_server ?t))) = Some (pos, cn)"
      using own_section [OF at [unfolded e] pos] .
    then obtain buff where "inp = Received buff" "seen_live (sv_sessions (th_server ?t)) now (split_args buff) u"
      using assms(2) first_section_authenticated first_section_revoked by blast
    then show ?thesis using token_seen_now e by blast
  qed
qed

section \<open>Properties\<close>

text \<open>
  A run in which no thread is interrupted inside a round is a run of theory Dispatch: the rounds of
  \<open>dispatch\<close> and \<open>managepeer\<close> as single steps are what their critical sections do one after the other.
\<close>

lemma uninterrupted_rounds_are_steps:
  "fold (whole_round ssl) es (between_rounds w) = between_rounds (fold (world_step ssl) es w)"
  by (induction es arbitrary: w) (simp_all add: between_rounds_step)

text \<open>
  C17: However the critical sections of all connections interleave, every state the tracker reaches from any
  snapshot file, good or not, and whatever bytes clients and the other tracker send, is well-typed: all
  names, group ids, file names, hashes and tokens are single words of the protocol, piece counts match the
  hash lists, and whoever is marked online has an address and a port between 1 and 65535. (Connections come
  from addresses written without white space, as \<open>inet_ntop\<close> writes them.)
\<close>

theorem interleaved_states_are_typed:
  assumes "\<forall>e \<in> set es. address_known e" "sv = th_server (fold (thread_step ssl) es (between_rounds (booted fs path)))"
  shows "stored_ok (sv_state sv) \<and> sessions_ok (sv_sessions sv) \<and>
    (\<forall>n p. map_of (st_peers (sv_state sv)) n = Some p \<longrightarrow> connected p \<longrightarrow>
       is_word n \<and> is_word (hostip p) \<and> (\<exists>port. parse_int (hostport p) = Some port \<and> 0 < port \<and> port \<le> 65535))"
proof -
  have "threads_ok (fold (thread_step ssl) es (between_rounds (booted fs path)))" by (rule threads_ok_run [OF threads_ok_booted assms(1)])
  then have s: "stored_ok (sv_state sv)" "sessions_ok (sv_sessions sv)" "addresses_typed (sv_state sv)"
    by (simp_all add: assms(2) threads_ok_def server_typed_def server_ok_def)
  have "is_word (hostip p) \<and> (\<exists>port. parse_int (hostport p) = Some port \<and> 0 < port \<and> port \<le> 65535)"
    if "map_of (st_peers (sv_state sv)) n = Some p" "connected p" for n p
    using that s(3) by (fastforce simp: addresses_typed_def online_at_def valid_port_def split: option.splits)
  moreover have "is_word n" if "map_of (st_peers (sv_state sv)) n = Some p" for n p
    using stored_ok_lookup(1) [OF s(1) that] by (simp add: peer_ok_def)
  ultimately show ?thesis using s by blast
qed

theorem interleaved_states_are_typed_witness:
  "stored_ok (sv_state (th_server (fold (thread_step demo_ssl)
     [Opens 1 ''10.0.0.1'', Opens 2 ''10.0.0.2'', Runs demo_rand 7 1 (Received ''create_user alice pw''),
      Runs demo_rand 7 1 (Received ''login alice pw 7000''), Runs demo_rand 7 2 (Received ''STATE x''), Runs demo_rand 8 1 Closed]
     (between_rounds (booted (\<lambda>p. None) ''db'')))))"
  by (rule interleaved_states_are_typed [OF _ refl, THEN conjunct1]) (simp add: is_word_def isspace_def)

text \<open>
  C6: Nobody's rights are borrowed by interleaving: whatever other threads do between the two critical
  sections of a round, a section changes the tracker's state only by merging a \<open>STATE\<close> message of the other
  tracker, or by one method run for a user who is named by a \<open>create_user\<close> or (with his password) \<open>login\<close>
  command, whose live token the same thread found in the table of sessions in the section before (revoked
  and expired ones are not found, save that \<open>logout\<close> takes an expired one), or whose connection has ended.
\<close>

theorem interleaved_changes_are_authorised:
  assumes "\<forall>e \<in> set es. address_known e" "t0 = between_rounds (booted fs path)" "t = fold (thread_step ssl) es t0"
    and "st' = sv_state (th_server (thread_step ssl (Runs rand now i inp) t))" "st' \<noteq> sv_state (th_server t)"
  shows "(\<exists>buff. inp = Received buff \<and> split_args buff ! 0 = ''STATE'' \<and> (\<exists>cn. th_at t i = Some (Receiving, cn))) \<or>
    (\<exists>op. op_words op \<and> st' = fst (run_op ssl rand op (sv_state (th_server t))) \<and>
       ((\<exists>buff comds cn. inp = Received buff \<and> comds = split_args buff \<and> th_at t i = Some (Receiving, cn) \<and>
           (comds ! 0 = ''create_user'' \<and> op = CreateUser (comds ! 1) (comds ! 2) \<or>
            comds ! 0 = ''login'' \<and> op = Login (comds ! 1) (comds ! 2) (cn_peer_ip cn) (comds ! 3))) \<or>
        token_seen ssl t0 es i (op_actor op) \<or>
        (\<exists>cn. th_at t i = Some (Dropped, cn) \<and> op = Disconnect (session_user cn))))"
proof -
  have ok: "threads_ok t" unfolding assms(2,3) by (rule threads_ok_run [OF threads_ok_booted assms(1)])
  obtain pos cn where at: "th_at t i = Some (pos, cn)" using assms(4,5) by (cases "th_at t i") auto
  have sv: "sessions_ok (sv_sessions (th_server t))" and pc: "thread_ok (pos, cn)"
    using ok at by (auto simp: threads_ok_def server_typed_def server_ok_def)
  have st': "st' = sv_state (fst (thread_section ssl rand now inp (pos, cn) (th_server t)))"
    using assms(4) at by (simp add: case_prod_beta)
  have seen: "pos = Authenticated comds u \<or> pos = Revoked u \<Longrightarrow> token_seen ssl t0 es i u" for comds u
    using acting_has_seen at unfolding assms(2,3) by blast
  show ?thesis
  proof (cases pos)
    case Receiving
    then obtain buff where inp: "inp = Received buff"
      using st' assms(5) first_section_closed [of ssl rand now cn "th_server t"] by (cases inp) auto
    let ?d = "fst (dispatch ssl rand now (split_args buff) (cn_peer_ip cn) buff (th_server t))"
    have d: "split_args buff ! 0 \<in> {''STATE'', ''create_user'', ''login''}" "st' = sv_state ?d"
      using first_section_state [of ssl rand now buff cn "th_server t"] st' assms(5) Receiving inp by auto
    show ?thesis
    proof (cases "split_args buff ! 0 = ''STATE''")
      case True
      then show ?thesis using inp at Receiving by blast
    next
      case False
      let ?c = "split_args buff"
      let ?op = "if ?c ! 0 = ''create_user'' then CreateUser (?c ! 1) (?c ! 2) else Login (?c ! 1) (?c ! 2) (cn_peer_ip cn) (?c ! 3)"
      have "2 \<le> length ?c \<and> st' = fst (run_op ssl rand ?op (sv_state (th_server t)))"
      proof (cases "?c ! 0 = ''create_user''")
        case True
        then show ?thesis using d(2) assms(5)
          by (cases "length ?c = 3") (simp_all add: dispatch_def reply_with_def Let_def)
      next
        case False
        then have login: "?c ! 0 = ''login''" using d(1) \<open>?c ! 0 \<noteq> ''STATE''\<close> by simp
        then have "st' = sv_state (fst (dispatch_login ssl rand now ?c (cn_peer_ip cn) (th_server t)))" using d(2) by (simp add: dispatch_def)
        moreover have "length ?c = 4"
          using calculation assms(5) by (cases "length ?c = 4") (simp_all add: dispatch_login_def)
        moreover have "sv_state (fst (dispatch_login ssl rand now ?c (cn_peer_ip cn) sv)) \<in>
            {sv_state sv, fst (login ssl (?c ! 1) (?c ! 2) (cn_peer_ip cn) (?c ! 3) (sv_state sv))}" for sv
          by (simp add: dispatch_login_def Let_def case_prod_beta split: option.split)
        ultimately show ?thesis using assms(5) login by force
      qed
      moreover from this have "op_words ?op" using word_arg [OF split_args_are_words [of buff], of 1] by simp
      ultimately show ?thesis using d(1) inp at Receiving False by (auto simp del: One_nat_def)
    qed
  next
    case (Authenticated comds u)
    then have "words comds" "is_word u" using pc by (simp_all add: thread_ok_def)
    from effect_session [OF this, of ssl rand "th_server t"]
    show ?thesis using st' assms(5) Authenticated seen by (auto simp: case_prod_beta effect_of_def)
  next
    case (Verified comds)
    then show ?thesis using st' assms(5) by (simp add: case_prod_beta)
  next
    case (Revoked u)
    then have "op_words (Logout u)" using pc by (simp add: thread_ok_def)
    moreover have "st' = fst (run_op ssl rand (Logout u) (sv_state (th_server t)))"
      using st' Revoked by (simp add: case_prod_beta reply_with_def)
    ultimately show ?thesis using seen Revoked by (metis op_actor.simps(3))
  next
    case Dropped
    have "session_user cn \<noteq> []" using st' assms(5) Dropped by (auto simp: handle_disconnect_def)
    then have "op_words (Disconnect (session_user cn))" using pc by (auto simp: thread_ok_def conn_ok_def)
    moreover have "st' = fst (run_op ssl rand (Disconnect (session_user cn)) (sv_state (th_server t)))"
      using st' Dropped by simp
    ultimately show ?thesis using at Dropped by blast
  qed
qed

theorem interleaved_changes_are_authorised_witness:
  "\<exists>op. op_words op \<and> sv_state (th_server (fold (thread_step demo_ssl)
       [Opens 1 ''10.0.0.1'', Opens 2 ''10.0.0.2'', Runs demo_rand 7 1 (Received ''create_user alice pw'')]
       (between_rounds (booted (\<lambda>p. None) ''db'')))) = fst (run_op demo_ssl demo_rand op empty_state)"
proof -
  let ?t0 = "between_rounds (booted (\<lambda>p. None) ''db'')"
  let ?es = "[Opens 1 ''10.0.0.1'', Opens 2 ''10.0.0.2'']"
  let ?t = "fold (thread_step demo_ssl) ?es ?t0"
  let ?e = "Runs demo_rand 7 1 (Received ''create_user alice pw'')"
  have c: "split_args ''create_user alice pw'' = [''create_user'', ''alice'', ''pw'']"
    using split_demo_command [of "[''create_user'', ''alice'', ''pw'']"] by (simp add: demo_command_def is_word_def isspace_def)
  have at: "th_at ?t 1 = Some (Receiving, \<lparr>cn_peer_ip = ''10.0.0.1'', session_user = [], session_token = []\<rparr>)"
    and st: "sv_state (th_server ?t) = empty_state"
    by (simp_all add: between_rounds_def booted_def fresh_world_def load_snapshot_def)
  have "sv_state (th_server (thread_step demo_ssl ?e ?t)) = fst (create_user demo_ssl demo_rand ''alice'' ''pw'' empty_state)"
    using at st c by (simp add: first_section_def Let_def case_prod_beta reply_with_def)
  moreover have "fst (create_user demo_ssl demo_rand ''alice'' ''pw'' empty_state) \<noteq> empty_state"
    by (simp add: create_user_def lookup_defs empty_state_def Let_def hash_password_def random_hex_def demo_rand_def
        kSaltBytes_def sha256_hex_def digest_hex_def demo_ssl_def to_hex_def put_defs)
  ultimately have "sv_state (th_server (thread_step demo_ssl ?e ?t)) \<noteq> sv_state (th_server ?t)" using st by simp
  from interleaved_changes_are_authorised [OF _ refl refl refl this]
  have "\<exists>op. op_words op \<and> sv_state (th_server (thread_step demo_ssl ?e ?t)) = fst (run_op demo_ssl demo_rand op (sv_state (th_server ?t)))"
    using c by (auto simp: is_word_def isspace_def)
  then show ?thesis using st by simp
qed

end
