(* ===== verification/Tracker_Process.thy ===== *)
theory Tracker_Process imports Tracker_Main Examples
begin

text \<open>
  The tracker as one process (\<^verbatim>\<open>src/tracker/main.cpp\<close>, the end of \<open>main\<close> with \<open>on_signal\<close> and
  \<open>g_running\<close>, next to \<open>save_snapshot\<close> of \<^verbatim>\<open>src/tracker/persistence.cpp\<close>): the connections, the
  replication, the accept loop, the signal handler, and the three threads that may save the state, each save
  one system call at a time. Files are inodes, so that two saves on one temporary file show what they do to
  each other. The theory states what the snapshot file can hold at any moment.
\<close>

section \<open>The files of the snapshot\<close>

text \<open>Which inode the snapshot's name and the temporary's name stand for, and what the inodes hold.\<close>

record disk =
  dk_inodes :: "nat \<Rightarrow> string"
  dk_snapshot :: "nat option"
  dk_tmp :: "nat option"
  dk_next :: nat

definition snapshot_content :: "disk \<Rightarrow> string option" where
  "snapshot_content d = map_option (dk_inodes d) (dk_snapshot d)"

definition disk_ok :: "disk \<Rightarrow> bool" where
  "disk_ok d \<longleftrightarrow> (\<forall>i. dk_tmp d = Some i \<longrightarrow> i < dk_next d) \<and>
     (\<forall>i. dk_snapshot d = Some i \<longrightarrow> i < dk_next d \<and> dk_tmp d \<noteq> Some i)"

text \<open>How the operating system answers the next call of a save; \<open>Wrote n\<close> is a write of at most \<open>n\<close> bytes.\<close>

datatype answer = Refused | Granted | Wrote nat

text \<open>
  Where a thread that saves is: at rest, about to serialise, with the text in hand, writing (inode, offset
  and what is left), flushed and closed, about to remove the temporary, done with a result, ended.
\<close>

datatype phase =
    Resting
  | Starting
  | Serialized string
  | Writing nat nat string
  | Flushed
  | Removing
  | Over bool
  | Gone

text \<open>The next step of \<open>save_snapshot\<close>.\<close>

fun save_call :: "tracker_state \<Rightarrow> answer \<Rightarrow> phase \<Rightarrow> disk \<Rightarrow> phase \<times> disk" where
  "save_call st ans Starting d = (Serialized (serialize st), d)"
| "save_call st ans (Serialized text) d =
     (if ans = Refused then (Over False, d)
      else (case dk_tmp d of
          Some i \<Rightarrow> (Writing i 0 text, d\<lparr>dk_inodes := (dk_inodes d)(i := [])\<rparr>)
        | None \<Rightarrow> (Writing (dk_next d) 0 text,
            d\<lparr>dk_inodes := (dk_inodes d)(dk_next d := []), dk_tmp := Some (dk_next d), dk_next := Suc (dk_next d)\<rparr>)))"
| "save_call st ans (Writing i off rest) d =
     (case ans of
        Refused \<Rightarrow> (Removing, d)
      | Granted \<Rightarrow> (Flushed, d\<lparr>dk_inodes := (dk_inodes d)(i := write_at off rest (dk_inodes d i))\<rparr>)
      | Wrote n \<Rightarrow> (Writing i (off + length (take n rest)) (drop n rest),
          d\<lparr>dk_inodes := (dk_inodes d)(i := write_at off (take n rest) (dk_inodes d i))\<rparr>))"
| "save_call st ans Flushed d =
     (if ans = Refused \<or> dk_tmp d = None then (Removing, d)
      else (Over True, d\<lparr>dk_snapshot := dk_tmp d, dk_tmp := None\<rparr>))"
| "save_call st ans Removing d = (Over False, d\<lparr>dk_tmp := None\<rparr>)"
| "save_call st ans ph d = (ph, d)"

section \<open>The process\<close>

datatype saver = Periodic | Console | Main

record process =
  pr_world :: world
  pr_running :: bool
  pr_phase :: "saver \<Rightarrow> phase"
  pr_disk :: disk
  pr_exited :: bool

text \<open>The state the tracker has at a moment of the process.\<close>

definition state_of :: "process \<Rightarrow> tracker_state" where
  "state_of p = sv_state (wd_server (pr_world p))"

text \<open>
  \<open>socket_peer_ip\<close>: the address the operating system gives for the socket (\<open>getpeername\<close> may fail), as
  \<open>inet_ntop\<close> writes it (it may fail too).
\<close>

definition socket_peer_ip :: "bool \<Rightarrow> string option \<Rightarrow> string" where
  "socket_peer_ip named text = (if \<not> named then [] else (case text of None \<Rightarrow> [] | Some buf \<Rightarrow> buf))"

text \<open>
  A round of a connection; what the replication link merges; \<open>accept\<close> returning with a connection or
  without; a signal; the end of the snapshot thread's pause; a line at the console; the next call of a
  saving thread; a crash.
\<close>

datatype process_event =
    Round rng int nat conn_input
  | Replicated string
  | Accepted nat bool "string option"
  | Accept_failed
  | Signal
  | Wake
  | Line string
  | Call saver answer
  | Crash

definition enter :: "saver \<Rightarrow> phase \<Rightarrow> process \<Rightarrow> process" where
  "enter s ph p = p\<lparr>pr_phase := (pr_phase p)(s := ph)\<rparr>"

definition merged :: "string \<Rightarrow> world \<Rightarrow> world" where
  "merged data w = w\<lparr>wd_server := (wd_server w)\<lparr>sv_state := fst (merge_from data (sv_state (wd_server w)))\<rparr>\<rparr>"

text \<open>
  Once a save is over, the snapshot thread goes on with its loop, and the other two end the process. A
  connection accepted after the signal is still handed to its thread before the loop's condition is tested.
\<close>

definition process_turn :: "openssl \<Rightarrow> process_event \<Rightarrow> process \<Rightarrow> process" where
  "process_turn ssl e p =
     (if pr_exited p then p
      else (case e of
        Round rand now i inp \<Rightarrow> p\<lparr>pr_world := world_step ssl (Input rand now i inp) (pr_world p)\<rparr>
      | Replicated data \<Rightarrow> p\<lparr>pr_world := merged data (pr_world p)\<rparr>
      | Accepted i named text \<Rightarrow>
          if pr_phase p Main \<noteq> Resting then p
          else enter Main (if pr_running p then Resting else Starting)
            (p\<lparr>pr_world := world_step ssl (Accept i (socket_peer_ip named text)) (pr_world p)\<rparr>)
      | Accept_failed \<Rightarrow> if pr_phase p Main = Resting \<and> \<not> pr_running p then enter Main Starting p else p
      | Signal \<Rightarrow> p\<lparr>pr_running := False\<rparr>
      | Wake \<Rightarrow> if pr_phase p Periodic \<noteq> Resting then p else enter Periodic (if pr_running p then Starting else Gone) p
      | Line inp \<Rightarrow> if pr_phase p Console = Resting \<and> inp = ''quit'' then enter Console Starting p else p
      | Call s ans \<Rightarrow>
          (case pr_phase p s of
             Over ok \<Rightarrow> if s = Periodic then enter s Resting p else p\<lparr>pr_exited := True\<rparr>
           | ph \<Rightarrow> (case save_call (state_of p) ans ph (pr_disk p) of (ph', d) \<Rightarrow> enter s ph' (p\<lparr>pr_disk := d\<rparr>)))
      | Crash \<Rightarrow> p\<lparr>pr_exited := True\<rparr>))"

definition process_run :: "openssl \<Rightarrow> process_event list \<Rightarrow> process \<Rightarrow> process" where
  "process_run ssl es p = fold (process_turn ssl) es p"

definition started_process :: "world \<Rightarrow> disk \<Rightarrow> process" where
  "started_process w d = \<lparr>pr_world = w, pr_running = True, pr_phase = (\<lambda>s. Resting), pr_disk = d, pr_exited = False\<rparr>"

section \<open>What the snapshot file holds\<close>

text \<open>Not more than one thread is between serialising the state and the end of its save.\<close>

fun in_save :: "phase \<Rightarrow> bool" where
  "in_save (Serialized text) = True"
| "in_save (Writing i off rest) = True"
| "in_save Flushed = True"
| "in_save Removing = True"
| "in_save ph = False"

definition lone :: "process \<Rightarrow> bool" where
  "lone p \<longleftrightarrow> (\<forall>a b. in_save (pr_phase p a) \<longrightarrow> in_save (pr_phase p b) \<longrightarrow> a = b)"

text \<open>A save in progress works on the temporary, and completes it to one of the texts \<open>G\<close>.\<close>

fun phase_ok :: "string set \<Rightarrow> disk \<Rightarrow> phase \<Rightarrow> bool" where
  "phase_ok G d (Serialized text) \<longleftrightarrow> text \<in> G"
| "phase_ok G d (Writing i off rest) \<longleftrightarrow> dk_tmp d = Some i \<and> off = length (dk_inodes d i) \<and> dk_inodes d i @ rest \<in> G"
| "phase_ok G d Flushed \<longleftrightarrow> (\<exists>i. dk_tmp d = Some i \<and> dk_inodes d i \<in> G)"
| "phase_ok G d ph \<longleftrightarrow> True"

lemma phase_ok_outside [simp]: "\<not> in_save ph \<Longrightarrow> phase_ok G d ph"
  by (cases ph) auto

lemma phase_ok_mono: "phase_ok G d ph \<Longrightarrow> G \<subseteq> G' \<Longrightarrow> phase_ok G' d ph"
  by (cases ph) auto

definition holds_text :: "string set \<Rightarrow> disk \<Rightarrow> bool" where
  "holds_text G d \<longleftrightarrow> (\<exists>t \<in> G. snapshot_content d = Some t)"

lemma save_call_ok:
  assumes "save_call st ans ph d = (ph', d')" "disk_ok d" "phase_ok G d ph" "serialize st \<in> G"
  shows "disk_ok d' \<and> phase_ok G d' ph' \<and> (snapshot_content d' = snapshot_content d \<or> holds_text G d') \<and>
    (ph' = Over True \<longrightarrow> ph = Over True \<or> holds_text G d')"
  using assms
  by (cases "(st, ans, ph, d)" rule: save_call.cases)
    (auto simp: disk_ok_def snapshot_content_def holds_text_def write_at_end map_option_case split: if_splits option.splits answer.splits)

lemma save_call_outside: "\<not> in_save ph \<Longrightarrow> save_call st ans ph d = (ph', d') \<Longrightarrow> d' = d"
  by (cases "(st, ans, ph, d)" rule: save_call.cases) auto

text \<open>
  \<open>G\<close> are the texts of states the tracker has had, \<open>L\<close> those of states it has had since it was told to stop.
\<close>

definition process_inv :: "string set \<Rightarrow> string set \<Rightarrow> string option \<Rightarrow> process \<Rightarrow> bool" where
  "process_inv G L c p \<longleftrightarrow> disk_ok (pr_disk p) \<and> (snapshot_content (pr_disk p) = c \<or> holds_text G (pr_disk p)) \<and>
     (\<forall>s. phase_ok G (pr_disk p) (pr_phase p s)) \<and> phase_ok L (pr_disk p) (pr_phase p Main) \<and>
     (pr_phase p Main \<noteq> Resting \<longrightarrow> \<not> pr_running p) \<and>
     (pr_phase p Main = Over True \<longrightarrow> holds_text L (pr_disk p) \<and> (\<forall>s. phase_ok L (pr_disk p) (pr_phase p s)))"

lemma process_inv_mono:
  "process_inv G L c p \<Longrightarrow> G \<subseteq> G' \<Longrightarrow> L \<subseteq> L' \<Longrightarrow> process_inv G' L' c p"
  by (auto simp: process_inv_def holds_text_def intro: phase_ok_mono)

lemma process_inv_call:
  assumes inv: "process_inv G L c p" and "lone p" and G: "serialize (state_of p) \<in> G"
    and L: "\<not> pr_running p \<Longrightarrow> serialize (state_of p) \<in> L"
    and call: "save_call (state_of p) ans (pr_phase p s) (pr_disk p) = (ph, d)" and over: "pr_phase p s \<noteq> Over True"
  shows "process_inv G L c (enter s ph (p\<lparr>pr_disk := d\<rparr>))"
proof -
  let ?d = "pr_disk p" and ?ph = "pr_phase p" and ?p' = "enter s ph (p\<lparr>pr_disk := d\<rparr>)"
  have ok: "disk_ok ?d" "phase_ok G ?d (?ph s)" using inv by (simp_all add: process_inv_def)
  note G_step = save_call_ok [OF call ok G]
  have L_step: "phase_ok L d ph \<and> (snapshot_content d = snapshot_content ?d \<or> holds_text L d) \<and> (ph = Over True \<longrightarrow> holds_text L d)"
    if "phase_ok L ?d (?ph s)" "\<not> pr_running p"
    using save_call_ok [OF call ok(1) that(1) L [OF that(2)]] over by blast
  have rest: "phase_ok X d (?ph a)" if "a \<noteq> s" "phase_ok X ?d (?ph a)" for X a
  proof (cases "in_save (?ph a)")
    case True
    then have "\<not> in_save (?ph s)" using assms(2) that(1) by (auto simp: lone_def)
    then show ?thesis using save_call_outside [OF _ call] that(2) by simp
  qed simp
  have others: "\<not> in_save (?ph a)" if "a \<noteq> s" "ph = Over True" for a
  proof -
    have "in_save (?ph s)" using call that(2) over
      by (cases "(state_of p, ans, ?ph s, ?d)" rule: save_call.cases) (auto split: if_splits option.splits answer.splits)
    then show ?thesis using assms(2) that(1) by (auto simp: lone_def)
  qed
  have "snapshot_content d = c \<or> holds_text G d" using inv G_step by (auto simp: process_inv_def holds_text_def)
  moreover have "\<forall>a. phase_ok G d (((?ph)(s := ph)) a)" using inv G_step rest by (simp add: process_inv_def)
  moreover have "phase_ok L d (((?ph)(s := ph)) Main) \<and> (((?ph)(s := ph)) Main \<noteq> Resting \<longrightarrow> \<not> pr_running p) \<and>
      (((?ph)(s := ph)) Main = Over True \<longrightarrow> holds_text L d \<and> (\<forall>a. phase_ok L d (((?ph)(s := ph)) a)))"
  proof (cases "s = Main")
    case True
    show ?thesis
    proof (cases "?ph Main = Resting")
      case True
      then show ?thesis using call \<open>s = Main\<close> inv by (auto simp: process_inv_def)
    next
      case False
      then have "\<not> pr_running p" using inv by (simp add: process_inv_def)
      moreover from this have "phase_ok L d ph \<and> (ph = Over True \<longrightarrow> holds_text L d)"
        using L_step inv \<open>s = Main\<close> by (simp add: process_inv_def)
      ultimately show ?thesis using others \<open>s = Main\<close> by auto
    qed
  next
    case False
    have "holds_text L d \<and> (\<forall>a. phase_ok L d (((?ph)(s := ph)) a))" if "?ph Main = Over True"
    proof -
      have "\<not> pr_running p" "\<forall>a. phase_ok L ?d (?ph a)" "holds_text L ?d" using inv that by (auto simp: process_inv_def)
      then show ?thesis using L_step rest by (auto simp: holds_text_def)
    qed
    then show ?thesis using False inv rest [of Main L] by (auto simp: process_inv_def)
  qed
  ultimately show ?thesis using G_step by (simp add: process_inv_def enter_def)
qed

lemma process_inv_turn:
  assumes inv: "process_inv G L c p" and "lone p" and G: "serialize (state_of p) \<in> G"
    and L: "\<not> pr_running p \<Longrightarrow> serialize (state_of p) \<in> L"
  shows "process_inv G L c (process_turn ssl e p)"
proof (cases e)
  case (Call s ans)
  obtain ph d where call: "save_call (state_of p) ans (pr_phase p s) (pr_disk p) = (ph, d)" by fastforce
  have turn: "process_turn ssl e p =
      (if pr_exited p then p
       else if \<exists>ok. pr_phase p s = Over ok then (if s = Periodic then enter s Resting p else p\<lparr>pr_exited := True\<rparr>)
       else enter s ph (p\<lparr>pr_disk := d\<rparr>))"
  proof (cases "pr_phase p s")
    case (Over ok)
    then show ?thesis by (simp add: process_turn_def Call)
  qed (use call in \<open>simp_all add: process_turn_def Call\<close>)
  show ?thesis
  proof (cases "\<exists>ok. pr_phase p s = Over ok")
    case True
    then show ?thesis using inv by (auto simp: turn process_inv_def enter_def)
  next
    case False
    then have "process_inv G L c (enter s ph (p\<lparr>pr_disk := d\<rparr>))"
      using process_inv_call [OF assms call] by blast
    then show ?thesis using inv False by (simp add: turn)
  qed
qed (use inv in \<open>auto simp: process_turn_def process_inv_def enter_def\<close>)

definition texts_so_far :: "openssl \<Rightarrow> process \<Rightarrow> process_event list \<Rightarrow> string set" where
  "texts_so_far ssl p es = {serialize (state_of (process_run ssl (take n es) p)) | n. True}"

definition texts_since_stop :: "openssl \<Rightarrow> process \<Rightarrow> process_event list \<Rightarrow> string set" where
  "texts_since_stop ssl p es =
     {serialize (state_of (process_run ssl (take n es) p)) | n. \<not> pr_running (process_run ssl (take n es) p)}"

lemma take_of_longer: "\<exists>m. take m (es @ fs) = take n es"
  by (rule exI [of _ "min n (length es)"]) (simp add: min_def)

lemma texts_grow:
  "texts_so_far ssl p es \<subseteq> texts_so_far ssl p (es @ fs)"
  "texts_since_stop ssl p es \<subseteq> texts_since_stop ssl p (es @ fs)"
proof -
  show "texts_so_far ssl p es \<subseteq> texts_so_far ssl p (es @ fs)"
  proof
    fix t assume "t \<in> texts_so_far ssl p es"
    then obtain n where t: "t = serialize (state_of (process_run ssl (take n es) p))" by (auto simp: texts_so_far_def)
    obtain m where "take m (es @ fs) = take n es" using take_of_longer by blast
    with t have "t = serialize (state_of (process_run ssl (take m (es @ fs)) p))" by (simp only:)
    then show "t \<in> texts_so_far ssl p (es @ fs)" unfolding texts_so_far_def by blast
  qed
  show "texts_since_stop ssl p es \<subseteq> texts_since_stop ssl p (es @ fs)"
  proof
    fix t assume "t \<in> texts_since_stop ssl p es"
    then obtain n where t: "t = serialize (state_of (process_run ssl (take n es) p))" "\<not> pr_running (process_run ssl (take n es) p)"
      by (auto simp: texts_since_stop_def)
    obtain m where "take m (es @ fs) = take n es" using take_of_longer by blast
    then have "t = serialize (state_of (process_run ssl (take m (es @ fs)) p)) \<and> \<not> pr_running (process_run ssl (take m (es @ fs)) p)"
      using t by metis
    then show "t \<in> texts_since_stop ssl p (es @ fs)" unfolding texts_since_stop_def by blast
  qed
qed

lemma texts_now:
  "serialize (state_of (process_run ssl es p)) \<in> texts_so_far ssl p es"
  "\<not> pr_running (process_run ssl es p) \<Longrightarrow> serialize (state_of (process_run ssl es p)) \<in> texts_since_stop ssl p es"
  by (auto simp: texts_so_far_def texts_since_stop_def intro!: exI [of _ "length es"])

lemma process_inv_run:
  assumes "disk_ok d" "\<forall>n. lone (process_run ssl (take n es) (started_process w d))"
  shows "process_inv (texts_so_far ssl (started_process w d) es) (texts_since_stop ssl (started_process w d) es)
    (snapshot_content d) (process_run ssl es (started_process w d))"
  using assms(2)
proof (induction es rule: rev_induct)
  case Nil
  then show ?case using assms(1) by (simp add: process_run_def started_process_def process_inv_def)
next
  case (snoc e es)
  let ?p0 = "started_process w d"
  have "lone (process_run ssl (take n es) ?p0)" for n
    using snoc.prems [rule_format, of "min n (length es)"] by (cases "n \<le> length es") (simp_all add: min_def)
  moreover from this have "lone (process_run ssl es ?p0)" by (metis take_all_iff order_refl)
  ultimately have "process_inv (texts_so_far ssl ?p0 es) (texts_since_stop ssl ?p0 es) (snapshot_content d)
      (process_turn ssl e (process_run ssl es ?p0))"
    using snoc.IH texts_now by (intro process_inv_turn) blast+
  then show ?case
    using process_inv_mono texts_grow by (fastforce simp: process_run_def)
qed

section \<open>Properties\<close>

text \<open>
  C9: As long as two saves do not overlap, whatever the connections, the replication, signals, failing
  system calls and crashes do, the snapshot file holds at every moment what it held at the start or the
  complete text of a state the tracker has had; and once the save that follows a signal has succeeded, it
  holds the text of a state from after the signal, whichever saves were under way before.
\<close>

theorem snapshot_is_never_torn:
  assumes "disk_ok d" "\<forall>n. lone (process_run ssl (take n es) (started_process w d))"
    and "p = process_run ssl es (started_process w d)"
  shows "(snapshot_content (pr_disk p) = snapshot_content d \<or>
      (\<exists>n. snapshot_content (pr_disk p) = Some (serialize (state_of (process_run ssl (take n es) (started_process w d)))))) \<and>
    (pr_phase p Main = Over True \<longrightarrow>
      (\<exists>n. \<not> pr_running (process_run ssl (take n es) (started_process w d)) \<and>
         snapshot_content (pr_disk p) = Some (serialize (state_of (process_run ssl (take n es) (started_process w d))))))"
  using process_inv_run [OF assms(1,2)] unfolding assms(3) process_inv_def
  by (fastforce simp: holds_text_def texts_so_far_def texts_since_stop_def)

definition empty_disk :: disk where
  "empty_disk = \<lparr>dk_inodes = (\<lambda>i. []), dk_snapshot = None, dk_tmp = None, dk_next = 0\<rparr>"

definition stop_events :: "process_event list" where
  "stop_events = [Signal, Accept_failed, Call Main Granted, Call Main Granted, Call Main Granted, Call Main Granted]"

lemma lone_main: "pr_phase p Periodic = Resting \<Longrightarrow> pr_phase p Console = Resting \<Longrightarrow> lone p"
  unfolding lone_def by (metis in_save.simps(5) saver.exhaust)

theorem snapshot_is_never_torn_witness:
  "\<exists>p. p = process_run demo_ssl stop_events (started_process fresh_world empty_disk) \<and>
    pr_phase p Main = Over True \<and> (\<exists>t. snapshot_content (pr_disk p) = Some (serialize t))"
proof -
  let ?run = "\<lambda>es. process_run demo_ssl es (started_process fresh_world empty_disk)"
  have quiet: "\<forall>e \<in> set es. e = Signal \<or> e = Accept_failed \<or> e = Call Main Granted \<Longrightarrow>
      pr_phase (?run es) Periodic = Resting \<and> pr_phase (?run es) Console = Resting" for es
    by (induction es rule: rev_induct)
      (auto simp: process_run_def started_process_def process_turn_def enter_def split: phase.splits prod.splits)
  have lone: "\<forall>n. lone (?run (take n stop_events))"
  proof
    fix n
    have "\<forall>e \<in> set (take n stop_events). e = Signal \<or> e = Accept_failed \<or> e = Call Main Granted"
      by (auto simp: stop_events_def dest: in_set_takeD)
    then show "lone (?run (take n stop_events))" using quiet lone_main by blast
  qed
  have "disk_ok empty_disk" by (simp add: disk_ok_def empty_disk_def)
  from snapshot_is_never_torn [OF this lone refl]
  have "pr_phase (?run stop_events) Main = Over True \<longrightarrow> (\<exists>t. snapshot_content (pr_disk (?run stop_events)) = Some (serialize t))"
    by blast
  moreover have "pr_phase (?run stop_events) Main = Over True"
    by (simp add: process_run_def stop_events_def started_process_def process_turn_def enter_def empty_disk_def)
  ultimately show ?thesis by blast
qed

text \<open>
  C39: Saves that do overlap can lose everything: when \<open>quit\<close> is typed while the snapshot thread is about to
  open the temporary file, no system call need fail for the process to end, with its save reported as
  successful, on an empty snapshot file, which the next start accepts as a complete snapshot of nothing.
\<close>

theorem overlapping_saves_lose_the_snapshot:
  assumes "pr_running p" "\<not> pr_exited p" "pr_phase p = (\<lambda>s. Resting)"
  shows "\<exists>es p'. (\<forall>s. Call s Refused \<notin> set es) \<and> Crash \<notin> set es \<and> p' = process_run ssl es p \<and>
    pr_exited p' \<and> pr_phase p' Console = Over True \<and> state_of p' = state_of p \<and> snapshot_content (pr_disk p') = Some [] \<and>
    (\<forall>fs path st. fs path = map_option Readable (snapshot_content (pr_disk p')) \<longrightarrow> load_snapshot fs path st = (cleared st, True))"
proof -
  let ?es = "[Wake, Call Periodic Granted, Line ''quit'', Call Console Granted, Call Console Granted, Call Console Granted,
    Call Periodic Granted, Call Console Granted, Call Console Granted]"
  let ?p = "process_run ssl ?es p"
  have "pr_exited ?p \<and> pr_phase ?p Console = Over True \<and> state_of ?p = state_of p \<and> snapshot_content (pr_disk ?p) = Some []"
    by (cases "dk_tmp (pr_disk p)")
      (simp_all add: assms process_run_def process_turn_def enter_def state_of_def snapshot_content_def)
  moreover from this have "\<forall>fs path st. fs path = map_option Readable (snapshot_content (pr_disk ?p)) \<longrightarrow>
      load_snapshot fs path st = (cleared st, True)"
    by (simp add: load_snapshot_def apply_records_locked_def)
  ultimately show ?thesis by (intro exI [of _ ?es] exI [of _ ?p]) simp
qed

theorem overlapping_saves_lose_the_snapshot_witness:
  "\<exists>es p'. p' = process_run demo_ssl es (started_process fresh_world empty_disk) \<and> pr_phase p' Console = Over True \<and>
     snapshot_content (pr_disk p') = Some []"
  using overlapping_saves_lose_the_snapshot [of "started_process fresh_world empty_disk" demo_ssl]
  by (auto simp: started_process_def)

end
