(* ===== verification/Client_Threads.thy ===== *)
theory Client_Threads imports Client_Main Download_Guarantees
begin

text \<open>
  The threads of a client next to each other: the prompt (\<open>main\<close>), the thread of the dashboard, and one thread
  per download. Models what they share in \<^verbatim>\<open>src/client/downloader.cpp\<close> (the table of downloads and the list
  \<open>threads_\<close>, each behind its lock: \<open>start\<close>, \<open>wait_all\<close>, and the accesses of \<open>run\<close> to the table) and the end of
  \<^verbatim>\<open>src/client/main.cpp\<close>. It shows what waiting for the downloads ensures, and when the active flag keeps two
  threads from working on the same file. Downloads are the only commands: the others do not change
  the table, and what they send to the tracker, login and logout with the token they set included, is left out.
\<close>

section \<open>The state\<close>

text \<open>
  A run of \<open>run\<close>: before it enters the download it has been told about into the table; with the number of pieces
  it then works on; after it has cleared the active flag itself, on its last lines, and before \<open>ActiveGuard\<close>
  clears it again.
\<close>

datatype caller = Prompt | Page

datatype run_phase = Preparing | Transferring nat | Ending

datatype page_thread = Accepting | Handling | No_thread

datatype main_phase = Reading | Stopping_web | Swapping | Joining "nat list" | Disconnected

text \<open>
  \<open>ct_claimed\<close>: a thread inside \<open>start\<close>, between its two critical sections. \<open>ct_threads\<close> is \<open>threads_\<close>, the
  threads by number; \<open>ct_runs\<close> has the runs that have not returned. \<open>ct_undefined\<close> is set by an access
  past the end of a vector.
\<close>

record client_threads =
  ct_downloads :: downloads
  ct_claimed :: "caller \<Rightarrow> string option"
  ct_threads :: "nat list"
  ct_runs :: "nat \<Rightarrow> (string \<times> run_phase) option"
  ct_next :: nat
  ct_page :: page_thread
  ct_stopping :: bool
  ct_main :: main_phase
  ct_tracker :: tracker_client
  ct_undefined :: bool

definition client_running :: "bool \<Rightarrow> tracker_client \<Rightarrow> client_threads" where
  "client_running with_page tc = \<lparr>ct_downloads = [], ct_claimed = (\<lambda>_. None), ct_threads = [], ct_runs = (\<lambda>_. None),
     ct_next = 0, ct_page = (if with_page then Accepting else No_thread), ct_stopping = False, ct_main = Reading,
     ct_tracker = tc, ct_undefined = False\<rparr>"

section \<open>The steps of the threads\<close>

text \<open>Whether a thread is at a place from which it can issue a command.\<close>

definition may_command :: "caller \<Rightarrow> client_threads \<Rightarrow> bool" where
  "may_command c s \<longleftrightarrow> ct_claimed s c = None \<and>
     (case c of Prompt \<Rightarrow> ct_main s = Reading | Page \<Rightarrow> ct_page s = Handling)"

text \<open>\<open>start\<close>: claim the slot, then create the thread.\<close>

definition claim :: "caller \<Rightarrow> string \<Rightarrow> string \<Rightarrow> client_threads \<Rightarrow> client_threads" where
  "claim c gid fname s =
     (case start_download gid fname (ct_downloads s) of (ds, ok) \<Rightarrow>
        if ok then s\<lparr>ct_downloads := ds, ct_claimed := (ct_claimed s)(c := Some fname)\<rparr> else s)"

definition spawn :: "caller \<Rightarrow> client_threads \<Rightarrow> client_threads" where
  "spawn c s =
     (case ct_claimed s c of None \<Rightarrow> s
      | Some fname \<Rightarrow> s\<lparr>ct_claimed := (ct_claimed s)(c := None), ct_threads := ct_threads s @ [ct_next s],
          ct_runs := (ct_runs s)(ct_next s \<mapsto> (fname, Preparing)), ct_next := Suc (ct_next s)\<rparr>)"

text \<open>
  The accesses of \<open>run\<close> to the table: entering the download with a state for each piece; a new state of a piece;
  the look at all states before the full hash is taken (up to the first that is not completed); clearing the
  flag on the last lines; the end, by \<open>return\<close> from wherever it is.
\<close>

definition publish :: "nat \<Rightarrow> download_info \<Rightarrow> client_threads \<Rightarrow> client_threads" where
  "publish i info s =
     (case ct_runs s i of
        Some (fname, Preparing) \<Rightarrow>
          s\<lparr>ct_downloads := AList.update fname (info\<lparr>di_filename := fname, di_completed := 0, di_active := True\<rparr>) (ct_downloads s),
            ct_runs := (ct_runs s)(i \<mapsto> (fname, Transferring (length (di_status info))))\<rparr>
      | _ \<Rightarrow> s)"

definition record_piece :: "nat \<Rightarrow> int \<Rightarrow> download_info \<Rightarrow> download_info" where
  "record_piece k v di = di\<lparr>di_status := (di_status di)[k := v],
     di_completed := di_completed di + (if v = 2 then 1 else 0)\<rparr>"

definition note_piece :: "nat \<Rightarrow> nat \<Rightarrow> int \<Rightarrow> client_threads \<Rightarrow> client_threads" where
  "note_piece i k v s =
     (case ct_runs s i of
        Some (fname, Transferring n) \<Rightarrow>
          if n \<le> k then s
          else (case map_of (ct_downloads s) fname of None \<Rightarrow> s
            | Some di \<Rightarrow> s\<lparr>ct_downloads := AList.update fname (record_piece k v di) (ct_downloads s),
                ct_undefined := (ct_undefined s \<or> length (di_status di) \<le> k)\<rparr>)
      | _ \<Rightarrow> s)"

definition judge :: "nat \<Rightarrow> client_threads \<Rightarrow> client_threads" where
  "judge i s =
     (case ct_runs s i of
        Some (fname, Transferring n) \<Rightarrow>
          (case map_of (ct_downloads s) fname of None \<Rightarrow> s
           | Some di \<Rightarrow> s\<lparr>ct_undefined := (ct_undefined s \<or> (length (di_status di) < n \<and> (\<forall>v \<in> set (di_status di). v = 2)))\<rparr>)
      | _ \<Rightarrow> s)"

definition clear_flag :: "nat \<Rightarrow> client_threads \<Rightarrow> client_threads" where
  "clear_flag i s =
     (case ct_runs s i of
        Some (fname, Transferring n) \<Rightarrow>
          s\<lparr>ct_downloads := mark_inactive fname (ct_downloads s), ct_runs := (ct_runs s)(i \<mapsto> (fname, Ending))\<rparr>
      | _ \<Rightarrow> s)"

definition end_run :: "nat \<Rightarrow> client_threads \<Rightarrow> client_threads" where
  "end_run i s =
     (case ct_runs s i of
        Some (fname, ph) \<Rightarrow> (case ph of Transferring n \<Rightarrow> s
          | _ \<Rightarrow> s\<lparr>ct_downloads := mark_inactive fname (ct_downloads s), ct_runs := (ct_runs s)(i := None)\<rparr>)
      | None \<Rightarrow> s)"

text \<open>
  The dashboard's thread: \<open>accept\<close> returns, with a connection or without; the request has been answered.
\<close>

definition page_accepts :: "bool \<Rightarrow> client_threads \<Rightarrow> client_threads" where
  "page_accepts connected s =
     (if ct_page s \<noteq> Accepting then s
      else if ct_stopping s then s\<lparr>ct_page := No_thread\<rparr>
      else if connected then s\<lparr>ct_page := Handling\<rparr> else s)"

definition page_answers :: "client_threads \<Rightarrow> client_threads" where
  "page_answers s = (if ct_page s = Handling \<and> ct_claimed s Page = None then s\<lparr>ct_page := Accepting\<rparr> else s)"

text \<open>
  The end of \<open>main\<close>: the prompt ends; \<open>web.stop()\<close> sets its flag and joins the dashboard's thread;
  \<open>wait_all\<close> takes the list of threads and joins one after the other; then the tracker is disconnected.
\<close>

definition leave_prompt :: "client_threads \<Rightarrow> client_threads" where
  "leave_prompt s =
     (if ct_main s = Reading \<and> ct_claimed s Prompt = None then s\<lparr>ct_main := Stopping_web, ct_stopping := True\<rparr> else s)"

definition join_page :: "client_threads \<Rightarrow> client_threads" where
  "join_page s = (if ct_main s = Stopping_web \<and> ct_page s = No_thread then s\<lparr>ct_main := Swapping\<rparr> else s)"

definition take_threads :: "client_threads \<Rightarrow> client_threads" where
  "take_threads s = (if ct_main s = Swapping then s\<lparr>ct_main := Joining (ct_threads s), ct_threads := []\<rparr> else s)"

definition join_run :: "client_threads \<Rightarrow> client_threads" where
  "join_run s =
     (case ct_main s of
        Joining [] \<Rightarrow> s\<lparr>ct_main := Disconnected, ct_tracker := tc_disconnect (ct_tracker s)\<rparr>
      | Joining (i # is) \<Rightarrow> if ct_runs s i = None then s\<lparr>ct_main := Joining is\<rparr> else s
      | _ \<Rightarrow> s)"

datatype client_event =
    Download caller string string
  | Spawned caller
  | Published nat download_info
  | Noted nat nat int
  | Judged nat
  | Cleared nat
  | Returned nat
  | Page_accepts bool
  | Page_answers
  | Exit_typed
  | Page_joined
  | Threads_taken
  | Run_joined

fun client_turn :: "client_event \<Rightarrow> client_threads \<Rightarrow> client_threads" where
  "client_turn (Download c gid fname) s = (if may_command c s then claim c gid fname s else s)"
| "client_turn (Spawned c) s = spawn c s"
| "client_turn (Published i info) s = publish i info s"
| "client_turn (Noted i k v) s = note_piece i k v s"
| "client_turn (Judged i) s = judge i s"
| "client_turn (Cleared i) s = clear_flag i s"
| "client_turn (Returned i) s = end_run i s"
| "client_turn (Page_accepts connected) s = page_accepts connected s"
| "client_turn Page_answers s = page_answers s"
| "client_turn Exit_typed s = leave_prompt s"
| "client_turn Page_joined s = join_page s"
| "client_turn Threads_taken s = take_threads s"
| "client_turn Run_joined s = join_run s"

definition client_run :: "client_event list \<Rightarrow> client_threads \<Rightarrow> client_threads" where
  "client_run es s = fold client_turn es s"

lemmas thread_defs = claim_def spawn_def publish_def note_piece_def judge_def clear_flag_def end_run_def
  page_accepts_def page_answers_def leave_prompt_def join_page_def take_threads_def join_run_def may_command_def

section \<open>Leaving\<close>

text \<open>
  A run that has not returned is known to \<open>threads_\<close> or is being waited for; a thread inside \<open>start\<close> is at its
  command; only an entry that somebody works for, or is about to, is marked active; from the end of
  \<open>web.stop()\<close> on there is no dashboard, and from the swap on \<open>threads_\<close> stays empty.
\<close>

definition to_join :: "client_threads \<Rightarrow> nat set" where
  "to_join s = set (ct_threads s) \<union> (case ct_main s of Joining is \<Rightarrow> set is | _ \<Rightarrow> {})"

definition files_of :: "(nat \<Rightarrow> (string \<times> run_phase) option) \<Rightarrow> string set" where
  "files_of m = fst ` ran m"

definition in_hand :: "string \<Rightarrow> client_threads \<Rightarrow> bool" where
  "in_hand f s \<longleftrightarrow> ct_claimed s Prompt = Some f \<or> ct_claimed s Page = Some f \<or> f \<in> files_of (ct_runs s)"

definition registered :: "client_threads \<Rightarrow> bool" where
  "registered s \<longleftrightarrow> (\<forall>i \<in> dom (ct_runs s). i < ct_next s \<and> i \<in> to_join s)"

definition stages_ok :: "client_threads \<Rightarrow> bool" where
  "stages_ok s \<longleftrightarrow> (ct_claimed s Prompt \<noteq> None \<longrightarrow> ct_main s = Reading) \<and>
     (ct_claimed s Page \<noteq> None \<longrightarrow> ct_page s = Handling) \<and> (ct_main s \<noteq> Reading \<longrightarrow> ct_stopping s) \<and>
     (ct_main s \<notin> {Reading, Stopping_web} \<longrightarrow> ct_page s = No_thread) \<and>
     (ct_main s \<notin> {Reading, Stopping_web, Swapping} \<longrightarrow> ct_threads s = [])"

definition flags_ok :: "client_threads \<Rightarrow> bool" where
  "flags_ok s \<longleftrightarrow> (\<forall>f. active_download (ct_downloads s) f \<longrightarrow> in_hand f s)"

definition leaving_ok :: "client_threads \<Rightarrow> bool" where
  "leaving_ok s \<longleftrightarrow> registered s \<and> stages_ok s \<and> flags_ok s"

lemma active_update [simp]:
  "active_download (AList.update f di ds) g \<longleftrightarrow> (if g = f then di_active di else active_download ds g)"
  by (simp add: active_download_def)

lemma active_mark_inactive [simp]:
  "active_download (mark_inactive f ds) g \<longleftrightarrow> g \<noteq> f \<and> active_download ds g"
  by (auto simp: active_download_def mark_inactive_def split: option.splits)

lemma start_download_eq:
  "start_download gid f ds =
     (if active_download ds f then (ds, False)
      else (AList.update f (new_download\<lparr>di_group_id := gid, di_filename := f, di_active := True\<rparr>) ds, True))"
  by (simp add: start_download_def active_download_def split: option.split)

lemma files_of_none [simp]: "files_of (\<lambda>_. None) = {}"
  by (simp add: files_of_def)

lemma files_of_some: "m i = Some (f, ph) \<Longrightarrow> f \<in> files_of m"
  by (force simp: files_of_def ran_def)

lemma files_of_new [simp]: "m i = None \<Longrightarrow> files_of (m(i \<mapsto> (f, ph))) = insert f (files_of m)"
  by (simp add: files_of_def)

lemma mem_files_of: "g \<in> files_of m \<longleftrightarrow> (\<exists>i ph. m i = Some (g, ph))"
  by (force simp: files_of_def ran_def)

lemma files_of_phase: "m i = Some (f, ph) \<Longrightarrow> files_of (m(i \<mapsto> (f, ph'))) = files_of m"
  unfolding set_eq_iff mem_files_of by (metis fun_upd_apply option.inject prod.inject)

lemma files_of_end: "m i = Some (f, ph) \<Longrightarrow> g \<noteq> f \<Longrightarrow> g \<in> files_of (m(i := None)) \<longleftrightarrow> g \<in> files_of m"
  unfolding mem_files_of by (metis fun_upd_apply option.inject prod.inject option.distinct(1))

lemma stages_ok_turn:
  assumes "stages_ok s"
  shows "stages_ok (client_turn e s)"
proof (cases "\<exists>c. e = Spawned c")
  case True
  then obtain c where "e = Spawned c" by blast
  then show ?thesis using assms by (cases c) (auto simp: stages_ok_def spawn_def split: option.split)
next
  case False
  then show ?thesis using assms
    by (cases e; cases "ct_main s")
      (auto simp: stages_ok_def thread_defs split: option.split run_phase.split prod.split caller.splits list.split)
qed

lemma dom_run [simp]: "m i = Some x \<Longrightarrow> insert i (dom m) = dom m" by auto

lemma registered_turn:
  assumes "registered s" "stages_ok s"
  shows "registered (client_turn e s)"
proof (cases "\<exists>i is. e = Run_joined \<and> ct_main s = Joining (i # is)")
  case True
  then show ?thesis using assms(1) by (auto simp: registered_def join_run_def to_join_def dest!: bspec [OF _ domI])
next
  case False
  then show ?thesis using assms
    by (cases e) (auto simp: registered_def thread_defs to_join_def stages_ok_def less_Suc_eq split: option.splits run_phase.splits prod.splits main_phase.splits list.splits if_splits)
qed

lemma flags_ok_turn:
  assumes "flags_ok s" "ct_runs s (ct_next s) = None"
  shows "flags_ok (client_turn e s)"
proof (cases e)
  case (Download c gid fname)
  then show ?thesis using assms(1) by (cases c) (auto simp: flags_ok_def claim_def may_command_def in_hand_def start_download_eq)
next
  case (Spawned c)
  then show ?thesis using assms by (cases c) (auto simp: flags_ok_def spawn_def in_hand_def split: option.split)
next
  case (Published i info)
  then show ?thesis using assms(1) by (auto simp: flags_ok_def publish_def in_hand_def files_of_phase files_of_some split: option.split run_phase.split)
next
  case (Noted i k v)
  then show ?thesis using assms(1)
    by (auto simp: flags_ok_def note_piece_def in_hand_def record_piece_def active_download_def split: option.split run_phase.split)
next
  case (Cleared i)
  then show ?thesis using assms(1) by (auto simp: flags_ok_def clear_flag_def in_hand_def files_of_phase split: option.split run_phase.split)
next
  case (Returned i)
  then show ?thesis using assms(1) by (auto simp: flags_ok_def end_run_def in_hand_def files_of_end split: option.split run_phase.split)
qed (use assms(1) in \<open>auto simp: flags_ok_def in_hand_def judge_def page_accepts_def page_answers_def leave_prompt_def join_page_def
  take_threads_def join_run_def split: option.split run_phase.split main_phase.split list.split\<close>)
lemma leaving_fresh: "leaving_ok s \<Longrightarrow> ct_runs s (ct_next s) = None"
  unfolding leaving_ok_def registered_def by (metis domIff less_irrefl)

lemma leaving_ok_turn: "leaving_ok s \<Longrightarrow> leaving_ok (client_turn e s)"
  using leaving_fresh [of s] by (simp add: leaving_ok_def registered_turn stages_ok_turn flags_ok_turn)

lemma leaving_ok_start: "leaving_ok (client_running with_page tc)"
  by (simp add: leaving_ok_def registered_def stages_ok_def flags_ok_def client_running_def active_download_def)

interpretation leaving: invariant_machine "client_running with_page tc" client_turn leaving_ok for with_page tc
  by unfold_locales (rule leaving_ok_start leaving_ok_turn; assumption)+

lemma leaving_reached: "leaving_ok (client_run es (client_running with_page tc))"
  unfolding client_run_def by (rule leaving.run_start)

lemma client_run_simps [simp]:
  "client_run [] s = s" "client_run (e # es) s = client_run es (client_turn e s)"
  "client_run (es @ fs) s = client_run fs (client_run es s)"
  by (simp_all add: client_run_def)

text \<open>What there is left when the tracker is disconnected.\<close>

lemma disconnected_idle:
  assumes "leaving_ok s" "ct_main s = Disconnected"
  shows "ct_runs s = Map.empty" "ct_page s = No_thread" "ct_claimed s c = None" "\<not> active_download (ct_downloads s) f"
proof -
  have st: "stages_ok s" and r: "registered s" and fl: "flags_ok s" using assms(1) by (simp_all add: leaving_ok_def)
  have th: "ct_threads s = []" "ct_page s = No_thread" "ct_claimed s Prompt = None" "ct_claimed s Page = None"
    using st assms(2) by (auto simp: stages_ok_def)
  have "dom (ct_runs s) = {}" using r assms(2) th(1) by (auto simp: registered_def to_join_def)
  then show runs: "ct_runs s = Map.empty" by simp
  show "ct_page s = No_thread" "ct_claimed s c = None" using th by (cases c; simp)+
  show "\<not> active_download (ct_downloads s) f" using fl th runs by (auto simp: flags_ok_def in_hand_def)
qed

lemma tracker_turn:
  assumes "ct_tracker s = (if ct_main s = Disconnected then tc_disconnect tc else tc)"
  shows "ct_tracker (client_turn e s) = (if ct_main (client_turn e s) = Disconnected then tc_disconnect tc else tc)"
  using assms
  by (cases e) (auto simp: thread_defs split: option.split run_phase.split prod.split main_phase.split list.split)

lemma tracker_reached:
  "ct_tracker (client_run es (client_running with_page tc)) =
    (if ct_main (client_run es (client_running with_page tc)) = Disconnected then tc_disconnect tc else tc)"
  unfolding client_run_def
  by (induction es rule: rev_induct) (simp add: client_running_def, simp add: tracker_turn)

text \<open>
  The way out: whoever is inside \<open>start\<close> creates the thread, the dashboard answers, the prompt is left, and
  every run in the list comes to its end.
\<close>

definition way_to_joins :: "client_event list" where
  "way_to_joins = [Spawned Prompt, Spawned Page, Page_answers, Exit_typed, Page_accepts False, Page_joined, Threads_taken]"

definition way_through_joins :: "nat list \<Rightarrow> client_event list" where
  "way_through_joins is = concat (map (\<lambda>i. [Cleared i, Returned i, Run_joined]) is) @ [Run_joined]"

fun is_command :: "client_event \<Rightarrow> bool" where
  "is_command (Download c gid fname) = True"
| "is_command _ = False"

definition commands :: "client_event list \<Rightarrow> client_event list" where
  "commands es = filter is_command es"

lemma spawn_same [simp]: "ct_main (spawn c s) = ct_main s" "ct_page (spawn c s) = ct_page s"
  "ct_stopping (spawn c s) = ct_stopping s" "ct_claimed (spawn c s) = (ct_claimed s)(c := None)"
  by (auto simp: spawn_def split: option.split)

lemma joins_reached:
  assumes "stages_ok s"
  obtains (joining) "is" where "ct_main (client_run way_to_joins s) = Joining is"
    | (over) "ct_main (client_run way_to_joins s) = Disconnected"
  using assms
  by (cases "ct_main s"; cases "ct_page s")
    (auto simp: way_to_joins_def page_answers_def leave_prompt_def page_accepts_def join_page_def take_threads_def
      stages_ok_def)

lemma run_ended: "ct_runs (end_run i (clear_flag i s)) i = None" "ct_main (end_run i (clear_flag i s)) = ct_main s"
  by (auto simp: end_run_def clear_flag_def split: option.split run_phase.split prod.split)

lemma joins_end: "ct_main s = Joining is \<Longrightarrow> ct_main (client_run (way_through_joins is) s) = Disconnected"
proof (induction "is" arbitrary: s)
  case (Cons i "is")
  have "ct_main (client_run [Cleared i, Returned i, Run_joined] s) = Joining is"
    using Cons.prems by (simp add: join_run_def run_ended)
  from Cons.IH [OF this] show ?case by (simp add: way_through_joins_def)
qed (simp add: way_through_joins_def join_run_def)

lemma exit_from:
  assumes "stages_ok s"
  shows "\<exists>es. commands es = [] \<and> ct_main (client_run es s) = Disconnected"
  using assms
proof (cases rule: joins_reached)
  case (joining "is")
  have "ct_main (client_run (way_to_joins @ way_through_joins is) s) = Disconnected"
    using joins_end [OF joining] by simp
  moreover have "commands (way_to_joins @ way_through_joins is) = []"
    by (auto simp: commands_def way_to_joins_def way_through_joins_def filter_empty_conv)
  ultimately show ?thesis by blast
next
  case over
  moreover have "commands way_to_joins = []" by (simp add: commands_def way_to_joins_def)
  ultimately show ?thesis by blast
qed

section \<open>One run for each file\<close>

text \<open>A run that has cleared the flag and not ended yet.\<close>

definition ending :: "string \<Rightarrow> client_threads \<Rightarrow> bool" where
  "ending fname s \<longleftrightarrow> (\<exists>i \<in> set [0..<ct_next s]. ct_runs s i = Some (fname, Ending))"

text \<open>No command claims a file while a run of it is between clearing the flag and its end.\<close>

fun undisturbed :: "client_event list \<Rightarrow> client_threads \<Rightarrow> bool" where
  "undisturbed [] s = True"
| "undisturbed (e # es) s =
     ((case e of Download c gid fname \<Rightarrow> \<not> ending fname s | _ \<Rightarrow> True) \<and> undisturbed es (client_turn e s))"

text \<open>
  Then no two runs have a file in common, nobody who is about to start one shares it, the entry of a run
  before its last lines is active, and has a state for each of its pieces once it has been entered.
\<close>

definition runs_apart :: "client_threads \<Rightarrow> bool" where
  "runs_apart s \<longleftrightarrow> (\<forall>i j f p q. ct_runs s i = Some (f, p) \<longrightarrow> ct_runs s j = Some (f, q) \<longrightarrow> i = j)"

fun ready :: "downloads \<Rightarrow> string \<times> run_phase \<Rightarrow> bool" where
  "ready ds (f, Preparing) = active_download ds f"
| "ready ds (f, Transferring n) = (case map_of ds f of None \<Rightarrow> False | Some di \<Rightarrow> di_active di \<and> length (di_status di) = n)"
| "ready ds (f, Ending) = True"

definition claims_apart :: "client_threads \<Rightarrow> bool" where
  "claims_apart s \<longleftrightarrow> (ct_claimed s Prompt \<noteq> None \<longrightarrow> ct_claimed s Prompt \<noteq> ct_claimed s Page) \<and>
     (\<forall>c f. ct_claimed s c = Some f \<longrightarrow> f \<notin> files_of (ct_runs s) \<and> active_download (ct_downloads s) f)"

definition exclusive :: "client_threads \<Rightarrow> bool" where
  "exclusive s \<longleftrightarrow> runs_apart s \<and> claims_apart s \<and> (\<forall>i r. ct_runs s i = Some r \<longrightarrow> ready (ct_downloads s) r) \<and> \<not> ct_undefined s"

lemma ready_active: "ready ds (f, ph) \<Longrightarrow> ph \<noteq> Ending \<Longrightarrow> active_download ds f"
  by (cases ph) (auto simp: active_download_def split: option.splits)

lemma ready_other: "map_of ds' f = map_of ds f \<Longrightarrow> ready ds' (f, ph) = ready ds (f, ph)"
  by (cases ph) (auto simp: active_download_def)

lemma ready_update [simp]: "g \<noteq> f \<Longrightarrow> ready (AList.update f di ds) (g, ph) = ready ds (g, ph)"
  by (rule ready_other) simp

lemma map_of_mark [simp]: "g \<noteq> f \<Longrightarrow> map_of (mark_inactive f ds) g = map_of ds g"
  by (simp add: mark_inactive_def split: option.split)

text \<open>A file that is marked inactive and has no run on its last lines is in nobody's hands.\<close>

lemma free_file:
  assumes "exclusive s" "registered s" "\<not> active_download (ct_downloads s) f" "\<not> ending f s"
  shows "\<not> in_hand f s"
proof -
  have "f \<notin> files_of (ct_runs s)"
  proof
    assume "f \<in> files_of (ct_runs s)"
    then obtain i ph where r: "ct_runs s i = Some (f, ph)" unfolding mem_files_of by blast
    then have "i < ct_next s" using assms(2) by (auto simp: registered_def)
    then have "ph \<noteq> Ending" using r assms(4) by (auto simp: ending_def)
    then show False using r assms(1,3) ready_active unfolding exclusive_def by blast
  qed
  then show ?thesis using assms(1,3) by (auto simp: exclusive_def claims_apart_def in_hand_def)
qed

lemma active_other: "map_of ds' f = map_of ds f \<Longrightarrow> active_download ds' f = active_download ds f"
  by (simp add: active_download_def)

lemma exclusive_claim:
  assumes ex: "exclusive s" and free: "\<not> in_hand f s" and "di_active di"
  shows "exclusive (s\<lparr>ct_downloads := AList.update f di (ct_downloads s), ct_claimed := (ct_claimed s)(c := Some f)\<rparr>)"
proof -
  have "g \<noteq> f" if "ct_runs s i = Some (g, ph)" for i g ph using free files_of_some [of "ct_runs s", OF that] by (auto simp: in_hand_def)
  then show ?thesis using assms
    by (cases c) (auto simp: exclusive_def runs_apart_def claims_apart_def in_hand_def)
qed

lemma exclusive_spawn:
  assumes ex: "exclusive s" and fresh: "ct_runs s (ct_next s) = None"
  shows "exclusive (spawn c s)"
proof (cases "ct_claimed s c")
  case (Some f)
  have f: "f \<notin> files_of (ct_runs s)" "active_download (ct_downloads s) f" using ex Some by (auto simp: exclusive_def claims_apart_def)
  have other: "ct_claimed s d \<noteq> Some f" if "d \<noteq> c" for d
    using ex Some that by (cases c; cases d) (auto simp: exclusive_def claims_apart_def)
  have "g \<noteq> f" if "ct_runs s i = Some (g, ph)" for i g ph using f(1) files_of_some [of "ct_runs s", OF that] by auto
  then have "runs_apart (spawn c s)" using ex Some by (auto simp: runs_apart_def spawn_def exclusive_def)
  moreover have "claims_apart (spawn c s)"
    using ex Some other fresh by (cases c) (auto simp: claims_apart_def spawn_def exclusive_def)
  ultimately show ?thesis using ex Some f(2) by (auto simp: exclusive_def spawn_def)
qed (use ex in \<open>simp add: spawn_def\<close>)

text \<open>What a run does to its own entry, and its next phase or its end, concerns nobody else.\<close>

lemma exclusive_run:
  assumes ex: "exclusive s" and run: "ct_runs s i = Some (f, ph)" and out: "\<And>g. g \<noteq> f \<Longrightarrow> map_of ds g = map_of (ct_downloads s) g"
    and r: "\<forall>r. r' = Some r \<longrightarrow> fst r = f \<and> ready ds r"
  shows "exclusive (s\<lparr>ct_downloads := ds, ct_runs := (ct_runs s)(i := r')\<rparr>)" (is "exclusive ?s")
proof -
  have others: "g \<noteq> f" if "ct_runs s j = Some (g, p)" "j \<noteq> i" for j g p
    using ex run that unfolding exclusive_def runs_apart_def by blast
  have claims: "g \<noteq> f" if "ct_claimed s c = Some g" for c g using that ex files_of_some [of "ct_runs s", OF run] by (auto simp: exclusive_def claims_apart_def)
  have "files_of ((ct_runs s)(i := r')) \<subseteq> files_of (ct_runs s)"
    using r run unfolding subset_iff mem_files_of by (metis fst_conv fun_upd_apply)
  then have files: "files_of (ct_runs ?s) \<subseteq> files_of (ct_runs s)" by simp
  have "runs_apart ?s" using ex r by (auto simp: runs_apart_def exclusive_def dest: others)
  moreover have "claims_apart ?s"
    using ex files active_other [OF out] claims by (auto simp: claims_apart_def exclusive_def dest: claims)
  moreover have "ready ds (g, p)" if "((ct_runs s)(i := r')) j = Some (g, p)" for j g p
  proof (cases "j = i")
    case False
    then have "ct_runs s j = Some (g, p)" using that by simp
    moreover from this have "g \<noteq> f" using others False by blast
    ultimately show ?thesis using ex ready_other [OF out] by (auto simp: exclusive_def)
  qed (use that r in auto)
  ultimately show ?thesis using ex by (auto simp: exclusive_def)
qed

lemma transferring:
  assumes "exclusive s" "ct_runs s i = Some (f, Transferring n)"
  obtains di where "map_of (ct_downloads s) f = Some di" "di_active di" "length (di_status di) = n"
proof -
  have "ready (ct_downloads s) (f, Transferring n)" using assms unfolding exclusive_def by blast
  then show thesis using that by (auto split: option.splits)
qed

lemma exclusive_note:
  assumes ex: "exclusive s"
  shows "exclusive (note_piece i k v s)"
proof (cases "\<exists>f n. ct_runs s i = Some (f, Transferring n) \<and> k < n")
  case True
  then obtain f n where r: "ct_runs s i = Some (f, Transferring n)" and k: "k < n" by blast
  obtain di where di: "map_of (ct_downloads s) f = Some di" "di_active di" "length (di_status di) = n"
    by (rule transferring [OF ex r])
  let ?ds = "AList.update f (record_piece k v di) (ct_downloads s)"
  have "exclusive (s\<lparr>ct_downloads := ?ds, ct_runs := (ct_runs s)(i := Some (f, Transferring n))\<rparr>)"
    using di by (intro exclusive_run [OF ex r]) (simp_all add: record_piece_def)
  moreover have "(ct_runs s)(i := Some (f, Transferring n)) = ct_runs s" using r by (simp add: fun_upd_idem)
  moreover have "note_piece i k v s = s\<lparr>ct_downloads := ?ds, ct_runs := ct_runs s\<rparr>"
    using r k di ex by (cases s) (simp add: note_piece_def exclusive_def)
  ultimately show ?thesis by simp
qed (use ex in \<open>auto simp: note_piece_def split: option.split run_phase.split\<close>)

lemma exclusive_judge:
  assumes ex: "exclusive s"
  shows "judge i s = s"
proof (cases "\<exists>f n. ct_runs s i = Some (f, Transferring n)")
  case True
  then obtain f n where r: "ct_runs s i = Some (f, Transferring n)" by blast
  obtain di where "map_of (ct_downloads s) f = Some di" "length (di_status di) = n" by (rule transferring [OF ex r])
  then show ?thesis using r by (cases s) (simp add: judge_def)
qed (auto simp: judge_def split: option.split run_phase.split)

lemma exclusive_turn:
  assumes ex: "exclusive s" and ok: "leaving_ok s" and still: "case e of Download c gid f \<Rightarrow> \<not> ending f s | _ \<Rightarrow> True"
  shows "exclusive (client_turn e s)"
proof (cases e)
  case (Download c gid f)
  then show ?thesis using ex free_file [OF ex, of f] still ok
    by (auto simp: claim_def start_download_eq leaving_ok_def intro!: exclusive_claim)
next
  case (Spawned c)
  then show ?thesis using exclusive_spawn [OF ex leaving_fresh [OF ok]] by simp
next
  case (Published i info)
  then show ?thesis using ex
    by (auto simp: publish_def split: option.split run_phase.split intro!: exclusive_run)
next
  case (Noted i k v)
  then show ?thesis using exclusive_note [OF ex] by simp
next
  case (Judged i)
  then show ?thesis using ex exclusive_judge [OF ex] by simp
next
  case (Cleared i)
  then show ?thesis using ex
    by (auto simp: clear_flag_def split: option.split run_phase.split intro!: exclusive_run)
next
  case (Returned i)
  then show ?thesis using ex
    by (auto simp: end_run_def split: option.split run_phase.split intro!: exclusive_run)
next
  case Run_joined
  then show ?thesis using ex
    by (auto simp: join_run_def exclusive_def runs_apart_def claims_apart_def split: main_phase.split list.split)
qed (use ex in \<open>auto simp: page_accepts_def page_answers_def leave_prompt_def join_page_def take_threads_def
  exclusive_def runs_apart_def claims_apart_def\<close>)

lemma exclusive_start: "exclusive (client_running with_page tc)"
  by (simp add: exclusive_def runs_apart_def claims_apart_def client_running_def)

lemma exclusive_run_all:
  "leaving_ok s \<Longrightarrow> exclusive s \<Longrightarrow> undisturbed es s \<Longrightarrow> exclusive (client_run es s)"
  by (induction es arbitrary: s) (simp_all add: exclusive_turn leaving_ok_turn)

section \<open>A start on the last lines of a run\<close>


section \<open>Properties\<close>

text \<open>
  C29: The client leaves in order: whatever the prompt, the dashboard and the downloads have done, by the time
  \<open>main\<close> disconnects from the tracker no download runs, none is about to start or marked active, and the
  dashboard's thread has ended; until then these threads do not touch the connection (the commands that
  replace its token, and those that only send, are not among the events here). And it can always leave: from
  every point the threads can get to the end without a further command.
\<close>

theorem client_leaves_in_order:
  "let s = client_run es (client_running with_page tc) in
    (if ct_main s = Disconnected
     then ct_runs s = Map.empty \<and> ct_page s = No_thread \<and> ct_claimed s = (\<lambda>_. None) \<and>
       \<not> (\<exists>f. active_download (ct_downloads s) f) \<and> ct_tracker s = tc_disconnect tc
     else ct_tracker s = tc) \<and>
    (\<exists>es'. commands es' = [] \<and> ct_main (client_run es' s) = Disconnected)"
proof -
  let ?s = "client_run es (client_running with_page tc)"
  have "\<exists>es'. commands es' = [] \<and> ct_main (client_run es' ?s) = Disconnected"
    using leaving_reached [of es with_page tc] by (intro exit_from) (simp add: leaving_ok_def)
  then show ?thesis
    using disconnected_idle [OF leaving_reached [of es with_page tc]] tracker_reached [of es with_page tc] by (simp add: Let_def fun_eq_iff)
qed

text \<open>
  C28: A file has one run at a time: as long as no command asks for a file while a run of it is on its last lines,
  no two threads ever work on the same file, and no access to the piece states of a download is out of
  range, however the prompt, the dashboard and the downloads interleave.
\<close>

theorem one_run_per_file:
  assumes "undisturbed es (client_running with_page tc)"
  shows "(\<forall>i j f p q. ct_runs (client_run es (client_running with_page tc)) i = Some (f, p) \<and>
      ct_runs (client_run es (client_running with_page tc)) j = Some (f, q) \<longrightarrow> i = j) \<and>
    \<not> ct_undefined (client_run es (client_running with_page tc))"
  using exclusive_run_all [OF leaving_ok_start exclusive_start assms] by (auto simp: exclusive_def runs_apart_def)

text \<open>A download asked for twice, once too early, the second time through the dashboard.\<close>

definition patient_session :: "client_event list" where
  "patient_session =
     [Download Prompt ''g'' ''f'', Spawned Prompt, Download Prompt ''g'' ''f'', Published 0 (new_download\<lparr>di_status := [0]\<rparr>),
      Noted 0 0 2, Judged 0, Cleared 0, Returned 0, Page_accepts True, Download Page ''g'' ''f'', Spawned Page]"

theorem one_run_per_file_witness:
  "let s = client_run patient_session (client_running True \<lparr>tc_open = True, tc_token = ''t''\<rparr>) in
    ct_runs s 1 = Some (''f'', Preparing) \<and> ct_runs s 0 = None \<and> \<not> ct_undefined s"
proof -
  let ?tc = "\<lparr>tc_open = True, tc_token = ''t''\<rparr>"
  note session_simps = patient_session_def client_running_def thread_defs start_download_def mark_inactive_def new_download_def
    record_piece_def ending_def
  have "undisturbed patient_session (client_running True ?tc)" by (simp add: session_simps)
  note once = one_run_per_file [OF this]
  have "ct_runs (client_run patient_session (client_running True ?tc)) 1 = Some (''f'', Preparing)"
    by (simp add: session_simps)
  moreover have "ct_runs (client_run patient_session (client_running True ?tc)) 0 = None" by (simp add: session_simps)
  ultimately show ?thesis using once by (simp add: Let_def)
qed


end
