(* ===== verification/Spec2Isabelle.thy ===== *)
theory Spec2Isabelle imports Common_Guarantees Tracker_Guarantees Replication_Guarantees Download_Guarantees Client_Guarantees Startup_Guarantees System
  Two_Trackers Connections Addresses Download_Pool Download_Swarm Tracker_Threads Tracker_Process Client_Threads
begin

text \<open>
  \<^bold>\<open>A verification of the peer-to-peer file sharing system.\<close>

  The program consists of a tracker (\<^verbatim>\<open>src/tracker\<close>), a client (\<^verbatim>\<open>src/client\<close>) and what both share
  (\<^verbatim>\<open>src/common\<close>). A tracker keeps accounts, groups, files and who seeds them, answers commands over
  framed TCP messages, saves its state to a snapshot file, and replicates with a second tracker by sending
  it the same text. A client sends the commands typed at its prompt or posted by its web page, serves the
  pieces of the files it uploaded, and downloads files in pieces of 512 KiB from the other clients. The
  parts meet in four texts, each with one writer and one reader: frames, commands, the reply to
  \<open>download_file\<close>, and the records of the snapshot.

  \<^bold>\<open>The theories and the code.\<close> Definitions have the names of the functions they translate.

  \<^item> \<open>Prelude\<close>: unordered sets and maps as duplicate-free lists, the rule collections, the locale
    \<open>invariant_machine\<close>, writing into a file at an offset.
  \<^item> \<^verbatim>\<open>common\<close>: \<open>Wire_Text\<close> (\<^verbatim>\<open>message.cpp\<close>), \<open>Socket_IO\<close> (\<^verbatim>\<open>socket_io.cpp\<close>), \<open>Hash\<close> (\<^verbatim>\<open>hash.cpp\<close>), \<open>Auth\<close>
    (\<^verbatim>\<open>auth.cpp\<close>), \<open>Config\<close> (\<^verbatim>\<open>config.cpp\<close>). Properties in \<open>Common_Guarantees\<close>.
  \<^item> Tracker, one thread at a time: \<open>Session_Manager\<close>, \<open>Tracker_State\<close> (the class \<open>TrackerState\<close>; the record
    \<open>tracker_state\<close> has its four maps and its version, every method is a state transformer with the
    code's early returns), \<open>Persistence\<close> (writer, parser and applier of the records), \<open>Dispatch\<close> (\<open>dispatch\<close>,
    \<open>managepeer\<close>; a \<open>world\<close> is the server with its open connections, \<open>world_step\<close> one accepted connection or
    one round of a connection's thread), \<open>Tracker_Main\<close> (\<open>main\<close> up to its accept loop).
  \<^item> Tracker, its threads together: \<open>Peer_Link\<close> (the replication thread as a step relation next to clients
    and the other tracker), \<open>Two_Trackers\<close> (two such trackers, what one sends being what the other merges),
    \<open>Tracker_Threads\<close> (the threads of \<open>managepeer\<close> next to each other, a round cut into the sections between
    which another thread may run), \<open>Connections\<close> (\<open>managepeer\<close> over byte streams), \<open>Tracker_Process\<close> (accept loop, signal handler, snapshot
    thread, console and shutdown, with saves cut into their system calls).
  \<^item> Tracker, specifications: \<open>Tracker_Policy\<close> (what each operation may do to the \<open>facts\<close> of a state, to its
    \<open>accounts\<close>, that is the password digests and who is online where, and to the \<open>metadata\<close> of its files) and
    \<open>Tracker_Refinement\<close> (every method does just that, and refuses only what a policy forbids); \<open>Snapshot\<close> (the format round trip, and
    \<open>stored_ok\<close>, the types of what is stored); \<open>Replication\<close> (merging is set union of facts); \<open>Addresses\<close> (the
    types of addresses). Properties in \<open>Tracker_Guarantees\<close>, \<open>Replication_Guarantees\<close>, \<open>Startup_Guarantees\<close>
    and at the end of the theories of the previous item.
  \<^item> Client: \<open>Tracker_Client\<close>, \<open>Upload_Registry\<close>, \<open>Commands\<close>, \<open>Peer_Server\<close>, \<open>Download_Reply\<close> and \<open>Downloader\<close>
    (\<^verbatim>\<open>downloader.cpp\<close>: reading the reply; the table of downloads and \<open>run\<close> stage by stage), \<open>Download_Pool\<close>
    (the worker threads of a run, interleaved), \<open>Download_Swarm\<close> (the same threads driven by what the network
    answers and by a schedule), \<open>Http_Server\<close>, \<open>Web_UI\<close>, \<open>Client_Main\<close>,
    \<open>Client_Threads\<close> (prompt, dashboard and several downloads next to each other, and how the client ends).
    Properties in \<open>Client_Guarantees\<close>, \<open>Download_Guarantees\<close>, \<open>Download_Pool\<close>, \<open>Download_Swarm\<close> and
    \<open>Client_Threads\<close>.
  \<^item> \<open>System\<close>: the client's connection is a round of the tracker's \<open>managepeer\<close>, and a download asks the peer
    server of the client that uploaded the file. \<open>Examples\<close>: the concrete values of the witnesses.

  \<^bold>\<open>What is shown.\<close> An uploaded file reaches a downloader byte for byte through both clients and the
  tracker, under every fair schedule of the download's workers. The tracker's methods do what the policies on facts, accounts and metadata prescribe,
  and commands run them only for the authenticated user. Two ways round that are part of the code, and the
  statements name them: the replication message \<open>STATE\<close> carries no token, so that anybody who reaches the port can
  add members, files and seeders, and \<open>logout\<close> is carried out for an expired token that is still in the table. The
  replies reveal only the groups of the user; every reachable state is well-formed. However the connections'
  threads interleave, the state stays well-typed and a change is made for the user whose token was checked. The
  tracker over bytes implements the tracker over messages. A snapshot restores the state it was taken from;
  the snapshot file is never torn unless two saves overlap (and what they can do then is shown too). A merge is a
  union; two trackers whose links are idle agree on what nobody took back; leaving a group is undone by
  replication. Files are served and announced only with verified content, a pool of download workers
  always ends, and one honest peer per piece suffices.
  A file has one run at a time as long as nobody asks for it on the last lines of a run (and what happens then is
  shown), and the client leaves the tracker only when all downloads have ended. The readers (integers, frames, replies, JSON, HTTP)
  accept just what their writers produce and refuse what is too long.

  Where the same code is translated at two grains, lemmas relate the translations: rounds that are not interrupted
  are the steps of the tracker over messages (\<open>uninterrupted_rounds_are_steps\<close>), and one worker alone is the loop
  over the pieces (\<open>lone_worker_is_work\<close>, for peers that give the same answer every time). They check that the
  grains agree, and are not counted among the properties of the code.

  \<^bold>\<open>Interfaces.\<close> The contracts between components are locales, each interpreted on the model's own
  definitions where they are provided: \<open>invariant_machine\<close> (the tracker's world, the client's threads), \<open>field_codec\<close> (decimal
  fields), \<open>exact_reader\<close> (\<open>recv_all\<close>), \<open>token_store\<close> (sessions), \<open>union_replica\<close> (merging), \<open>name_table\<close>
  (the upload registry).

  \<^bold>\<open>Parameters.\<close> Code outside the repository is an argument: OpenSSL's digests (\<open>openssl\<close>) and
  \<open>RAND_bytes\<close> (\<open>rng\<close>), the answers of the operating system to socket, file and rename calls, the clock, the
  bytes that arrive and how they are cut up, the order in which threads run. Assumptions on them are
  hypotheses of the theorems that need them (for example that no other piece has the digest of a published
  one). Text of the web page is a parameter as well.

  \<^bold>\<open>Integers and bounds.\<close> The version is a \<open>64 word\<close> and wraps, as does the diff of the password comparison on
  bytes; sizes and counts read from texts are \<open>int\<close> with the code's range checks, casts written out. There is
  no fuel: all loops are recursive functions with termination proofs, or step relations where the code runs
  for ever. The bounds on frames (\<open>kMaxFrameSize\<close>), headers and bodies, pieces and retries are the
  code's. \<open>pool_finishes\<close> bounds the turns of a download's workers linearly in pieces and peers; theorems
  about idle links assume fewer than 2 to the 64 changes.

  \<^bold>\<open>Grain.\<close> A critical section is one step of \<open>Tracker_Threads\<close> and \<open>Peer_Link\<close>, and a system call of a save one
  step of \<open>Tracker_Process\<close>; \<open>Dispatch\<close> takes the whole round of a connection as one. Descriptors stand for the identity of a connection: a new one is
  not among those in use. A crash of the tracker keeps what its completed calls wrote; loss of power before
  the operating system has written its caches back is not modelled (the code does not call \<open>fsync\<close>).
  Undefined behaviour of C++ is modelled as wrap-around where noted. \<open>Two_Trackers\<close> begins when both trackers have
  loaded their snapshots and has no restarts (\<open>Startup_Guarantees\<close> and \<open>System\<close> show what those do) and no \<open>STATE\<close> of
  a third party. \<open>Client_Threads\<close> has downloads as its only commands.

  \<^bold>\<open>Not modelled.\<close> The page of \<^verbatim>\<open>web_assets.h\<close>; messages on the console; the lengths of pauses and timeouts;
  what a thread costs the system; include lines, class declarations and
  comments, which make up most of the lines no definition is mapped to; the tests and build files.
\<close>

end
